(* ===== verification/Hash_Collections.thy ===== *)
theory Hash_Collections
  imports Prelude
begin

text \<open>
  \<open>HashMap\<close> and \<open>HashSet\<close> of the Rust standard library. A map is an association list
  with distinct keys and a set is a list of distinct elements; the order of the list is
  the (unspecified) order in which the code's iteration sees the entries. Theorems
  quantify over all such lists, and the results that matter are stated on what a list
  represents, so they hold whatever the iteration order.

  The interface \<open>assoc_map\<close> states what a map promises its clients; the association
  lists provide it.
\<close>

type_synonym ('k, 'v) hash_map = "('k \<times> 'v) list"
type_synonym 'a hash_set = "'a list"

section \<open>Sets\<close>

definition hs_insert :: "'a \<Rightarrow> 'a hash_set \<Rightarrow> 'a hash_set" where
  "hs_insert x s = (if x \<in> set s then s else s @ [x])"

definition hs_remove :: "'a \<Rightarrow> 'a hash_set \<Rightarrow> 'a hash_set" where
  "hs_remove x s = filter (\<lambda>y. y \<noteq> x) s"

lemma set_hs_insert [simp]: "set (hs_insert x s) = insert x (set s)"
  by (auto simp: hs_insert_def)

lemma set_hs_remove [simp]: "set (hs_remove x s) = set s - {x}"
  by (auto simp: hs_remove_def)

lemma distinct_hs_insert [simp]: "distinct (hs_insert x s) \<longleftrightarrow> distinct s"
  by (auto simp: hs_insert_def)

lemma distinct_hs_remove [simp]: "distinct s \<Longrightarrow> distinct (hs_remove x s)"
  by (simp add: hs_remove_def)

lemma hs_insert_not_Nil [simp]: "hs_insert x s \<noteq> []"
  by (auto simp: hs_insert_def)

lemma length_hs_insert: "length (hs_insert x s) = (if x \<in> set s then length s else Suc (length s))"
  by (simp add: hs_insert_def)

lemma length_hs_remove:
  "distinct s \<Longrightarrow> length (hs_remove x s) = (if x \<in> set s then length s - 1 else length s)"
  using distinct_card [of "hs_remove x s"] distinct_card [of s]
  by (auto simp: card_Diff_singleton_if split: if_splits)

lemma hs_remove_empty_iff: "hs_remove x s = [] \<longleftrightarrow> set s \<subseteq> {x}"
  by (auto simp: hs_remove_def filter_empty_conv)

section \<open>Maps\<close>

definition hm_get :: "('k, 'v) hash_map \<Rightarrow> 'k \<Rightarrow> 'v option" where
  "hm_get m k = map_of m k"

definition hm_insert :: "'k \<Rightarrow> 'v \<Rightarrow> ('k, 'v) hash_map \<Rightarrow> ('k, 'v) hash_map" where
  "hm_insert k v m = AList.update k v m"

definition hm_remove :: "'k \<Rightarrow> ('k, 'v) hash_map \<Rightarrow> ('k, 'v) hash_map" where
  "hm_remove k m = AList.delete k m"

definition hm_keys :: "('k, 'v) hash_map \<Rightarrow> 'k list" where
  "hm_keys m = map fst m"

text \<open>\<open>entry(k).or_default()\<close>, read: the value the entry refers to.\<close>

definition hm_or_default :: "'v \<Rightarrow> ('k, 'v) hash_map \<Rightarrow> 'k \<Rightarrow> 'v" where
  "hm_or_default d m k = (case hm_get m k of Some v \<Rightarrow> v | None \<Rightarrow> d)"

text \<open>A loop over \<open>values_mut()\<close>, and \<open>retain\<close>.\<close>

definition hm_map_values :: "('v \<Rightarrow> 'w) \<Rightarrow> ('k, 'v) hash_map \<Rightarrow> ('k, 'w) hash_map" where
  "hm_map_values f m = map (\<lambda>(k, v). (k, f v)) m"

definition hm_retain :: "('k \<Rightarrow> 'v \<Rightarrow> bool) \<Rightarrow> ('k, 'v) hash_map \<Rightarrow> ('k, 'v) hash_map" where
  "hm_retain p m = filter (\<lambda>(k, v). p k v) m"

definition hm_wf :: "('k, 'v) hash_map \<Rightarrow> bool" where
  "hm_wf m \<longleftrightarrow> distinct (map fst m)"

section \<open>The interface of a map\<close>

locale assoc_map =
  fixes empty :: "'m"
    and get :: "'m \<Rightarrow> 'k \<Rightarrow> 'v option"
    and insert_at :: "'k \<Rightarrow> 'v \<Rightarrow> 'm \<Rightarrow> 'm"
    and remove :: "'k \<Rightarrow> 'm \<Rightarrow> 'm"
    and keys :: "'m \<Rightarrow> 'k list"
    and wf :: "'m \<Rightarrow> bool"
  assumes get_empty: "get empty k = None"
    and get_insert: "get (insert_at k v m) k' = (if k' = k then Some v else get m k')"
    and get_remove: "wf m \<Longrightarrow> get (remove k m) k' = (if k' = k then None else get m k')"
    and set_keys: "set (keys m) = {k. get m k \<noteq> None}"
    and distinct_keys: "wf m \<Longrightarrow> distinct (keys m)"
    and wf_empty: "wf empty"
    and wf_insert: "wf m \<Longrightarrow> wf (insert_at k v m)"
    and wf_remove: "wf m \<Longrightarrow> wf (remove k m)"
begin

lemma get_insert_same: "get (insert_at k v m) k = Some v"
  by (simp add: get_insert)

lemma get_insert_other: "k' \<noteq> k \<Longrightarrow> get (insert_at k v m) k' = get m k'"
  by (simp add: get_insert)

lemma keys_insert: "set (keys (insert_at k v m)) = insert k (set (keys m))"
  by (auto simp: set_keys get_insert)

lemma keys_remove: "wf m \<Longrightarrow> set (keys (remove k m)) = set (keys m) - {k}"
  by (auto simp: set_keys get_remove)

lemma length_keys: "wf m \<Longrightarrow> length (keys m) = card {k. get m k \<noteq> None}"
  by (metis distinct_card distinct_keys set_keys)

text \<open>Writing the same key twice, or writing and removing it, leaves the last effect.\<close>

lemma get_insert_twice: "get (insert_at k v (insert_at k w m)) = get (insert_at k v m)"
  by (rule ext) (simp add: get_insert)

lemma get_remove_insert: "wf m \<Longrightarrow> get (remove k (insert_at k v m)) = get (remove k m)"
  by (rule ext) (simp add: get_insert get_remove wf_insert)

end

lemma hm_get_Nil [simp]: "hm_get [] k = None"
  by (simp add: hm_get_def)

interpretation hm: assoc_map "[]" hm_get hm_insert hm_remove hm_keys hm_wf
proof unfold_locales
  fix k k' :: 'a and v :: 'b and m :: "('a, 'b) hash_map"
  show "hm_get [] k = (None :: 'b option)" by simp
  show "hm_get (hm_insert k v m) k' = (if k' = k then Some v else hm_get m k')"
    by (simp add: hm_get_def hm_insert_def update_conv')
  show "hm_get (hm_remove k m) k' = (if k' = k then None else hm_get m k')"
    by (simp add: hm_get_def hm_remove_def delete_conv')
  show "set (hm_keys m) = {k. hm_get m k \<noteq> None}"
    by (auto simp: hm_get_def hm_keys_def map_of_eq_None_iff)
  show "hm_wf m \<Longrightarrow> distinct (hm_keys m)" by (simp add: hm_wf_def hm_keys_def)
  show "hm_wf ([] :: ('a, 'b) hash_map)" by (simp add: hm_wf_def)
  show "hm_wf m \<Longrightarrow> hm_wf (hm_insert k v m)"
    by (simp add: hm_wf_def hm_insert_def distinct_update)
  show "hm_wf m \<Longrightarrow> hm_wf (hm_remove k m)"
    by (simp add: hm_wf_def hm_remove_def distinct_delete)
qed

lemma hm_get_remove [simp]: "hm_get (hm_remove k m) k' = (if k' = k then None else hm_get m k')"
  by (simp add: hm_get_def hm_remove_def delete_conv')

declare hm.get_insert [simp]
declare hm.wf_empty [simp] hm.wf_insert [simp] hm.wf_remove [simp]

text \<open>Membership in the list of entries, for the loops that walk it.\<close>

lemma hm_get_iff: "hm_wf m \<Longrightarrow> hm_get m k = Some v \<longleftrightarrow> (k, v) \<in> set m"
  by (simp add: hm_get_def hm_wf_def)

lemma hm_get_Some_in: "hm_get m k = Some v \<Longrightarrow> (k, v) \<in> set m"
  by (simp add: hm_get_def map_of_SomeD)

lemma hm_insert_not_Nil [simp]: "hm_insert k v m \<noteq> []"
  by (simp add: hm_insert_def update_nonempty)

lemma hm_empty_iff: "m = [] \<longleftrightarrow> (\<forall>k. hm_get m k = None)"
  by (cases m) (auto simp: hm_get_def)

lemma hm_get_map_values [simp]: "hm_get (hm_map_values f m) k = map_option f (hm_get m k)"
  by (induction m) (auto simp: hm_get_def hm_map_values_def)

lemma hm_wf_map_values [simp]: "hm_wf (hm_map_values f m) \<longleftrightarrow> hm_wf m"
proof -
  have "map fst (hm_map_values f m) = map fst m" by (auto simp: hm_map_values_def)
  then show ?thesis by (simp add: hm_wf_def)
qed

lemma hm_wf_retain [simp]: "hm_wf m \<Longrightarrow> hm_wf (hm_retain p m)"
  by (simp add: hm_wf_def hm_retain_def distinct_map_filter)

lemma hm_get_retain:
  "hm_wf m \<Longrightarrow> hm_get (hm_retain p m) k = (case hm_get m k of
     Some v \<Rightarrow> if p k v then Some v else None | None \<Rightarrow> None)"
  by (induction m)
     (auto simp: hm_get_def hm_retain_def hm_wf_def map_of_eq_None_iff image_iff split: option.splits)

lemma length_hm_insert:
  "length (hm_insert k v m) = (case hm_get m k of Some _ \<Rightarrow> length m | None \<Rightarrow> Suc (length m))"
  by (induction m) (auto simp: hm_get_def hm_insert_def split: option.splits)

section \<open>Maps to collections, flattened\<close>

text \<open>The (key, element) pairs of a map to collections, as nested loops visit them.\<close>

definition hm_pairs :: "('k, 'x list) hash_map \<Rightarrow> ('k \<times> 'x) list" where
  "hm_pairs m = concat (map (\<lambda>(k, xs). map (Pair k) xs) m)"

lemma hm_pairs_Nil [simp]: "hm_pairs [] = []"
  by (simp add: hm_pairs_def)

lemma hm_pairs_Cons [simp]: "hm_pairs ((k, xs) # m) = map (Pair k) xs @ hm_pairs m"
  by (simp add: hm_pairs_def)

lemma in_hm_pairs: "(k, x) \<in> set (hm_pairs m) \<longleftrightarrow> (\<exists>xs. (k, xs) \<in> set m \<and> x \<in> set xs)"
  by (auto simp: hm_pairs_def)

lemma set_hm_pairs:
  "hm_wf m \<Longrightarrow> (k, x) \<in> set (hm_pairs m) \<longleftrightarrow> (\<exists>xs. hm_get m k = Some xs \<and> x \<in> set xs)"
  by (auto simp: in_hm_pairs hm_get_iff)

lemma distinct_hm_pairs:
  "hm_wf m \<Longrightarrow> (\<And>k xs. (k, xs) \<in> set m \<Longrightarrow> distinct xs) \<Longrightarrow> distinct (hm_pairs m)"
proof (induction m)
  case Nil
  then show ?case by simp
next
  case (Cons e m)
  obtain k xs where e: "e = (k, xs)" by (cases e)
  have "distinct (hm_pairs m)"
    by (rule Cons.IH) (use Cons.prems in \<open>auto simp: hm_wf_def\<close>)
  moreover have "distinct xs" by (rule Cons.prems(2) [of k]) (simp add: e)
  moreover have "k \<notin> fst ` set m" using Cons.prems(1) e by (simp add: hm_wf_def)
  then have "set (map (Pair k) xs) \<inter> set (hm_pairs m) = {}"
    by (force simp: in_hm_pairs)
  ultimately show ?case using e by (simp add: distinct_map inj_on_def)
qed

lemma length_hm_pairs: "length (hm_pairs m) = sum_list (map (\<lambda>(k, xs). length xs) m)"
  by (simp add: hm_pairs_def length_concat comp_def case_prod_unfold)

lemma hm_map_values_conv: "hm_map_values f m = map (\<lambda>e. (fst e, f (snd e))) m"
  by (simp add: hm_map_values_def case_prod_unfold)

end
