(* ===== verification/Bond_Types.thy ===== *)
theory Bond_Types
  imports Hash_Collections
begin

text \<open>
  The core types (\<open>src/src/types.rs\<close>), the error type (\<open>src/src/error.rs\<close>) and the
  messages that \<open>prost\<close> generates from \<open>src/proto/metalbond.proto\<close>, with the conversions
  between the two.

  Addresses are words: an \<open>Ipv4Addr\<close> is 32 bits and an \<open>Ipv6Addr\<close> 128 bits, their
  \<open>octets()\<close> are big-endian. The constructor \<open>IpNet::new\<close> of the crate \<open>ipnet\<close> is a
  parameter \<open>net_new\<close>; the locale \<open>ipnet_crate\<close> states what that crate documents.
\<close>

section \<open>Errors\<close>

text \<open>The payload of an I/O, decode or netlink error is opaque to the code and left out.\<close>

datatype error =
    EConnection
  | EProtocol string
  | EEncoding
  | ENotEstablished
  | EClosed
  | ETimeout
  | EConnectionTimeout
  | EAlreadySubscribed u32
  | ENotSubscribed u32
  | ERouteAlreadyAnnounced
  | ERouteNotFound
  | ENetlink string
  | ENetlinkConnection

section \<open>Identifiers and enumerations\<close>

datatype vni = Vni (vni_u32: u32)

definition vni_from_u32 :: "u32 \<Rightarrow> vni" where "vni_from_u32 v = Vni v"
definition u32_from_vni :: "vni \<Rightarrow> u32" where "u32_from_vni v = vni_u32 v"

definition vni_display :: "vni \<Rightarrow> string" where
  "vni_display v = show_nat (unat (vni_u32 v))"

instantiation vni :: linorder
begin

definition less_eq_vni :: "vni \<Rightarrow> vni \<Rightarrow> bool" where
  "less_eq_vni a b \<longleftrightarrow> vni_u32 a \<le> vni_u32 b"

definition less_vni :: "vni \<Rightarrow> vni \<Rightarrow> bool" where
  "less_vni a b \<longleftrightarrow> vni_u32 a < vni_u32 b"

instance
  by standard (auto simp: less_eq_vni_def less_vni_def vni.expand)

end

datatype ip_version = IpV4 | IpV6
datatype action = Add | Remove
datatype next_hop_type = Standard | Nat | LoadBalancerTarget

definition next_hop_type_default :: next_hop_type where "next_hop_type_default = Standard"

datatype connection_state =
  Connecting | HelloSent | HelloReceived | Established | Retry | ConnClosed

fun next_hop_type_display :: "next_hop_type \<Rightarrow> string" where
  "next_hop_type_display Standard = ''STANDARD''"
| "next_hop_type_display Nat = ''NAT''"
| "next_hop_type_display LoadBalancerTarget = ''LOADBALANCER_TARGET''"

fun connection_state_display :: "connection_state \<Rightarrow> string" where
  "connection_state_display Connecting = ''CONNECTING''"
| "connection_state_display HelloSent = ''HELLO_SENT''"
| "connection_state_display HelloReceived = ''HELLO_RECEIVED''"
| "connection_state_display Established = ''ESTABLISHED''"
| "connection_state_display Retry = ''RETRY''"
| "connection_state_display ConnClosed = ''CLOSED''"

section \<open>The generated protocol types\<close>

text \<open>
  Each enumeration of the schema has the numbers the schema gives it. \<open>try_from\<close> an
  \<open>i32\<close> succeeds on exactly these.
\<close>

datatype proto_ip_version = ProtoIPv4 | ProtoIPv6
datatype proto_action = ProtoAdd | ProtoRemove
datatype proto_next_hop_type = ProtoStandard | ProtoNat | ProtoLoadbalancerTarget

fun proto_ip_version_i32 :: "proto_ip_version \<Rightarrow> i32" where
  "proto_ip_version_i32 ProtoIPv4 = 0"
| "proto_ip_version_i32 ProtoIPv6 = 1"

definition proto_ip_version_try_from :: "i32 \<Rightarrow> proto_ip_version option" where
  "proto_ip_version_try_from n =
     (if n = 0 then Some ProtoIPv4 else if n = 1 then Some ProtoIPv6 else None)"

fun proto_action_i32 :: "proto_action \<Rightarrow> i32" where
  "proto_action_i32 ProtoAdd = 0"
| "proto_action_i32 ProtoRemove = 1"

definition proto_action_try_from :: "i32 \<Rightarrow> proto_action option" where
  "proto_action_try_from n =
     (if n = 0 then Some ProtoAdd else if n = 1 then Some ProtoRemove else None)"

fun proto_next_hop_type_i32 :: "proto_next_hop_type \<Rightarrow> i32" where
  "proto_next_hop_type_i32 ProtoStandard = 0"
| "proto_next_hop_type_i32 ProtoNat = 1"
| "proto_next_hop_type_i32 ProtoLoadbalancerTarget = 2"

definition proto_next_hop_type_try_from :: "i32 \<Rightarrow> proto_next_hop_type option" where
  "proto_next_hop_type_try_from n =
     (if n = 0 then Some ProtoStandard else if n = 1 then Some ProtoNat
      else if n = 2 then Some ProtoLoadbalancerTarget else None)"

record proto_hello =
  ph_keepalive_interval :: u32
  ph_is_server :: bool

record proto_subscription =
  ps_vni :: u32

record proto_destination =
  pd_ip_version :: i32
  pd_prefix :: "u8 list"
  pd_prefix_length :: u32

record proto_next_hop =
  pn_target_address :: "u8 list"
  pn_target_vni :: u32
  pn_type :: i32
  pn_nat_port_range_from :: u32
  pn_nat_port_range_to :: u32

record proto_update =
  pu_action :: i32
  pu_vni :: u32
  pu_destination :: "proto_destination option"
  pu_next_hop :: "proto_next_hop option"

section \<open>Conversions of the enumerations\<close>

fun ip_version_from :: "proto_ip_version \<Rightarrow> ip_version" where
  "ip_version_from ProtoIPv4 = IpV4"
| "ip_version_from ProtoIPv6 = IpV6"

fun proto_ip_version_from :: "ip_version \<Rightarrow> proto_ip_version" where
  "proto_ip_version_from IpV4 = ProtoIPv4"
| "proto_ip_version_from IpV6 = ProtoIPv6"

fun action_from :: "proto_action \<Rightarrow> action" where
  "action_from ProtoAdd = Add"
| "action_from ProtoRemove = Remove"

fun proto_action_from :: "action \<Rightarrow> proto_action" where
  "proto_action_from Add = ProtoAdd"
| "proto_action_from Remove = ProtoRemove"

fun next_hop_type_from :: "proto_next_hop_type \<Rightarrow> next_hop_type" where
  "next_hop_type_from ProtoStandard = Standard"
| "next_hop_type_from ProtoNat = Nat"
| "next_hop_type_from ProtoLoadbalancerTarget = LoadBalancerTarget"

fun proto_next_hop_type_from :: "next_hop_type \<Rightarrow> proto_next_hop_type" where
  "proto_next_hop_type_from Standard = ProtoStandard"
| "proto_next_hop_type_from Nat = ProtoNat"
| "proto_next_hop_type_from LoadBalancerTarget = ProtoLoadbalancerTarget"

lemma action_via_i32 [simp]:
  "map_option action_from (proto_action_try_from (proto_action_i32 (proto_action_from a))) = Some a"
  by (cases a) (simp_all add: proto_action_try_from_def)

lemma next_hop_type_via_i32 [simp]:
  "map_option next_hop_type_from
     (proto_next_hop_type_try_from (proto_next_hop_type_i32 (proto_next_hop_type_from t))) = Some t"
  by (cases t) (simp_all add: proto_next_hop_type_try_from_def)

lemma ip_version_from_proto_from [simp]: "ip_version_from (proto_ip_version_from v) = v"
  by (cases v) simp_all

section \<open>Addresses and destinations\<close>

type_synonym ipv4_addr = "32 word"
type_synonym ipv6_addr = "128 word"

datatype ip_addr = AddrV4 ipv4_addr | AddrV6 ipv6_addr

definition ipv4_octets :: "ipv4_addr \<Rightarrow> u8 list" where
  "ipv4_octets a = be_bytes 4 (unat a)"

definition ipv4_from_octets :: "u8 list \<Rightarrow> ipv4_addr" where
  "ipv4_from_octets bs = word_of_nat (be_value bs)"

definition ipv6_octets :: "ipv6_addr \<Rightarrow> u8 list" where
  "ipv6_octets a = be_bytes 16 (unat a)"

definition ipv6_from_octets :: "u8 list \<Rightarrow> ipv6_addr" where
  "ipv6_from_octets bs = word_of_nat (be_value bs)"

lemma length_ipv4_octets [simp]: "length (ipv4_octets a) = 4"
  by (simp add: ipv4_octets_def)

lemma length_ipv6_octets [simp]: "length (ipv6_octets a) = 16"
  by (simp add: ipv6_octets_def)

lemma ipv4_from_octets_octets [simp]: "ipv4_from_octets (ipv4_octets a) = a"
  using unsigned_less [of a, where ?'a = nat]
  by (simp add: ipv4_from_octets_def ipv4_octets_def be_value_be_bytes)

lemma ipv6_from_octets_octets [simp]: "ipv6_from_octets (ipv6_octets a) = a"
  using unsigned_less [of a, where ?'a = nat]
  by (simp add: ipv6_from_octets_def ipv6_octets_def be_value_be_bytes)

lemma ipv4_octets_from_octets: "length bs = 4 \<Longrightarrow> ipv4_octets (ipv4_from_octets bs) = bs"
  using be_value_less [of bs] be_bytes_be_value [of bs]
  by (simp add: ipv4_from_octets_def ipv4_octets_def unat_of_nat)

lemma ipv6_octets_from_octets: "length bs = 16 \<Longrightarrow> ipv6_octets (ipv6_from_octets bs) = bs"
  using be_value_less [of bs] be_bytes_be_value [of bs]
  by (simp add: ipv6_from_octets_def ipv6_octets_def unat_of_nat)

text \<open>
  \<open>ipnet::IpNet\<close> as the code sees it: an address (\<open>addr()\<close>, the host bits kept) and a
  prefix length (\<open>prefix_len()\<close>) of one of the two families.
\<close>

datatype ip_net =
    NetV4 (net_v4_addr: ipv4_addr) (net_prefix_len: u8)
  | NetV6 (net_v6_addr: ipv6_addr) (net_prefix_len: u8)

type_synonym net_new = "ip_addr \<Rightarrow> u8 \<Rightarrow> ip_net option"

locale ipnet_crate =
  fixes net_new :: net_new
  assumes net_new_v4: "net_new (AddrV4 a) l = (if l \<le> 32 then Some (NetV4 a l) else None)"
    and net_new_v6: "net_new (AddrV6 b) l = (if l \<le> 128 then Some (NetV6 b l) else None)"

datatype destination = Destination (dest_prefix: ip_net)

definition destination_new :: "ip_net \<Rightarrow> destination" where
  "destination_new pfx = Destination pfx"

text \<open>The two panicking constructors: \<open>None\<close> is the panic of \<open>expect\<close>.\<close>

definition destination_from_ipv4 :: "net_new \<Rightarrow> ipv4_addr \<Rightarrow> u8 \<Rightarrow> destination option" where
  "destination_from_ipv4 net_new addr prefix_len = map_option Destination (net_new (AddrV4 addr) prefix_len)"

definition destination_from_ipv6 :: "net_new \<Rightarrow> ipv6_addr \<Rightarrow> u8 \<Rightarrow> destination option" where
  "destination_from_ipv6 net_new addr prefix_len = map_option Destination (net_new (AddrV6 addr) prefix_len)"

fun destination_ip_version :: "destination \<Rightarrow> ip_version" where
  "destination_ip_version (Destination (NetV4 a l)) = IpV4"
| "destination_ip_version (Destination (NetV6 a l)) = IpV6"

definition destination_try_from :: "net_new \<Rightarrow> proto_destination \<Rightarrow> error + destination" where
  "destination_try_from net_new d =
     and_then
       (case proto_ip_version_try_from (pd_ip_version d) of
          Some ProtoIPv4 \<Rightarrow>
            if length (pd_prefix d) = 4 then Inr (AddrV4 (ipv4_from_octets (pd_prefix d)))
            else Inl (EProtocol ''invalid IPv4 address length'')
        | Some ProtoIPv6 \<Rightarrow>
            if length (pd_prefix d) = 16 then Inr (AddrV6 (ipv6_from_octets (pd_prefix d)))
            else Inl (EProtocol ''invalid IPv6 address length'')
        | None \<Rightarrow> Inl (EProtocol ''invalid IP version''))
       (\<lambda>addr.
          let prefix_len = (ucast (pd_prefix_length d) :: u8)
          in and_then (ok_or (EProtocol ''invalid prefix length'') (net_new addr prefix_len))
               (\<lambda>pfx. Inr (Destination pfx)))"

fun proto_destination_from :: "destination \<Rightarrow> proto_destination" where
  "proto_destination_from (Destination (NetV4 a l)) =
     \<lparr>pd_ip_version = proto_ip_version_i32 ProtoIPv4, pd_prefix = ipv4_octets a,
      pd_prefix_length = ucast l\<rparr>"
| "proto_destination_from (Destination (NetV6 a l)) =
     \<lparr>pd_ip_version = proto_ip_version_i32 ProtoIPv6, pd_prefix = ipv6_octets a,
      pd_prefix_length = ucast l\<rparr>"

section \<open>Next hops and routes\<close>

record next_hop =
  target_address :: ipv6_addr
  target_vni :: "u32 option"
  hop_type :: next_hop_type
  nat_port_range_from :: u16
  nat_port_range_to :: u16

definition next_hop_standard :: "ipv6_addr \<Rightarrow> next_hop" where
  "next_hop_standard a = \<lparr>target_address = a, target_vni = None, hop_type = Standard,
     nat_port_range_from = 0, nat_port_range_to = 0\<rparr>"

definition next_hop_standard_with_vni :: "ipv6_addr \<Rightarrow> u32 \<Rightarrow> next_hop" where
  "next_hop_standard_with_vni a v = \<lparr>target_address = a, target_vni = Some v, hop_type = Standard,
     nat_port_range_from = 0, nat_port_range_to = 0\<rparr>"

definition next_hop_nat :: "ipv6_addr \<Rightarrow> u16 \<Rightarrow> u16 \<Rightarrow> next_hop" where
  "next_hop_nat a port_from port_to = \<lparr>target_address = a, target_vni = None, hop_type = Nat,
     nat_port_range_from = port_from, nat_port_range_to = port_to\<rparr>"

definition next_hop_load_balancer :: "ipv6_addr \<Rightarrow> next_hop" where
  "next_hop_load_balancer a = \<lparr>target_address = a, target_vni = None,
     hop_type = LoadBalancerTarget, nat_port_range_from = 0, nat_port_range_to = 0\<rparr>"

definition next_hop_try_from :: "proto_next_hop \<Rightarrow> error + next_hop" where
  "next_hop_try_from nh =
     and_then
       (if length (pn_target_address nh) = 16 then Inr (ipv6_from_octets (pn_target_address nh))
        else Inl (EProtocol ''invalid target address length''))
       (\<lambda>addr.
          and_then
            (ok_or (EProtocol ''invalid next hop type'')
              (map_option next_hop_type_from (proto_next_hop_type_try_from (pn_type nh))))
            (\<lambda>t. Inr \<lparr>target_address = addr,
                    target_vni = (if pn_target_vni nh \<noteq> 0 then Some (pn_target_vni nh) else None),
                    hop_type = t,
                    nat_port_range_from = ucast (pn_nat_port_range_from nh),
                    nat_port_range_to = ucast (pn_nat_port_range_to nh)\<rparr>))"

definition proto_next_hop_from :: "next_hop \<Rightarrow> proto_next_hop" where
  "proto_next_hop_from nh =
     \<lparr>pn_target_address = ipv6_octets (target_address nh),
      pn_target_vni = (case target_vni nh of Some v \<Rightarrow> v | None \<Rightarrow> 0),
      pn_type = proto_next_hop_type_i32 (proto_next_hop_type_from (hop_type nh)),
      pn_nat_port_range_from = ucast (nat_port_range_from nh),
      pn_nat_port_range_to = ucast (nat_port_range_to nh)\<rparr>"

record route =
  route_destination :: destination
  route_next_hop :: next_hop

definition route_new :: "destination \<Rightarrow> next_hop \<Rightarrow> route" where
  "route_new destination next_hop = \<lparr>route_destination = destination, route_next_hop = next_hop\<rparr>"

text \<open>The key under which a route is stored, owned and tracked.\<close>

type_synonym route_key = "vni \<times> destination \<times> next_hop"

section \<open>What the conversions promise\<close>

text \<open>
  A destination that \<open>IpNet::new\<close> can have built, and a next hop that survives the wire:
  the schema has no way to say a present target VNI of 0.
\<close>

fun destination_valid :: "destination \<Rightarrow> bool" where
  "destination_valid (Destination (NetV4 a l)) = (l \<le> 32)"
| "destination_valid (Destination (NetV6 a l)) = (l \<le> 128)"

definition next_hop_valid :: "next_hop \<Rightarrow> bool" where
  "next_hop_valid h \<longleftrightarrow> target_vni h \<noteq> Some 0"

lemma ucast_u8_u32 [simp]: "(ucast (ucast (l :: u8) :: u32) :: u8) = l"
  by (rule bit_word_eqI) (simp add: bit_simps)

lemma ucast_u16_u32 [simp]: "(ucast (ucast (p :: u16) :: u32) :: u16) = p"
  by (rule bit_word_eqI) (simp add: bit_simps)

lemma ucast_u32_u8_u32: "(ucast (ucast (n :: u32) :: u8) :: u32) = take_bit 8 n"
  by (rule bit_word_eqI) (auto simp: bit_simps)

lemma ucast_u32_u16_u32: "(ucast (ucast (n :: u32) :: u16) :: u32) = take_bit 16 n"
  by (rule bit_word_eqI) (auto simp: bit_simps)

lemma ucast_take_bit_8: "(ucast (take_bit 8 (n :: u32)) :: u8) = ucast n"
  by (rule bit_word_eqI) (auto simp: bit_simps)

lemma ucast_take_bit_16: "(ucast (take_bit 16 (n :: u32)) :: u16) = ucast n"
  by (rule bit_word_eqI) (auto simp: bit_simps)

context ipnet_crate
begin

lemma destination_roundtrip:
  "destination_valid d \<Longrightarrow> destination_try_from net_new (proto_destination_from d) = Inr d"
  by (cases d rule: destination_valid.cases)
     (auto simp: destination_try_from_def proto_ip_version_try_from_def net_new_v4 net_new_v6 Let_def)

lemma destination_try_from_cases:
  "destination_try_from net_new p = Inr d \<longleftrightarrow>
     (pd_ip_version p = 0 \<and> length (pd_prefix p) = 4 \<and> (ucast (pd_prefix_length p) :: u8) \<le> 32 \<and>
      d = Destination (NetV4 (ipv4_from_octets (pd_prefix p)) (ucast (pd_prefix_length p)))) \<or>
     (pd_ip_version p = 1 \<and> length (pd_prefix p) = 16 \<and> (ucast (pd_prefix_length p) :: u8) \<le> 128 \<and>
      d = Destination (NetV6 (ipv6_from_octets (pd_prefix p)) (ucast (pd_prefix_length p))))"
  by (auto simp: destination_try_from_def proto_ip_version_try_from_def net_new_v4 net_new_v6
      and_then_Inr_iff Let_def split: if_splits)

lemma destination_try_from_valid:
  "destination_try_from net_new p = Inr d \<Longrightarrow> destination_valid d"
  by (auto simp: destination_try_from_cases)

lemma destination_reencode:
  "destination_try_from net_new p = Inr d \<Longrightarrow>
     proto_destination_from d = p\<lparr>pd_prefix_length := take_bit 8 (pd_prefix_length p)\<rparr>"
  by (auto simp: destination_try_from_cases ipv4_octets_from_octets ipv6_octets_from_octets
      ucast_u32_u8_u32)

end

text \<open>The constructor \<open>IpNet::new\<close> as the crate documents it provides the interface.\<close>

fun documented_net_new :: net_new where
  "documented_net_new (AddrV4 a) l = (if l \<le> 32 then Some (NetV4 a l) else None)"
| "documented_net_new (AddrV6 a) l = (if l \<le> 128 then Some (NetV6 a l) else None)"

interpretation documented_ipnet: ipnet_crate documented_net_new
  by unfold_locales simp_all

lemma next_hop_roundtrip:
  "next_hop_valid h \<Longrightarrow> next_hop_try_from (proto_next_hop_from h) = Inr h"
  by (cases h) (auto simp: next_hop_try_from_def proto_next_hop_from_def next_hop_valid_def
      and_then_Inr_iff split: option.splits)

lemma next_hop_try_from_valid: "next_hop_try_from p = Inr h \<Longrightarrow> next_hop_valid h"
  by (auto simp: next_hop_try_from_def next_hop_valid_def and_then_Inr_iff split: if_splits)

text \<open>The conversions look at the low bits of the prefix length and of the ports only.\<close>

lemma destination_try_from_low_bits [simp]:
  "destination_try_from net_new (p\<lparr>pd_prefix_length := take_bit 8 (pd_prefix_length p)\<rparr>) =
     destination_try_from net_new p"
  by (simp add: destination_try_from_def ucast_take_bit_8
      cong: if_cong option.case_cong proto_ip_version.case_cong)

lemma next_hop_try_from_low_bits [simp]:
  "next_hop_try_from (p\<lparr>pn_nat_port_range_from := take_bit 16 (pn_nat_port_range_from p),
     pn_nat_port_range_to := take_bit 16 (pn_nat_port_range_to p)\<rparr>) = next_hop_try_from p"
  by (simp add: next_hop_try_from_def ucast_take_bit_16 cong: if_cong)

section \<open>Sample values\<close>

text \<open>The values the examples of this development are evaluated on: VNI 100, the network
  10.0.1.0/24, and two next hops.\<close>

abbreviation vni100 :: vni where "vni100 \<equiv> Vni 100"
abbreviation vni200 :: vni where "vni200 \<equiv> Vni 200"
abbreviation net24 :: destination where "net24 \<equiv> Destination (NetV4 0x0A000100 24)"
abbreviation hop1 :: next_hop where "hop1 \<equiv> next_hop_standard 1"
abbreviation hop2 :: next_hop where "hop2 \<equiv> next_hop_nat 2 1024 2048"

section \<open>Properties\<close>

text \<open>A destination that \<open>IpNet::new\<close> can have built is read back from its protocol form
  unchanged, for both address families.\<close>

theorem destination_wire_roundtrip:
  assumes "ipnet_crate net_new" and "destination_valid d"
  shows "destination_try_from net_new (proto_destination_from d) = Inr d"
  by (rule ipnet_crate.destination_roundtrip [OF assms])

theorem destination_wire_roundtrip_witness:
  "destination_try_from documented_net_new (proto_destination_from net24) = Inr net24"
  by (rule destination_wire_roundtrip [OF documented_ipnet.ipnet_crate_axioms]) simp

text \<open>C29: decoding a protocol destination succeeds with \<open>d\<close> exactly when \<open>d\<close> is a network
  \<open>IpNet::new\<close> can build whose encoding is the input with its prefix length cut to 8 bits:
  everything else is rejected, and a length such as 280 is taken for 24.\<close>

theorem destination_decode_exact:
  assumes "ipnet_crate net_new"
  shows "destination_try_from net_new p = Inr d \<longleftrightarrow>
    destination_valid d \<and>
    proto_destination_from d = p\<lparr>pd_prefix_length := take_bit 8 (pd_prefix_length p)\<rparr>"
proof
  assume "destination_try_from net_new p = Inr d"
  then show "destination_valid d \<and>
    proto_destination_from d = p\<lparr>pd_prefix_length := take_bit 8 (pd_prefix_length p)\<rparr>"
    using ipnet_crate.destination_try_from_valid [OF assms] ipnet_crate.destination_reencode [OF assms]
    by blast
next
  assume d: "destination_valid d \<and>
    proto_destination_from d = p\<lparr>pd_prefix_length := take_bit 8 (pd_prefix_length p)\<rparr>"
  then have "destination_try_from net_new (p\<lparr>pd_prefix_length := take_bit 8 (pd_prefix_length p)\<rparr>) = Inr d"
    using ipnet_crate.destination_roundtrip [OF assms] by metis
  then show "destination_try_from net_new p = Inr d" by simp
qed

theorem destination_decode_exact_witness:
  "destination_try_from documented_net_new
     \<lparr>pd_ip_version = 0, pd_prefix = [10, 0, 1, 0], pd_prefix_length = 280\<rparr> = Inr net24"
  by (subst destination_decode_exact [OF documented_ipnet.ipnet_crate_axioms])
     (simp add: ipv4_octets_def be_bytes_4)

text \<open>Decoding a protocol next hop succeeds with \<open>h\<close> exactly when \<open>h\<close> is not a present
  target VNI of 0 and its encoding is the input with the NAT ports cut to 16 bits.\<close>

theorem next_hop_decode_exact:
  "next_hop_try_from p = Inr h \<longleftrightarrow>
     next_hop_valid h \<and>
     proto_next_hop_from h =
       p\<lparr>pn_nat_port_range_from := take_bit 16 (pn_nat_port_range_from p),
         pn_nat_port_range_to := take_bit 16 (pn_nat_port_range_to p)\<rparr>"
proof
  assume h: "next_hop_try_from p = Inr h"
  then have "proto_next_hop_type_i32 (proto_next_hop_type_from (hop_type h)) = pn_type p"
    by (auto simp: next_hop_try_from_def and_then_Inr_iff proto_next_hop_type_try_from_def split: if_splits)
  with h show "next_hop_valid h \<and> proto_next_hop_from h =
       p\<lparr>pn_nat_port_range_from := take_bit 16 (pn_nat_port_range_from p),
         pn_nat_port_range_to := take_bit 16 (pn_nat_port_range_to p)\<rparr>"
    by (auto simp: next_hop_try_from_def and_then_Inr_iff proto_next_hop_from_def next_hop_valid_def
        ipv6_octets_from_octets ucast_u32_u16_u32 split: if_splits)
next
  assume h: "next_hop_valid h \<and> proto_next_hop_from h =
       p\<lparr>pn_nat_port_range_from := take_bit 16 (pn_nat_port_range_from p),
         pn_nat_port_range_to := take_bit 16 (pn_nat_port_range_to p)\<rparr>"
  then have "next_hop_try_from (p\<lparr>pn_nat_port_range_from := take_bit 16 (pn_nat_port_range_from p),
      pn_nat_port_range_to := take_bit 16 (pn_nat_port_range_to p)\<rparr>) = Inr h"
    using next_hop_roundtrip by metis
  then show "next_hop_try_from p = Inr h" by simp
qed

end
