(* ===== verification/Route_Store.thy ===== *)
theory Route_Store
  imports Bond_Types
begin

text \<open>
  The abstract specification of everything that stores routes: a set that a log of
  announcements and withdrawals is applied to, and the interface \<open>route_store\<close> that a
  concrete store promises its clients (the server's routing actor, the peer's received
  routes, the client's announced routes).
\<close>

section \<open>Applying updates to a set\<close>

fun apply_action :: "action \<Rightarrow> 'k \<Rightarrow> 'k set \<Rightarrow> 'k set" where
  "apply_action Add k S = insert k S"
| "apply_action Remove k S = S - {k}"

fun apply_log :: "(action \<times> 'k) list \<Rightarrow> 'k set \<Rightarrow> 'k set" where
  "apply_log [] S = S"
| "apply_log ((a, k) # us) S = apply_log us (apply_action a k S)"

lemma apply_log_append [simp]: "apply_log (xs @ ys) S = apply_log ys (apply_log xs S)"
  by (induction xs arbitrary: S) auto

text \<open>Whether a key is present depends on the last update of that key alone.\<close>

lemma apply_log_last:
  "k \<in> apply_log us S \<longleftrightarrow>
     (if filter (\<lambda>u. snd u = k) us = [] then k \<in> S
      else fst (last (filter (\<lambda>u. snd u = k) us)) = Add)"
proof (induction us arbitrary: S)
  case Nil
  then show ?case by simp
next
  case (Cons u us)
  obtain a k' where u: "u = (a, k')" by (cases u)
  then show ?case
    by (cases a; cases "filter (\<lambda>u. snd u = k) us") (auto simp: Cons.IH)
qed

text \<open>
  Replaying the end of a log changes nothing: a subscriber that is handed a snapshot and
  then the updates that were already in its queue ends where the server is.
\<close>

lemma apply_log_replay: "apply_log ys (apply_log (xs @ ys) S) = apply_log (xs @ ys) S"
proof -
  have "k \<in> apply_log ys (apply_log (xs @ ys) S) \<longleftrightarrow> k \<in> apply_log (xs @ ys) S" for k
    by (simp add: apply_log_last del: apply_log_append)
  then show ?thesis by blast
qed

lemma apply_log_adds: "apply_log (map (Pair Add) ks) S = set ks \<union> S"
  by (induction ks arbitrary: S) auto

lemma apply_log_removes: "apply_log (map (Pair Remove) ks) S = S - set ks"
  by (induction ks arbitrary: S) auto

lemma apply_log_other: "k \<notin> snd ` set us \<Longrightarrow> k \<in> apply_log us S \<longleftrightarrow> k \<in> S"
  by (auto simp: apply_log_last filter_empty_conv split: if_splits)

section \<open>The interface of a store\<close>

locale route_store =
  fixes new :: "'t"
    and add :: "'k \<Rightarrow> 't \<Rightarrow> bool \<times> 't"
    and remove :: "'k \<Rightarrow> 't \<Rightarrow> bool \<times> 't"
    and exists_in :: "'k \<Rightarrow> 't \<Rightarrow> bool"
    and listing :: "'t \<Rightarrow> 'k list"
    and inv :: "'t \<Rightarrow> bool"
    and content :: "'t \<Rightarrow> 'k set"
  assumes new_inv: "inv new" and new_content: "content new = {}"
    and add_inv: "inv t \<Longrightarrow> inv (snd (add k t))"
    and add_content: "inv t \<Longrightarrow> content (snd (add k t)) = insert k (content t)"
    and add_flag: "inv t \<Longrightarrow> fst (add k t) \<longleftrightarrow> k \<notin> content t"
    and remove_inv: "inv t \<Longrightarrow> inv (snd (remove k t))"
    and remove_content: "inv t \<Longrightarrow> content (snd (remove k t)) = content t - {k}"
    and remove_flag: "inv t \<Longrightarrow> fst (remove k t) \<longleftrightarrow> k \<in> content t"
    and exists_content: "inv t \<Longrightarrow> exists_in k t \<longleftrightarrow> k \<in> content t"
    and listing_set: "inv t \<Longrightarrow> set (listing t) = content t"
    and listing_distinct: "inv t \<Longrightarrow> distinct (listing t)"
begin

text \<open>One update, and a log of updates, applied to the concrete store.\<close>

lemma length_listing: "inv t \<Longrightarrow> length (listing t) = card (content t)"
  by (metis distinct_card listing_distinct listing_set)

lemma finite_content: "inv t \<Longrightarrow> finite (content t)"
  by (metis List.finite_set listing_set)

lemma add_again: "inv t \<Longrightarrow> \<not> fst (add k (snd (add k t)))"
  by (simp add: add_flag add_inv add_content)

lemma remove_again: "inv t \<Longrightarrow> \<not> fst (remove k (snd (remove k t)))"
  by (simp add: remove_flag remove_inv remove_content)

lemma step_inv:
  "inv t \<Longrightarrow> inv (snd (case a of Add \<Rightarrow> add k t | Remove \<Rightarrow> remove k t))"
  by (cases a) (simp_all add: add_inv remove_inv)

lemma step_content:
  "inv t \<Longrightarrow> content (snd (case a of Add \<Rightarrow> add k t | Remove \<Rightarrow> remove k t)) = apply_action a k (content t)"
  by (cases a) (simp_all add: add_content remove_content)

text \<open>The flag an update returns says exactly whether the content changed.\<close>

lemma step_changes:
  "inv t \<Longrightarrow> fst (case a of Add \<Rightarrow> add k t | Remove \<Rightarrow> remove k t) \<longleftrightarrow>
     content (snd (case a of Add \<Rightarrow> add k t | Remove \<Rightarrow> remove k t)) \<noteq> content t"
  by (cases a) (auto simp: add_content remove_content add_flag remove_flag)

lemma fold_log_refines:
  "inv t \<Longrightarrow>
     inv (fold (\<lambda>(a, k) t. snd (case a of Add \<Rightarrow> add k t | Remove \<Rightarrow> remove k t)) us t) \<and>
     content (fold (\<lambda>(a, k) t. snd (case a of Add \<Rightarrow> add k t | Remove \<Rightarrow> remove k t)) us t) =
       apply_log us (content t)"
proof (induction us arbitrary: t)
  case Nil
  then show ?case by simp
next
  case (Cons u us)
  obtain a k where u: "u = (a, k)" by (cases u)
  show ?case
    using Cons.IH [OF step_inv [OF Cons.prems, where a = a and k = k]] step_content [OF Cons.prems, where a = a and k = k]
    by (simp add: u)
qed

text \<open>Removing everything a listing shows empties the store.\<close>

lemma fold_remove_listing:
  "inv t \<Longrightarrow> content (fold (\<lambda>k t. snd (remove k t)) ks t) = content t - set ks \<and>
     inv (fold (\<lambda>k t. snd (remove k t)) ks t)"
  by (induction ks arbitrary: t) (auto simp: remove_inv remove_content)

end

end
