(* ===== verification/Route_Table.thy ===== *)
theory Route_Table
  imports Route_Store
begin

text \<open>
  The route table (\<open>src/src/route.rs\<close>): a map from VNIs to maps from destinations to sets
  of next hops. Its abstraction \<open>rt_abs\<close> is the set of stored (VNI, destination, next hop)
  triples; every operation is shown to act on that set as a set operation does.

  The interface \<open>route_store\<close> is what the table promises the server's routing actor, the
  client's announced routes and the peer's received routes.
\<close>

section \<open>The table and its operations\<close>

type_synonym vni_routes = "(destination, next_hop hash_set) hash_map"

record route_table =
  rt_routes :: "(vni, vni_routes) hash_map"

definition rt_new :: route_table where
  "rt_new = \<lparr>rt_routes = []\<rparr>"

definition add_next_hop ::
    "vni \<Rightarrow> destination \<Rightarrow> next_hop \<Rightarrow> route_table \<Rightarrow> bool \<times> route_table" where
  "add_next_hop vni dest hop t =
     (let vni_routes = hm_or_default [] (rt_routes t) vni;
          next_hops = hm_or_default [] vni_routes dest
      in (hop \<notin> set next_hops,
          t\<lparr>rt_routes :=
             hm_insert vni (hm_insert dest (hs_insert hop next_hops) vni_routes) (rt_routes t)\<rparr>))"

definition remove_next_hop ::
    "vni \<Rightarrow> destination \<Rightarrow> next_hop \<Rightarrow> route_table \<Rightarrow> (bool \<times> nat) \<times> route_table" where
  "remove_next_hop vni dest hop t =
     (case hm_get (rt_routes t) vni of
        None \<Rightarrow> ((False, 0), t)
      | Some vni_routes \<Rightarrow>
          (case hm_get vni_routes dest of
             None \<Rightarrow> ((False, 0), t)
           | Some next_hops \<Rightarrow>
               let removed = (hop \<in> set next_hops);
                   next_hops' = hs_remove hop next_hops;
                   remaining = length next_hops';
                   vni_routes' = (if next_hops' = [] then hm_remove dest vni_routes
                                  else hm_insert dest next_hops' vni_routes);
                   routes' = (if vni_routes' = [] then hm_remove vni (rt_routes t)
                              else hm_insert vni vni_routes' (rt_routes t))
               in ((removed, remaining), t\<lparr>rt_routes := routes'\<rparr>)))"

definition next_hop_exists :: "vni \<Rightarrow> destination \<Rightarrow> next_hop \<Rightarrow> route_table \<Rightarrow> bool" where
  "next_hop_exists vni dest hop t =
     (case hm_get (rt_routes t) vni of
        None \<Rightarrow> False
      | Some vni_routes \<Rightarrow>
          (case hm_get vni_routes dest of None \<Rightarrow> False | Some hops \<Rightarrow> hop \<in> set hops))"

definition get_vnis :: "route_table \<Rightarrow> vni list" where
  "get_vnis t = hm_keys (rt_routes t)"

definition get_destinations_by_vni :: "vni \<Rightarrow> route_table \<Rightarrow> (destination, next_hop list) hash_map" where
  "get_destinations_by_vni vni t =
     (case hm_get (rt_routes t) vni of
        None \<Rightarrow> []
      | Some vni_routes \<Rightarrow> map (\<lambda>(dest, hops). (dest, hops)) vni_routes)"

definition get_routes_by_vni :: "vni \<Rightarrow> route_table \<Rightarrow> route list" where
  "get_routes_by_vni vni t =
     (case hm_get (rt_routes t) vni of
        None \<Rightarrow> []
      | Some vni_routes \<Rightarrow> concat (map (\<lambda>(dest, hops). map (\<lambda>hop. route_new dest hop) hops) vni_routes))"

definition get_all_routes :: "route_table \<Rightarrow> (vni \<times> route) list" where
  "get_all_routes t =
     concat (map (\<lambda>(vni, vni_routes).
       concat (map (\<lambda>(dest, hops). map (\<lambda>hop. (vni, route_new dest hop)) hops) vni_routes))
       (rt_routes t))"

definition remove_vni :: "vni \<Rightarrow> route_table \<Rightarrow> route list \<times> route_table" where
  "remove_vni vni t =
     (case hm_get (rt_routes t) vni of
        None \<Rightarrow> ([], t)
      | Some vni_routes \<Rightarrow>
          (concat (map (\<lambda>(dest, hops). map (\<lambda>hop. route_new dest hop) hops) vni_routes),
           t\<lparr>rt_routes := hm_remove vni (rt_routes t)\<rparr>))"

definition rt_clear :: "route_table \<Rightarrow> route_table" where
  "rt_clear t = t\<lparr>rt_routes := []\<rparr>"

definition rt_len :: "route_table \<Rightarrow> nat" where
  "rt_len t = sum_list (map (\<lambda>(vni, vni_routes).
     sum_list (map (\<lambda>(dest, hops). length hops) vni_routes)) (rt_routes t))"

definition rt_is_empty :: "route_table \<Rightarrow> bool" where
  "rt_is_empty t \<longleftrightarrow> rt_routes t = []"

section \<open>What a table represents\<close>

definition rt_abs :: "route_table \<Rightarrow> route_key set" where
  "rt_abs t = {(v, d, h). next_hop_exists v d h t}"

text \<open>
  Distinct keys at every level, and no empty inner map or set: \<open>remove_next_hop\<close> cleans
  up, and nothing else may create one.
\<close>

definition vni_routes_wf :: "vni_routes \<Rightarrow> bool" where
  "vni_routes_wf m \<longleftrightarrow> hm_wf m \<and> m \<noteq> [] \<and> (\<forall>d hs. (d, hs) \<in> set m \<longrightarrow> hs \<noteq> [] \<and> distinct hs)"

definition rt_wf :: "route_table \<Rightarrow> bool" where
  "rt_wf t \<longleftrightarrow> hm_wf (rt_routes t) \<and> (\<forall>v m. (v, m) \<in> set (rt_routes t) \<longrightarrow> vni_routes_wf m)"

lemma next_hop_exists_iff:
  "next_hop_exists v d h t \<longleftrightarrow>
     (\<exists>m hs. hm_get (rt_routes t) v = Some m \<and> hm_get m d = Some hs \<and> h \<in> set hs)"
  by (simp add: next_hop_exists_def split: option.splits)

lemma rt_abs_iff [simp]: "(v, d, h) \<in> rt_abs t \<longleftrightarrow> next_hop_exists v d h t"
  by (simp add: rt_abs_def)

lemma rt_wf_get:
  "rt_wf t \<Longrightarrow> hm_get (rt_routes t) v = Some m \<Longrightarrow> vni_routes_wf m"
  by (auto simp: rt_wf_def dest: hm_get_Some_in)

lemma vni_routes_wf_get:
  "vni_routes_wf m \<Longrightarrow> hm_get m d = Some hs \<Longrightarrow> hs \<noteq> [] \<and> distinct hs"
  by (auto simp: vni_routes_wf_def dest: hm_get_Some_in)

lemma rt_wfI:
  assumes "hm_wf (rt_routes t)"
    and "\<And>v m. hm_get (rt_routes t) v = Some m \<Longrightarrow> vni_routes_wf m"
  shows "rt_wf t"
  using assms by (auto simp: rt_wf_def hm_get_iff [symmetric])

lemma vni_routes_wfI:
  assumes "hm_wf m" "m \<noteq> []"
    and "\<And>d hs. hm_get m d = Some hs \<Longrightarrow> hs \<noteq> [] \<and> distinct hs"
  shows "vni_routes_wf m"
  using assms by (auto simp: vni_routes_wf_def hm_get_iff [symmetric])

lemma rt_new_wf [simp]: "rt_wf rt_new" and rt_new_abs [simp]: "rt_abs rt_new = {}"
  by (auto simp: rt_wf_def rt_new_def rt_abs_def next_hop_exists_def)

lemma rt_clear_wf [simp]: "rt_wf (rt_clear t)" and rt_clear_abs [simp]: "rt_abs (rt_clear t) = {}"
  by (auto simp: rt_wf_def rt_clear_def rt_abs_def next_hop_exists_def)

section \<open>Adding and removing\<close>

lemma add_next_hop_exists:
  "next_hop_exists v' d' h' (snd (add_next_hop v d h t)) \<longleftrightarrow>
     (v', d', h') = (v, d, h) \<or> next_hop_exists v' d' h' t"
  by (auto simp: add_next_hop_def next_hop_exists_def hm_or_default_def Let_def
      split: option.splits if_splits)

lemma add_next_hop_abs [store_simps]:
  "rt_abs (snd (add_next_hop v d h t)) = insert (v, d, h) (rt_abs t)"
  by (auto simp: rt_abs_def add_next_hop_exists)

lemma add_next_hop_new [store_simps]:
  "fst (add_next_hop v d h t) \<longleftrightarrow> (v, d, h) \<notin> rt_abs t"
  by (auto simp: add_next_hop_def next_hop_exists_def hm_or_default_def Let_def split: option.splits)

lemma hm_or_default_hops:
  "m = [] \<or> vni_routes_wf m \<Longrightarrow> distinct (hm_or_default [] m d)"
  by (auto simp: hm_or_default_def dest: vni_routes_wf_get split: option.splits)

lemma vni_routes_wf_insert:
  assumes "m = [] \<or> vni_routes_wf m" and "hs \<noteq> []" and "distinct hs"
  shows "vni_routes_wf (hm_insert d hs m)"
proof (rule vni_routes_wfI)
  show "hm_wf (hm_insert d hs m)" using assms(1) by (auto simp: vni_routes_wf_def)
  fix d' hs' assume "hm_get (hm_insert d hs m) d' = Some hs'"
  then show "hs' \<noteq> [] \<and> distinct hs'"
    using assms by (auto dest: vni_routes_wf_get split: if_splits)
qed simp

lemma vni_routes_wf_remove:
  assumes "vni_routes_wf m" and "hm_remove d m \<noteq> []"
  shows "vni_routes_wf (hm_remove d m)"
proof (rule vni_routes_wfI)
  show "hm_wf (hm_remove d m)" using assms(1) by (simp add: vni_routes_wf_def)
qed (use assms in \<open>auto dest: vni_routes_wf_get split: if_splits\<close>)

lemma rt_wf_insert:
  assumes "rt_wf t" and "vni_routes_wf m"
  shows "rt_wf (t\<lparr>rt_routes := hm_insert v m (rt_routes t)\<rparr>)"
proof (rule rt_wfI)
  show "hm_wf (rt_routes (t\<lparr>rt_routes := hm_insert v m (rt_routes t)\<rparr>))"
    using assms(1) by (simp add: rt_wf_def)
qed (use assms in \<open>auto dest: rt_wf_get split: if_splits\<close>)

lemma rt_wf_remove:
  assumes "rt_wf t"
  shows "rt_wf (t\<lparr>rt_routes := hm_remove v (rt_routes t)\<rparr>)"
proof (rule rt_wfI)
  show "hm_wf (rt_routes (t\<lparr>rt_routes := hm_remove v (rt_routes t)\<rparr>))"
    using assms by (simp add: rt_wf_def)
qed (use assms in \<open>auto dest: rt_wf_get split: if_splits\<close>)

lemma rt_or_default_wf:
  "rt_wf t \<Longrightarrow> hm_or_default [] (rt_routes t) v = [] \<or> vni_routes_wf (hm_or_default [] (rt_routes t) v)"
  by (auto simp: hm_or_default_def dest: rt_wf_get split: option.splits)

lemma add_next_hop_wf: "rt_wf t \<Longrightarrow> rt_wf (snd (add_next_hop v d h t))"
  unfolding add_next_hop_def Let_def snd_conv
  by (intro rt_wf_insert vni_routes_wf_insert rt_or_default_wf)
     (simp_all add: hm_or_default_hops rt_or_default_wf)

lemma remove_next_hop_exists:
  assumes "rt_wf t"
  shows "next_hop_exists v' d' h' (snd (remove_next_hop v d h t)) \<longleftrightarrow>
     (v', d', h') \<noteq> (v, d, h) \<and> next_hop_exists v' d' h' t"
proof (cases "hm_get (rt_routes t) v")
  case None
  then show ?thesis by (auto simp: remove_next_hop_def next_hop_exists_def)
next
  case (Some m)
  show ?thesis
  proof (cases "hm_get m d")
    case None
    with Some show ?thesis by (auto simp: remove_next_hop_def next_hop_exists_def)
  next
    case (Some hs)
    with \<open>hm_get (rt_routes t) v = Some m\<close> show ?thesis
      by (auto simp: remove_next_hop_def next_hop_exists_def Let_def hs_remove_empty_iff
          hm_empty_iff [of "hm_remove d m"] split: option.splits if_splits)
  qed
qed

lemma remove_next_hop_abs [store_simps]:
  "rt_wf t \<Longrightarrow> rt_abs (snd (remove_next_hop v d h t)) = rt_abs t - {(v, d, h)}"
  by (auto simp: rt_abs_def remove_next_hop_exists)

lemma remove_next_hop_removed [store_simps]:
  "fst (fst (remove_next_hop v d h t)) \<longleftrightarrow> (v, d, h) \<in> rt_abs t"
  by (auto simp: remove_next_hop_def next_hop_exists_def Let_def split: option.splits)

lemma remove_next_hop_remaining:
  assumes "rt_wf t"
  shows "snd (fst (remove_next_hop v d h t)) = card {h'. (v, d, h') \<in> rt_abs t - {(v, d, h)}}"
proof (cases "hm_get (rt_routes t) v")
  case None
  then show ?thesis by (simp add: remove_next_hop_def next_hop_exists_def)
next
  case (Some m)
  show ?thesis
  proof (cases "hm_get m d")
    case None
    with Some show ?thesis by (simp add: remove_next_hop_def next_hop_exists_def)
  next
    case (Some hs)
    with \<open>hm_get (rt_routes t) v = Some m\<close> assms have "distinct hs"
      by (meson rt_wf_get vni_routes_wf_get)
    then have "length (hs_remove h hs) = card (set (hs_remove h hs))"
      by (simp add: distinct_card del: set_hs_remove)
    also have "set (hs_remove h hs) = {h'. h' \<in> set hs \<and> h' \<noteq> h}" by auto
    finally show ?thesis
      using Some \<open>hm_get (rt_routes t) v = Some m\<close>
      by (simp add: remove_next_hop_def next_hop_exists_def Let_def)
  qed
qed

lemma remove_next_hop_wf:
  assumes "rt_wf t"
  shows "rt_wf (snd (remove_next_hop v d h t))"
proof (cases "hm_get (rt_routes t) v")
  case None
  with assms show ?thesis by (simp add: remove_next_hop_def)
next
  case v: (Some m)
  show ?thesis
  proof (cases "hm_get m d")
    case None
    with v assms show ?thesis by (simp add: remove_next_hop_def)
  next
    case d: (Some hs)
    have m: "vni_routes_wf m" using assms v by (rule rt_wf_get)
    have hs: "distinct hs" using m d vni_routes_wf_get by blast
    let ?m' = "if hs_remove h hs = [] then hm_remove d m else hm_insert d (hs_remove h hs) m"
    have "vni_routes_wf ?m'" if "?m' \<noteq> []"
      using that m hs by (auto intro: vni_routes_wf_insert vni_routes_wf_remove split: if_splits)
    with v d assms show ?thesis
      by (auto simp: remove_next_hop_def Let_def intro: rt_wf_insert rt_wf_remove)
  qed
qed

section \<open>Listing\<close>

text \<open>
  The (destination, next hop) pairs of one VNI and the triples of the whole table, in
  iteration order: every listing of the code is one of the two, in other clothes.
\<close>

definition vni_entries :: "vni \<Rightarrow> route_table \<Rightarrow> (destination \<times> next_hop) list" where
  "vni_entries v t = hm_pairs (hm_or_default [] (rt_routes t) v)"

definition all_keys :: "route_table \<Rightarrow> route_key list" where
  "all_keys t = hm_pairs (hm_map_values hm_pairs (rt_routes t))"

lemma set_vni_entries:
  "rt_wf t \<Longrightarrow> (d, h) \<in> set (vni_entries v t) \<longleftrightarrow> (v, d, h) \<in> rt_abs t"
  by (auto simp: vni_entries_def hm_or_default_def next_hop_exists_def set_hm_pairs vni_routes_wf_def
      split: option.splits dest: rt_wf_get)

lemma distinct_vni_entries:
  assumes "rt_wf t"
  shows "distinct (vni_entries v t)"
proof -
  have "m = [] \<or> vni_routes_wf m \<Longrightarrow> distinct (hm_pairs m)" for m
    by (auto simp: vni_routes_wf_def intro!: distinct_hm_pairs)
  then show ?thesis using rt_or_default_wf [OF assms] by (simp add: vni_entries_def)
qed

lemma set_all_keys: "rt_wf t \<Longrightarrow> set (all_keys t) = rt_abs t"
proof -
  assume t: "rt_wf t"
  have "(v, d, h) \<in> set (all_keys t) \<longleftrightarrow> (v, d, h) \<in> rt_abs t" for v d h
  proof -
    have "hm_wf (hm_map_values hm_pairs (rt_routes t))" using t by (simp add: rt_wf_def)
    then have "(v, d, h) \<in> set (all_keys t) \<longleftrightarrow>
        (\<exists>m. hm_get (rt_routes t) v = Some m \<and> (d, h) \<in> set (hm_pairs m))"
      by (auto simp: all_keys_def set_hm_pairs)
    also have "\<dots> \<longleftrightarrow> (v, d, h) \<in> rt_abs t"
      using t by (auto simp: next_hop_exists_def set_hm_pairs vni_routes_wf_def
          split: option.splits dest: rt_wf_get)
    finally show ?thesis .
  qed
  then show ?thesis by (simp add: set_eq_iff split_paired_all del: rt_abs_iff)
qed

lemma distinct_all_keys: "rt_wf t \<Longrightarrow> distinct (all_keys t)"
  unfolding all_keys_def
proof (rule distinct_hm_pairs)
  assume t: "rt_wf t"
  then show "hm_wf (hm_map_values hm_pairs (rt_routes t))" by (simp add: rt_wf_def)
  fix v ks assume "(v, ks) \<in> set (hm_map_values hm_pairs (rt_routes t))"
  with t show "distinct ks"
    by (auto simp: hm_map_values_def rt_wf_def vni_routes_wf_def intro!: distinct_hm_pairs)
qed

lemma get_routes_by_vni_entries:
  "get_routes_by_vni v t = map (\<lambda>(d, h). route_new d h) (vni_entries v t)"
  by (simp add: get_routes_by_vni_def vni_entries_def hm_or_default_def hm_pairs_def map_concat
      comp_def case_prod_unfold split: option.splits)

lemma get_all_routes_keys:
  "get_all_routes t = map (\<lambda>(v, d, h). (v, route_new d h)) (all_keys t)"
  by (simp add: get_all_routes_def all_keys_def hm_pairs_def hm_map_values_def map_concat
      comp_def case_prod_unfold)

lemma rt_len_keys: "rt_len t = length (all_keys t)"
  by (simp add: rt_len_def all_keys_def length_hm_pairs hm_map_values_def comp_def case_prod_unfold)

lemma rt_len_card: "rt_wf t \<Longrightarrow> rt_len t = card (rt_abs t)"
  by (metis rt_len_keys distinct_card distinct_all_keys set_all_keys)

lemma get_destinations_by_vni_entries: "hm_pairs (get_destinations_by_vni v t) = vni_entries v t"
  by (simp add: get_destinations_by_vni_def vni_entries_def hm_or_default_def split: option.splits)

lemma route_new_inject [simp]: "route_new d h = route_new d' h' \<longleftrightarrow> d = d' \<and> h = h'"
  by (auto simp: route_new_def)

lemma route_new_fields [simp]:
  "route_destination (route_new d h) = d" "route_next_hop (route_new d h) = h"
  "route_new (route_destination r) (route_next_hop r) = r"
  by (simp_all add: route_new_def)

lemma get_all_routes_distinct: "rt_wf t \<Longrightarrow> distinct (get_all_routes t)"
  by (auto simp: get_all_routes_keys distinct_map distinct_all_keys inj_on_def)

lemma get_vnis_set:
  assumes t: "rt_wf t"
  shows "set (get_vnis t) = fst ` rt_abs t"
proof -
  have "\<exists>d h. (v, d, h) \<in> rt_abs t" if m: "hm_get (rt_routes t) v = Some m" for v m
  proof -
    have wf: "vni_routes_wf m" using t m by (rule rt_wf_get)
    then obtain d hs where "(d, hs) \<in> set m" by (cases m) (auto simp: vni_routes_wf_def)
    with wf have d: "hm_get m d = Some hs" and "hs \<noteq> []"
      by (auto simp: vni_routes_wf_def hm_get_iff)
    then obtain h where "h \<in> set hs" using hd_in_set by blast
    with m d have "(v, d, h) \<in> rt_abs t" by (simp add: next_hop_exists_def)
    then show ?thesis by blast
  qed
  moreover have "\<exists>m. hm_get (rt_routes t) v = Some m" if "(v, d, h) \<in> rt_abs t" for v d h
    using that by (auto simp: next_hop_exists_iff)
  ultimately have "v \<in> set (get_vnis t) \<longleftrightarrow> (\<exists>d h. (v, d, h) \<in> rt_abs t)" for v
    by (fastforce simp: get_vnis_def hm.set_keys simp del: rt_abs_iff)
  then show ?thesis by (force simp: image_iff simp del: rt_abs_iff)
qed

lemma rt_is_empty_iff: "rt_wf t \<Longrightarrow> rt_is_empty t \<longleftrightarrow> rt_abs t = {}"
  by (metis get_vnis_set get_vnis_def hm_keys_def image_is_empty list.map_disc_iff rt_is_empty_def set_empty)

lemma remove_vni_wf: "rt_wf t \<Longrightarrow> rt_wf (snd (remove_vni v t))"
  by (auto simp: remove_vni_def intro: rt_wf_remove split: option.splits)

lemma remove_vni_abs: "rt_abs (snd (remove_vni v t)) = {(v', d, h). (v', d, h) \<in> rt_abs t \<and> v' \<noteq> v}"
  by (auto simp: remove_vni_def next_hop_exists_iff rt_abs_def split: option.splits if_splits)

lemma remove_vni_routes: "fst (remove_vni v t) = get_routes_by_vni v t"
  by (simp add: remove_vni_def get_routes_by_vni_def split: option.splits)

section \<open>The table provides the interface\<close>

text \<open>The operations on whole keys, as the interface takes them.\<close>

abbreviation rt_add :: "route_key \<Rightarrow> route_table \<Rightarrow> bool \<times> route_table" where
  "rt_add k t \<equiv> add_next_hop (fst k) (fst (snd k)) (snd (snd k)) t"

abbreviation rt_remove :: "route_key \<Rightarrow> route_table \<Rightarrow> bool \<times> route_table" where
  "rt_remove k t \<equiv>
     (case remove_next_hop (fst k) (fst (snd k)) (snd (snd k)) t of ((removed, _), t') \<Rightarrow> (removed, t'))"

abbreviation rt_exists :: "route_key \<Rightarrow> route_table \<Rightarrow> bool" where
  "rt_exists k t \<equiv> next_hop_exists (fst k) (fst (snd k)) (snd (snd k)) t"

interpretation rt: route_store rt_new rt_add rt_remove rt_exists all_keys rt_wf rt_abs
proof unfold_locales
  fix t :: route_table and k :: route_key
  assume t: "rt_wf t"
  have rem: "rt_remove k t = (fst (fst r), snd r)"
    if "r = remove_next_hop (fst k) (fst (snd k)) (snd (snd k)) t" for r
    using that by (simp add: case_prod_unfold)
  show "rt_wf (snd (rt_add k t))" using t by (rule add_next_hop_wf)
  show "rt_abs (snd (rt_add k t)) = insert k (rt_abs t)" by (simp add: store_simps)
  show "fst (rt_add k t) \<longleftrightarrow> k \<notin> rt_abs t" by (simp only: add_next_hop_new prod.collapse)
  show "rt_wf (snd (rt_remove k t))" using t by (simp add: rem remove_next_hop_wf)
  show "rt_abs (snd (rt_remove k t)) = rt_abs t - {k}" using t by (simp add: rem store_simps)
  show "fst (rt_remove k t) \<longleftrightarrow> k \<in> rt_abs t"
    by (simp only: rem fst_conv remove_next_hop_removed prod.collapse)
  show "rt_exists k t \<longleftrightarrow> k \<in> rt_abs t" by (simp add: rt_abs_def case_prod_unfold)
  show "set (all_keys t) = rt_abs t" using t by (rule set_all_keys)
  show "distinct (all_keys t)" using t by (rule distinct_all_keys)
qed simp_all

section \<open>Properties\<close>

text \<open>The table after a sequence of announcements and withdrawals.\<close>

definition rt_run :: "(action \<times> route_key) list \<Rightarrow> route_table" where
  "rt_run us = fold (\<lambda>(a, k) t. snd (case a of Add \<Rightarrow> rt_add k t | Remove \<Rightarrow> rt_remove k t)) us rt_new"

lemma rt_run_refines: "rt_wf (rt_run us) \<and> rt_abs (rt_run us) = apply_log us {}"
  unfolding rt_run_def by (rule rt.fold_log_refines [OF rt_new_wf, unfolded rt_new_abs])

text \<open>C12: after any sequence of additions and removals a next hop is in the table exactly when
  the last operation on its key was an addition, and the table has no empty entry at any
  level.\<close>

theorem table_follows_log:
  "rt_wf (rt_run us) \<and>
   (next_hop_exists v d h (rt_run us) \<longleftrightarrow>
      filter (\<lambda>u. snd u = (v, d, h)) us \<noteq> [] \<and> fst (last (filter (\<lambda>u. snd u = (v, d, h)) us)) = Add)"
  using rt_run_refines [of us] rt_abs_iff [of v d h "rt_run us", symmetric]
  by (auto simp: apply_log_last simp del: rt_abs_iff)

text \<open>The listings of a table show every stored route once and nothing else: all routes, the
  routes of one VNI, the destinations of one VNI with their next hops, the VNIs, the number
  of routes and the emptiness test.\<close>

theorem table_listings:
  assumes "rt_wf t"
  shows "distinct (get_all_routes t) \<and>
    set (get_all_routes t) = (\<lambda>(v, d, h). (v, route_new d h)) ` rt_abs t \<and>
    distinct (get_routes_by_vni v t) \<and>
    set (get_routes_by_vni v t) = {route_new d h |d h. (v, d, h) \<in> rt_abs t} \<and>
    {(d, h). \<exists>hs. (d, hs) \<in> set (get_destinations_by_vni v t) \<and> h \<in> set hs} = {(d, h). (v, d, h) \<in> rt_abs t} \<and>
    set (get_vnis t) = fst ` rt_abs t \<and>
    rt_len t = card (rt_abs t) \<and> (rt_is_empty t \<longleftrightarrow> rt_abs t = {})"
proof (intro conjI)
  show "distinct (get_all_routes t)" by (rule get_all_routes_distinct [OF assms])
  show "set (get_all_routes t) = (\<lambda>(v, d, h). (v, route_new d h)) ` rt_abs t"
    by (simp add: get_all_routes_keys set_all_keys [OF assms])
  show "distinct (get_routes_by_vni v t)"
    by (auto simp: get_routes_by_vni_entries distinct_map distinct_vni_entries [OF assms] inj_on_def)
  show "set (get_routes_by_vni v t) = {route_new d h |d h. (v, d, h) \<in> rt_abs t}"
    using set_vni_entries [OF assms, of _ _ v] by (force simp: get_routes_by_vni_entries simp del: rt_abs_iff)
  show "{(d, h). \<exists>hs. (d, hs) \<in> set (get_destinations_by_vni v t) \<and> h \<in> set hs} = {(d, h). (v, d, h) \<in> rt_abs t}"
    unfolding in_hm_pairs [symmetric] get_destinations_by_vni_entries set_vni_entries [OF assms] ..
  show "set (get_vnis t) = fst ` rt_abs t" by (rule get_vnis_set [OF assms])
  show "rt_len t = card (rt_abs t)" by (rule rt_len_card [OF assms])
  show "rt_is_empty t \<longleftrightarrow> rt_abs t = {}" by (rule rt_is_empty_iff [OF assms])
qed

theorem table_listings_witness:
  "distinct (get_all_routes (rt_run [(Add, vni100, net24, hop1), (Add, vni100, net24, hop2)])) \<and>
   rt_len (rt_run [(Add, vni100, net24, hop1), (Add, vni100, net24, hop2)]) =
     card (rt_abs (rt_run [(Add, vni100, net24, hop1), (Add, vni100, net24, hop2)]))"
  using table_listings [OF conjunct1 [OF rt_run_refines], of "[(Add, vni100, net24, hop1), (Add, vni100, net24, hop2)]"]
  by blast

text \<open>Removing a next hop reports whether it was there and how many next hops the destination
  keeps, takes away that next hop and no other, and leaves no empty entry behind.\<close>

theorem remove_next_hop_contract:
  assumes "rt_wf t"
  shows "remove_next_hop v d h t =
      (((v, d, h) \<in> rt_abs t, card {h'. (v, d, h') \<in> rt_abs t - {(v, d, h)}}), snd (remove_next_hop v d h t)) \<and>
    rt_abs (snd (remove_next_hop v d h t)) = rt_abs t - {(v, d, h)} \<and>
    rt_wf (snd (remove_next_hop v d h t))"
  using remove_next_hop_removed [of v d h t] remove_next_hop_remaining [OF assms, of v d h]
    remove_next_hop_abs [OF assms, of v d h] remove_next_hop_wf [OF assms, of v d h]
  by (simp add: prod_eq_iff del: rt_abs_iff)

theorem remove_next_hop_contract_witness:
  "rt_abs (snd (remove_next_hop vni100 net24 hop1 (rt_run [(Add, vni100, net24, hop1), (Add, vni100, net24, hop2)]))) =
     {(vni100, net24, hop2)}"
  using remove_next_hop_contract [of "rt_run [(Add, vni100, net24, hop1), (Add, vni100, net24, hop2)]" vni100 net24 hop1]
    rt_run_refines [of "[(Add, vni100, net24, hop1), (Add, vni100, net24, hop2)]"]
  by (auto simp: next_hop_standard_def next_hop_nat_def)

text \<open>Removing a VNI returns its routes, each once, and leaves exactly the routes of the others.\<close>

theorem remove_vni_contract:
  assumes "rt_wf t"
  shows "distinct (fst (remove_vni v t)) \<and>
    set (fst (remove_vni v t)) = {route_new d h |d h. (v, d, h) \<in> rt_abs t} \<and>
    rt_abs (snd (remove_vni v t)) = {k \<in> rt_abs t. fst k \<noteq> v} \<and> rt_wf (snd (remove_vni v t))"
proof -
  have "set (fst (remove_vni v t)) = {route_new d h |d h. (v, d, h) \<in> rt_abs t}"
    using set_vni_entries [OF assms, of _ _ v]
    by (force simp: remove_vni_routes get_routes_by_vni_entries simp del: rt_abs_iff)
  moreover have "distinct (fst (remove_vni v t))"
    by (auto simp: remove_vni_routes get_routes_by_vni_entries distinct_map distinct_vni_entries [OF assms] inj_on_def)
  ultimately show ?thesis
    using remove_vni_wf [OF assms, of v] by (auto simp: remove_vni_abs simp del: rt_abs_iff)
qed

theorem remove_vni_contract_witness:
  "rt_abs (snd (remove_vni vni100 (rt_run [(Add, vni100, net24, hop1), (Add, vni200, net24, hop2)]))) =
     {(vni200, net24, hop2)}"
  using remove_vni_contract [of "rt_run [(Add, vni100, net24, hop1), (Add, vni200, net24, hop2)]" vni100]
    rt_run_refines [of "[(Add, vni100, net24, hop1), (Add, vni200, net24, hop2)]"]
  by auto

end
