(* ===== verification/Wire.thy ===== *)
theory Wire
  imports Route_Table
begin

text \<open>
  The wire format (\<open>src/src/wire.rs\<close>): a four byte header (version, big-endian length,
  type) and a protobuf payload.

  The crates the code calls are a parameter \<open>x\<close> of type \<open>externals\<close>: the encoders and
  decoders \<open>prost\<close> generates for the three top-level messages of the schema, and
  \<open>IpNet::new\<close>. The locale \<open>externals_ok\<close> states what their documentation promises:
  decoding what was encoded gives it back, the encodings have the size of the protobuf
  wire format, and \<open>IpNet::new\<close> accepts exactly the prefix lengths of the family.
\<close>

section \<open>Messages\<close>

definition PROTOCOL_VERSION :: u8 where "PROTOCOL_VERSION = 1"
definition HEADER_SIZE :: nat where "HEADER_SIZE = 4"
definition MAX_PAYLOAD_SIZE :: nat where "MAX_PAYLOAD_SIZE = 1188"

datatype message_type = TypeHello | TypeKeepalive | TypeSubscribe | TypeUnsubscribe | TypeUpdate

fun message_type_u8 :: "message_type \<Rightarrow> u8" where
  "message_type_u8 TypeHello = 1"
| "message_type_u8 TypeKeepalive = 2"
| "message_type_u8 TypeSubscribe = 3"
| "message_type_u8 TypeUnsubscribe = 4"
| "message_type_u8 TypeUpdate = 5"

definition message_type_try_from :: "u8 \<Rightarrow> error + message_type" where
  "message_type_try_from value =
     (if value = 1 then Inr TypeHello
      else if value = 2 then Inr TypeKeepalive
      else if value = 3 then Inr TypeSubscribe
      else if value = 4 then Inr TypeUnsubscribe
      else if value = 5 then Inr TypeUpdate
      else Inl (EProtocol (''unknown message type: '' @ show_nat (unat value))))"

datatype message =
    MsgHello (msg_keepalive_interval: u32) (msg_is_server: bool)
  | MsgKeepalive
  | MsgSubscribe vni
  | MsgUnsubscribe vni
  | MsgUpdate action vni destination next_hop

fun message_type_of :: "message \<Rightarrow> message_type" where
  "message_type_of (MsgHello k s) = TypeHello"
| "message_type_of MsgKeepalive = TypeKeepalive"
| "message_type_of (MsgSubscribe v) = TypeSubscribe"
| "message_type_of (MsgUnsubscribe v) = TypeUnsubscribe"
| "message_type_of (MsgUpdate a v d h) = TypeUpdate"

section \<open>Encoding and decoding\<close>

record externals =
  enc_hello :: "proto_hello \<Rightarrow> u8 list"
  dec_hello :: "u8 list \<Rightarrow> proto_hello option"
  enc_subscription :: "proto_subscription \<Rightarrow> u8 list"
  dec_subscription :: "u8 list \<Rightarrow> proto_subscription option"
  enc_update :: "proto_update \<Rightarrow> u8 list"
  dec_update :: "u8 list \<Rightarrow> proto_update option"
  ext_net_new :: net_new

fun encode_payload :: "externals \<Rightarrow> message \<Rightarrow> error + u8 list" where
  "encode_payload x (MsgHello keepalive_interval is_server) =
     Inr (enc_hello x \<lparr>ph_keepalive_interval = keepalive_interval, ph_is_server = is_server\<rparr>)"
| "encode_payload x MsgKeepalive = Inr []"
| "encode_payload x (MsgSubscribe vni) = Inr (enc_subscription x \<lparr>ps_vni = vni_u32 vni\<rparr>)"
| "encode_payload x (MsgUnsubscribe vni) = Inr (enc_subscription x \<lparr>ps_vni = vni_u32 vni\<rparr>)"
| "encode_payload x (MsgUpdate action vni destination next_hop) =
     Inr (enc_update x
       \<lparr>pu_action = proto_action_i32 (proto_action_from action), pu_vni = vni_u32 vni,
        pu_destination = Some (proto_destination_from destination),
        pu_next_hop = Some (proto_next_hop_from next_hop)\<rparr>)"

definition message_encode :: "externals \<Rightarrow> message \<Rightarrow> error + u8 list" where
  "message_encode x m =
     and_then (encode_payload x m) (\<lambda>payload.
       if length payload > MAX_PAYLOAD_SIZE then
         Inl (EProtocol (''message too long: '' @ show_nat (length payload) @
           '' bytes > maximum of '' @ show_nat MAX_PAYLOAD_SIZE @ '' bytes''))
       else
         Inr ([PROTOCOL_VERSION,
               word_of_nat (drop_bit 8 (length payload)),
               word_of_nat (length payload AND 0xFF),
               message_type_u8 (message_type_of m)] @ payload))"

fun decode_payload :: "externals \<Rightarrow> message_type \<Rightarrow> u8 list \<Rightarrow> error + message" where
  "decode_payload x TypeHello payload =
     and_then (ok_or EEncoding (dec_hello x payload)) (\<lambda>msg.
       Inr (MsgHello (ph_keepalive_interval msg) (ph_is_server msg)))"
| "decode_payload x TypeKeepalive payload = Inr MsgKeepalive"
| "decode_payload x TypeSubscribe payload =
     and_then (ok_or EEncoding (dec_subscription x payload)) (\<lambda>msg. Inr (MsgSubscribe (Vni (ps_vni msg))))"
| "decode_payload x TypeUnsubscribe payload =
     and_then (ok_or EEncoding (dec_subscription x payload)) (\<lambda>msg. Inr (MsgUnsubscribe (Vni (ps_vni msg))))"
| "decode_payload x TypeUpdate payload =
     and_then (ok_or EEncoding (dec_update x payload)) (\<lambda>msg.
       and_then (ok_or (EProtocol ''invalid action'')
           (map_option action_from (proto_action_try_from (pu_action msg)))) (\<lambda>action.
         and_then (ok_or (EProtocol ''missing destination'') (pu_destination msg)) (\<lambda>destination.
           and_then (destination_try_from (ext_net_new x) destination) (\<lambda>destination.
             and_then (ok_or (EProtocol ''missing next_hop'') (pu_next_hop msg)) (\<lambda>next_hop.
               and_then (next_hop_try_from next_hop) (\<lambda>next_hop.
                 Inr (MsgUpdate action (Vni (pu_vni msg)) destination next_hop)))))))"

definition message_decode :: "externals \<Rightarrow> u8 list \<Rightarrow> error + (message \<times> nat)" where
  "message_decode x buf =
     (if length buf < HEADER_SIZE then Inl (EProtocol ''message too short'')
      else
        let version = buf ! 0 in
        if version \<noteq> PROTOCOL_VERSION then
          Inl (EProtocol (''unsupported protocol version: '' @ show_nat (unat version)))
        else
          let payload_len = push_bit 8 (unat (buf ! 1)) OR unat (buf ! 2) in
          and_then (message_type_try_from (buf ! 3)) (\<lambda>msg_type.
            let total_len = HEADER_SIZE + payload_len in
            if length buf < total_len then Inl (EProtocol ''message truncated'')
            else
              let payload = take payload_len (drop HEADER_SIZE buf) in
              and_then (decode_payload x msg_type payload) (\<lambda>message. Inr (message, total_len))))"

text \<open>
  The guard with which both read loops tell an incomplete message from a bad one: the
  text of a protocol error contains \<open>too short\<close> or \<open>truncated\<close>.
\<close>

fun need_more_data :: "error \<Rightarrow> bool" where
  "need_more_data (EProtocol e) = (str_contains ''too short'' e \<or> str_contains ''truncated'' e)"
| "need_more_data _ = False"

section \<open>What the crates promise\<close>

locale externals_ok =
  fixes x :: externals
  assumes hello_codec: "dec_hello x (enc_hello x h) = Some h"
    and subscription_codec: "dec_subscription x (enc_subscription x s) = Some s"
    and update_codec: "dec_update x (enc_update x u) = Some u"
    and hello_size: "length (enc_hello x h) \<le> 8"
    and subscription_size: "length (enc_subscription x s) \<le> 6"
    and update_size:
      "length (pd_prefix d) \<le> 16 \<Longrightarrow> length (pn_target_address n) \<le> 16 \<Longrightarrow>
       length (enc_update x \<lparr>pu_action = a, pu_vni = v, pu_destination = Some d, pu_next_hop = Some n\<rparr>) \<le> 103"
    and net_new_documented:
      "ext_net_new x addr l = documented_net_new addr l"

sublocale externals_ok \<subseteq> ipnet_crate "ext_net_new x"
  by unfold_locales (simp_all add: net_new_documented)

section \<open>Headers\<close>

definition payload_len_of :: "u8 list \<Rightarrow> nat" where
  "payload_len_of buf = push_bit 8 (unat (buf ! 1)) OR unat (buf ! 2)"

lemma unat_u8_less: "unat (b :: u8) < 256"
  using unsigned_less [of b, where ?'a = nat] by simp

lemma payload_len_of_bytes: "payload_len_of buf = unat (buf ! 1) * 256 + unat (buf ! 2)"
  by (simp add: payload_len_of_def push_bit_8_or unat_u8_less)

lemma payload_len_of_less: "payload_len_of buf < 65536"
  using unat_u8_less [of "buf ! 1"] unat_u8_less [of "buf ! 2"] by (simp add: payload_len_of_bytes)

lemma payload_len_of_append: "4 \<le> length b \<Longrightarrow> payload_len_of (b @ c) = payload_len_of b"
  by (simp add: payload_len_of_def nth_append)

lemma and_255_mod: "n AND 0xFF = n mod (256::nat)"
proof -
  have "n AND mask 8 = take_bit 8 n" by (rule take_bit_eq_mask [symmetric])
  then show ?thesis by (simp add: mask_eq_exp_minus_1 take_bit_eq_mod)
qed

lemma payload_len_of_encode:
  assumes "n < 65536"
  shows "payload_len_of (v # word_of_nat (drop_bit 8 n) # word_of_nat (n AND 0xFF) # rest) = n"
proof -
  have "n div 256 < 256" using assms by simp
  then show ?thesis
    by (simp add: payload_len_of_bytes and_255_mod drop_bit_eq_div unat_of_nat)
qed

lemma message_type_try_from_u8 [simp]: "message_type_try_from (message_type_u8 t) = Inr t"
  by (cases t) (simp_all add: message_type_try_from_def)

lemma message_type_try_from_Inr:
  "message_type_try_from b = Inr t \<longleftrightarrow> b = message_type_u8 t"
  by (cases t) (auto simp: message_type_try_from_def)

text \<open>Decoding, said by the header fields.\<close>

lemma message_decode_header:
  "4 \<le> length buf \<Longrightarrow> message_decode x buf =
     (if buf ! 0 \<noteq> 1 then Inl (EProtocol (''unsupported protocol version: '' @ show_nat (unat (buf ! 0))))
      else and_then (message_type_try_from (buf ! 3)) (\<lambda>t.
        if length buf < 4 + payload_len_of buf then Inl (EProtocol ''message truncated'')
        else and_then (decode_payload x t (take (payload_len_of buf) (drop 4 buf)))
               (\<lambda>m. Inr (m, 4 + payload_len_of buf))))"
  unfolding message_decode_def HEADER_SIZE_def PROTOCOL_VERSION_def Let_def payload_len_of_def by simp

lemma message_decode_short: "length buf < 4 \<Longrightarrow> message_decode x buf = Inl (EProtocol ''message too short'')"
  by (simp add: message_decode_def HEADER_SIZE_def)

lemma message_decode_Inr_iff:
  "message_decode x buf = Inr (m, n) \<longleftrightarrow>
     4 \<le> length buf \<and> buf ! 0 = 1 \<and> n = 4 + payload_len_of buf \<and> n \<le> length buf \<and>
     (\<exists>t. buf ! 3 = message_type_u8 t \<and> decode_payload x t (take (payload_len_of buf) (drop 4 buf)) = Inr m)"
proof (cases "length buf < 4")
  case True
  then show ?thesis by (simp add: message_decode_short)
next
  case False
  then show ?thesis
    by (auto simp: message_decode_header and_then_Inr_iff message_type_try_from_Inr split: if_splits)
qed

lemma message_decode_consumed:
  "message_decode x buf = Inr (m, n) \<Longrightarrow> 4 \<le> n \<and> n \<le> length buf"
  by (auto simp: message_decode_Inr_iff)

section \<open>Round trip\<close>

text \<open>
  What survives the wire: everything but a present target VNI of 0, which the schema
  cannot tell from an absent one. The destination must be one \<open>IpNet::new\<close> builds.
\<close>

definition next_hop_canon :: "next_hop \<Rightarrow> next_hop" where
  "next_hop_canon h = h\<lparr>target_vni := (if target_vni h = Some 0 then None else target_vni h)\<rparr>"

fun message_canon :: "message \<Rightarrow> message" where
  "message_canon (MsgUpdate a v d h) = MsgUpdate a v d (next_hop_canon h)"
| "message_canon m = m"

fun message_valid :: "message \<Rightarrow> bool" where
  "message_valid (MsgUpdate a v d h) = destination_valid d"
| "message_valid m = True"

lemma next_hop_canon_valid: "next_hop_valid h \<Longrightarrow> next_hop_canon h = h"
  by (simp add: next_hop_canon_def next_hop_valid_def)

lemma next_hop_wire: "next_hop_try_from (proto_next_hop_from h) = Inr (next_hop_canon h)"
  by (cases h) (auto simp: next_hop_try_from_def proto_next_hop_from_def next_hop_canon_def
      and_then_Inr_iff split: option.splits)

lemma proto_destination_prefix_length: "length (pd_prefix (proto_destination_from d)) \<le> 16"
  by (cases d rule: proto_destination_from.cases) simp_all

context externals_ok
begin

lemma encode_payload_size: "encode_payload x m = Inr p \<Longrightarrow> length p \<le> 103"
proof -
  assume p: "encode_payload x m = Inr p"
  have "length (enc_hello x h) \<le> 103" for h using hello_size [of h] by simp
  moreover have "length (enc_subscription x s) \<le> 103" for s using subscription_size [of s] by simp
  ultimately show ?thesis
    using p by (cases m)
     (auto intro: update_size proto_destination_prefix_length simp: proto_next_hop_from_def)
qed

lemma encode_payload_total: "\<exists>p. encode_payload x m = Inr p"
  by (cases m) simp_all

lemma payload_roundtrip:
  "message_valid m \<Longrightarrow> encode_payload x m = Inr p \<Longrightarrow>
     decode_payload x (message_type_of m) p = Inr (message_canon m)"
  by (cases m)
     (auto simp: hello_codec subscription_codec update_codec destination_roundtrip next_hop_wire)

text \<open>Encoding never fails: no message of the protocol comes near the size limit.\<close>

lemma message_encode_total:
  "\<exists>p. encode_payload x m = Inr p \<and> length p \<le> 103 \<and>
     message_encode x m =
       Inr ([1, word_of_nat (drop_bit 8 (length p)), word_of_nat (length p AND 0xFF),
             message_type_u8 (message_type_of m)] @ p)"
proof -
  obtain p where p: "encode_payload x m = Inr p" using encode_payload_total by blast
  moreover have "length p \<le> 103" using p by (rule encode_payload_size)
  ultimately show ?thesis
    by (simp add: message_encode_def MAX_PAYLOAD_SIZE_def PROTOCOL_VERSION_def)
qed

lemma message_encode_length:
  "message_encode x m = Inr b \<Longrightarrow> 4 \<le> length b \<and> length b \<le> 107"
  using message_encode_total [of m] by auto

lemma message_roundtrip:
  assumes "message_valid m" and "message_encode x m = Inr b"
  shows "message_decode x (b @ rest) = Inr (message_canon m, length b)"
proof -
  obtain p where p: "encode_payload x m = Inr p" "length p \<le> 103"
    and b: "b = [1, word_of_nat (drop_bit 8 (length p)), word_of_nat (length p AND 0xFF),
             message_type_u8 (message_type_of m)] @ p"
    using message_encode_total [of m] assms(2) by auto
  have len: "payload_len_of (b @ rest) = length p"
    using p(2) by (simp add: b payload_len_of_encode)
  have "decode_payload x (message_type_of m) p = Inr (message_canon m)"
    using assms(1) p(1) by (rule payload_roundtrip)
  then show ?thesis
    by (simp add: message_decode_Inr_iff len) (auto simp: b)
qed

end

section \<open>The three outcomes of decoding\<close>

lemma not_contains_by_char: "c \<in> set pat \<Longrightarrow> c \<notin> set s \<Longrightarrow> \<not> str_contains pat s"
  using str_contains_chars by blast

lemma show_nat_no_letter: "c \<notin> set ''0123456789'' \<Longrightarrow> c \<notin> set (show_nat n)"
  using show_nat_chars by blast

lemma version_error_final: "\<not> need_more_data (EProtocol (''unsupported protocol version: '' @ show_nat n))"
  using not_contains_by_char [of "CHR ''h''" "''too short''" "''unsupported protocol version: '' @ show_nat n"]
    not_contains_by_char [of "CHR ''a''" "''truncated''" "''unsupported protocol version: '' @ show_nat n"]
    show_nat_no_letter [of "CHR ''h''" n] show_nat_no_letter [of "CHR ''a''" n]
  by simp

lemma type_error_final: "\<not> need_more_data (EProtocol (''unknown message type: '' @ show_nat n))"
  using not_contains_by_char [of "CHR ''h''" "''too short''" "''unknown message type: '' @ show_nat n"]
    not_contains_by_char [of "CHR ''r''" "''truncated''" "''unknown message type: '' @ show_nat n"]
    show_nat_no_letter [of "CHR ''h''" n] show_nat_no_letter [of "CHR ''r''" n]
  by simp

lemma destination_error_final: "destination_try_from nn d = Inl e \<Longrightarrow> \<not> need_more_data e"
  by (auto simp: destination_try_from_def and_then_Inl_iff ok_or_Inl_iff Let_def
      split: option.splits proto_ip_version.splits if_splits)

lemma next_hop_error_final: "next_hop_try_from h = Inl e \<Longrightarrow> \<not> need_more_data e"
  by (auto simp: next_hop_try_from_def and_then_Inl_iff ok_or_Inl_iff split: if_splits)

lemma payload_error_final: "decode_payload x t p = Inl e \<Longrightarrow> \<not> need_more_data e"
  by (cases t)
     (auto simp: and_then_Inl_iff ok_or_Inl_iff dest: destination_error_final next_hop_error_final)

lemma type_try_from_error_final: "message_type_try_from b = Inl e \<Longrightarrow> \<not> need_more_data e"
  using type_error_final by (auto simp: message_type_try_from_def split: if_splits)

text \<open>
  The text search finds exactly the incomplete frames: a buffer shorter than a header, or
  a good header whose payload has not all arrived.
\<close>

definition incomplete_frame :: "u8 list \<Rightarrow> bool" where
  "incomplete_frame buf \<longleftrightarrow> length buf < 4 \<or>
     buf ! 0 = 1 \<and> (\<exists>t. buf ! 3 = message_type_u8 t) \<and> length buf < 4 + payload_len_of buf"

lemma need_more_data_iff:
  "(\<exists>e. message_decode x buf = Inl e \<and> need_more_data e) \<longleftrightarrow> incomplete_frame buf"
proof (cases "length buf < 4")
  case True
  then show ?thesis by (simp add: message_decode_short incomplete_frame_def)
next
  case False
  then have h: "4 \<le> length buf" by simp
  show ?thesis
  proof (cases "message_type_try_from (buf ! 3)")
    case (Inl e)
    then have "\<not> (\<exists>t. buf ! 3 = message_type_u8 t)"
      by (auto simp: message_type_try_from_Inr [symmetric])
    with Inl h version_error_final show ?thesis
      by (auto simp: message_decode_header incomplete_frame_def dest: type_try_from_error_final
          simp del: need_more_data.simps)
  next
    case (Inr t)
    then have "buf ! 3 = message_type_u8 t" by (simp add: message_type_try_from_Inr)
    with Inr h version_error_final payload_error_final show ?thesis
      by (auto simp: message_decode_header incomplete_frame_def and_then_Inl_iff
          split: if_splits simp del: need_more_data.simps)
        (auto)
  qed
qed

text \<open>What was decided on a buffer stays decided when more bytes arrive.\<close>

lemma message_decode_append_Inr:
  assumes "message_decode x b = Inr (m, n)"
  shows "message_decode x (b @ c) = Inr (m, n)"
proof -
  have "4 \<le> length b" and "n = 4 + payload_len_of b" and "n \<le> length b"
    using assms by (auto simp: message_decode_Inr_iff)
  with assms show ?thesis
    by (auto simp: message_decode_Inr_iff payload_len_of_append nth_append)
qed

lemma message_decode_append_Inl:
  assumes "message_decode x b = Inl e" and "\<not> need_more_data e"
  shows "message_decode x (b @ c) = Inl e"
proof -
  have inc: "\<not> incomplete_frame b" using assms need_more_data_iff [of x b] by auto
  then have h: "4 \<le> length b" by (simp add: incomplete_frame_def)
  then have nth: "(b @ c) ! 0 = b ! 0" "(b @ c) ! 3 = b ! 3" and "4 \<le> length (b @ c)"
    by (auto simp: nth_append)
  note header = message_decode_header [OF this(3)] message_decode_header [OF h]
    nth payload_len_of_append [OF h]
  show ?thesis
  proof (cases "b ! 0 = 1 \<and> (\<exists>t. message_type_try_from (b ! 3) = Inr t)")
    case True
    then obtain t where t: "message_type_try_from (b ! 3) = Inr t" by blast
    with True inc have "4 + payload_len_of b \<le> length b"
      by (auto simp: incomplete_frame_def message_type_try_from_Inr)
    with assms True t show ?thesis unfolding header by simp
  next
    case False
    then show ?thesis
      using assms(1) unfolding header
      by (cases "message_type_try_from (b ! 3)") (auto split: if_splits)
  qed
qed

end
