(* ===== verification/Proto3_Reference.thy ===== *)
theory Proto3_Reference
  imports Wire
begin

text \<open>
  A reference encoder and decoder of the proto3 wire format for the schema
  \<open>src/proto/metalbond.proto\<close>. The code uses the encoder \<open>prost\<close> generates, which is not
  part of the repository: the model takes it as a parameter. This theory is the concrete
  instance that shows the interface \<open>externals_ok\<close> can be met by a real protobuf codec,
  round trips and sizes included, and on which the other theories evaluate their examples.

  A message is a list of fields, each a tag (field number and wire type) and a varint or a
  length-delimited byte string; default values are left out, the last occurrence of a
  field wins, unknown fields are ignored.
\<close>

section \<open>Varints\<close>

fun varint :: "nat \<Rightarrow> u8 list" where
  "varint n = (if n < 128 then [word_of_nat n] else word_of_nat (n mod 128 + 128) # varint (n div 128))"

declare varint.simps [simp del]

fun get_varint :: "u8 list \<Rightarrow> (nat \<times> u8 list) option" where
  "get_varint [] = None"
| "get_varint (b # bs) =
     (if unat b < 128 then Some (unat b, bs)
      else case get_varint bs of None \<Rightarrow> None | Some (n, r) \<Rightarrow> Some (unat b - 128 + 128 * n, r))"

lemma varint_not_Nil [simp]: "varint n \<noteq> []"
  by (simp add: varint.simps [of n])

lemma unat_u8_small: "m < 256 \<Longrightarrow> unat (word_of_nat m :: u8) = m"
  by (simp add: unat_of_nat)

lemma get_varint_varint [simp]: "get_varint (varint n @ r) = Some (n, r)"
proof (induction n rule: varint.induct)
  case (1 n)
  show ?case
  proof (cases "n < 128")
    case True
    then show ?thesis by (simp add: varint.simps [of n] unat_of_nat)
  next
    case False
    have "n mod 128 + 128 < 256" using mod_less_divisor [of 128 n] by linarith
    then have "unat (word_of_nat (n mod 128 + 128) :: u8) = n mod 128 + 128" by (rule unat_u8_small)
    with False 1 show ?thesis by (simp add: varint.simps [of n] del: of_nat_add)
  qed
qed

lemma get_varint_length: "get_varint bs = Some (n, r) \<Longrightarrow> length r < length bs"
  by (induction bs arbitrary: n r) (fastforce split: if_splits option.splits)+

lemma varint_length: "n < 128 ^ k \<Longrightarrow> 0 < k \<Longrightarrow> length (varint n) \<le> k"
proof (induction k arbitrary: n)
  case 0
  then show ?case by simp
next
  case (Suc k)
  show ?case
  proof (cases "n < 128")
    case True
    then show ?thesis by (simp add: varint.simps [of n])
  next
    case False
    with Suc.prems have "n div 128 < 128 ^ k" and "0 < k"
      by (auto simp: less_mult_imp_div_less mult.commute intro: gr0I)
    with Suc.IH False show ?thesis by (simp add: varint.simps [of n])
  qed
qed

section \<open>Fields\<close>

datatype field = VarintField nat nat | BytesField nat "u8 list"

fun enc_field :: "field \<Rightarrow> u8 list" where
  "enc_field (VarintField k v) = varint (8 * k) @ varint v"
| "enc_field (BytesField k bs) = varint (8 * k + 2) @ varint (length bs) @ bs"

definition enc_fields :: "field list \<Rightarrow> u8 list" where
  "enc_fields fs = concat (map enc_field fs)"

function dec_fields :: "u8 list \<Rightarrow> field list option" where
  "dec_fields bs =
     (if bs = [] then Some []
      else case get_varint bs of None \<Rightarrow> None
        | Some (tag, r) \<Rightarrow>
            (case get_varint r of None \<Rightarrow> None
             | Some (n, r') \<Rightarrow>
                 if tag mod 8 = 0 then map_option (Cons (VarintField (tag div 8) n)) (dec_fields r')
                 else if tag mod 8 = 2 \<and> n \<le> length r' then
                   map_option (Cons (BytesField (tag div 8) (take n r'))) (dec_fields (drop n r'))
                 else None))"
  by pat_completeness auto
termination
proof (relation "measure length")
  fix bs p tag r p' n r'
  assume "get_varint bs = Some p" "(tag, r) = p" "get_varint r = Some p'" "(n, r') = p'"
  then have "length r' < length bs" by (metis get_varint_length less_trans)
  then show "(r', bs) \<in> measure length" and "(drop n r', bs) \<in> measure length" by auto
qed simp

declare dec_fields.simps [simp del]

lemma dec_fields_Nil [simp]: "dec_fields [] = Some []"
  by (simp add: dec_fields.simps)

lemma bytes_tag: "Suc (Suc (8 * k)) mod 8 = 2" "Suc (Suc (8 * k)) div 8 = k"
  by presburger+

lemma dec_fields_field: "dec_fields (enc_field f @ bs) = map_option (Cons f) (dec_fields bs)"
proof (cases f)
  case (VarintField k v)
  show ?thesis unfolding VarintField by (subst dec_fields.simps) simp
next
  case (BytesField k b)
  show ?thesis unfolding BytesField by (subst dec_fields.simps) (simp add: bytes_tag)
qed

lemma dec_fields_enc_fields [simp]: "dec_fields (enc_fields fs) = Some fs"
  by (induction fs) (simp_all add: enc_fields_def dec_fields_field)

section \<open>Scalars, byte strings and submessages\<close>

definition scalar :: "nat \<Rightarrow> nat \<Rightarrow> field list" where
  "scalar k v = (if v = 0 then [] else [VarintField k v])"

definition bytes :: "nat \<Rightarrow> u8 list \<Rightarrow> field list" where
  "bytes k bs = (if bs = [] then [] else [BytesField k bs])"

definition submessage :: "nat \<Rightarrow> u8 list option \<Rightarrow> field list" where
  "submessage k m = (case m of None \<Rightarrow> [] | Some bs \<Rightarrow> [BytesField k bs])"

fun pick_varint :: "nat \<Rightarrow> nat \<Rightarrow> field list \<Rightarrow> nat" where
  "pick_varint k acc [] = acc"
| "pick_varint k acc (VarintField j v # fs) = pick_varint k (if j = k then v else acc) fs"
| "pick_varint k acc (BytesField j bs # fs) = pick_varint k acc fs"

fun pick_bytes :: "nat \<Rightarrow> u8 list option \<Rightarrow> field list \<Rightarrow> u8 list option" where
  "pick_bytes k acc [] = acc"
| "pick_bytes k acc (VarintField j v # fs) = pick_bytes k acc fs"
| "pick_bytes k acc (BytesField j bs # fs) = pick_bytes k (if j = k then Some bs else acc) fs"

abbreviation get_scalar :: "nat \<Rightarrow> field list \<Rightarrow> nat" where
  "get_scalar k fs \<equiv> pick_varint k 0 fs"

abbreviation get_bytes :: "nat \<Rightarrow> field list \<Rightarrow> u8 list" where
  "get_bytes k fs \<equiv> (case pick_bytes k None fs of None \<Rightarrow> [] | Some bs \<Rightarrow> bs)"

lemma pick_varint_scalar [simp]:
  "pick_varint k acc (scalar j v @ fs) = pick_varint k (if j = k then if v = 0 then acc else v else acc) fs"
  "pick_varint k acc (bytes j bs @ fs) = pick_varint k acc fs"
  "pick_varint k acc (submessage j m @ fs) = pick_varint k acc fs"
  by (auto simp: scalar_def bytes_def submessage_def split: option.splits)

lemmas pick_varint_last [simp] = pick_varint_scalar [where fs = "[]", unfolded append_Nil2]

lemma pick_bytes_fields [simp]:
  "pick_bytes k acc (scalar j v @ fs) = pick_bytes k acc fs"
  "pick_bytes k acc (bytes j bs @ fs) = pick_bytes k (if j = k then if bs = [] then acc else Some bs else acc) fs"
  "pick_bytes k acc (submessage j m @ fs) = pick_bytes k (if j = k then if m = None then acc else m else acc) fs"
  by (auto simp: scalar_def bytes_def submessage_def split: option.splits)

lemmas pick_bytes_last [simp] = pick_bytes_fields [where fs = "[]", unfolded append_Nil2]

lemma default_omitted [simp]:
  "(if v = 0 then 0 else v) = (v :: nat)"
  "(case if bs = [] then None else Some bs of None \<Rightarrow> [] | Some b \<Rightarrow> b) = bs"
  "(if m = None then None else m) = m"
  by auto

text \<open>An \<open>int32\<close> is sign extended to 64 bits before it is written as a varint.\<close>

definition i32_varint :: "i32 \<Rightarrow> nat" where
  "i32_varint n = unat (scast n :: u64)"

lemma i32_varint_back [simp]: "word_of_nat (i32_varint n) = n"
proof -
  have "(word_of_nat (unat (scast n :: u64)) :: i32) = ucast (scast n :: u64)"
    by (simp add: unsigned_ucast_eq)
  also have "\<dots> = n"
  proof (rule bit_word_eqI)
    fix i assume "i < LENGTH(32)"
    then have "31 \<le> i \<longrightarrow> i = 31" by auto
    then show "bit (ucast (scast n :: u64) :: i32) i = bit n i"
      using \<open>i < LENGTH(32)\<close> by (cases "i = 31") (auto simp: bit_simps min_def)
  qed
  finally show ?thesis by (simp add: i32_varint_def)
qed

section \<open>The messages of the schema\<close>

definition ref_enc_hello :: "proto_hello \<Rightarrow> u8 list" where
  "ref_enc_hello h = enc_fields
     (scalar 1 (unat (ph_keepalive_interval h)) @ scalar 2 (of_bool (ph_is_server h)))"

definition ref_dec_hello :: "u8 list \<Rightarrow> proto_hello option" where
  "ref_dec_hello bs = map_option (\<lambda>fs.
     \<lparr>ph_keepalive_interval = word_of_nat (get_scalar 1 fs), ph_is_server = (get_scalar 2 fs \<noteq> 0)\<rparr>)
     (dec_fields bs)"

definition ref_enc_subscription :: "proto_subscription \<Rightarrow> u8 list" where
  "ref_enc_subscription s = enc_fields (scalar 1 (unat (ps_vni s)))"

definition ref_dec_subscription :: "u8 list \<Rightarrow> proto_subscription option" where
  "ref_dec_subscription bs = map_option (\<lambda>fs. \<lparr>ps_vni = word_of_nat (get_scalar 1 fs)\<rparr>) (dec_fields bs)"

definition ref_enc_destination :: "proto_destination \<Rightarrow> u8 list" where
  "ref_enc_destination d = enc_fields
     (scalar 1 (i32_varint (pd_ip_version d)) @ bytes 2 (pd_prefix d) @
      scalar 3 (unat (pd_prefix_length d)))"

definition ref_dec_destination :: "u8 list \<Rightarrow> proto_destination option" where
  "ref_dec_destination bs = map_option (\<lambda>fs.
     \<lparr>pd_ip_version = word_of_nat (get_scalar 1 fs), pd_prefix = get_bytes 2 fs,
      pd_prefix_length = word_of_nat (get_scalar 3 fs)\<rparr>) (dec_fields bs)"

definition ref_enc_next_hop :: "proto_next_hop \<Rightarrow> u8 list" where
  "ref_enc_next_hop n = enc_fields
     (bytes 1 (pn_target_address n) @ scalar 2 (unat (pn_target_vni n)) @
      scalar 3 (i32_varint (pn_type n)) @ scalar 4 (unat (pn_nat_port_range_from n)) @
      scalar 5 (unat (pn_nat_port_range_to n)))"

definition ref_dec_next_hop :: "u8 list \<Rightarrow> proto_next_hop option" where
  "ref_dec_next_hop bs = map_option (\<lambda>fs.
     \<lparr>pn_target_address = get_bytes 1 fs, pn_target_vni = word_of_nat (get_scalar 2 fs),
      pn_type = word_of_nat (get_scalar 3 fs), pn_nat_port_range_from = word_of_nat (get_scalar 4 fs),
      pn_nat_port_range_to = word_of_nat (get_scalar 5 fs)\<rparr>) (dec_fields bs)"

definition ref_enc_update :: "proto_update \<Rightarrow> u8 list" where
  "ref_enc_update u = enc_fields
     (scalar 1 (i32_varint (pu_action u)) @ scalar 2 (unat (pu_vni u)) @
      submessage 3 (map_option ref_enc_destination (pu_destination u)) @
      submessage 4 (map_option ref_enc_next_hop (pu_next_hop u)))"

fun sub_decode :: "(u8 list \<Rightarrow> 'a option) \<Rightarrow> u8 list option \<Rightarrow> 'a option option" where
  "sub_decode dec None = Some None"
| "sub_decode dec (Some bs) = map_option Some (dec bs)"

definition ref_dec_update :: "u8 list \<Rightarrow> proto_update option" where
  "ref_dec_update bs =
     (case dec_fields bs of None \<Rightarrow> None
      | Some fs \<Rightarrow>
          (case sub_decode ref_dec_destination (pick_bytes 3 None fs) of None \<Rightarrow> None
           | Some d \<Rightarrow>
               (case sub_decode ref_dec_next_hop (pick_bytes 4 None fs) of None \<Rightarrow> None
                | Some n \<Rightarrow>
                    Some \<lparr>pu_action = word_of_nat (get_scalar 1 fs), pu_vni = word_of_nat (get_scalar 2 fs),
                      pu_destination = d, pu_next_hop = n\<rparr>)))"

lemma ref_hello_codec: "ref_dec_hello (ref_enc_hello h) = Some h"
  by (simp add: ref_dec_hello_def ref_enc_hello_def)

lemma ref_subscription_codec: "ref_dec_subscription (ref_enc_subscription s) = Some s"
  by (simp add: ref_dec_subscription_def ref_enc_subscription_def)

lemma i32_varint_0 [simp]: "i32_varint n = 0 \<longleftrightarrow> n = 0"
  by (metis i32_varint_back i32_varint_def of_nat_0 scast_0 unsigned_0)

lemma ref_destination_codec: "ref_dec_destination (ref_enc_destination d) = Some d"
  by (simp add: ref_dec_destination_def ref_enc_destination_def)

lemma ref_next_hop_codec: "ref_dec_next_hop (ref_enc_next_hop n) = Some n"
  by (simp add: ref_dec_next_hop_def ref_enc_next_hop_def)

lemma ref_update_codec: "ref_dec_update (ref_enc_update u) = Some u"
  by (cases "pu_destination u"; cases "pu_next_hop u")
     (simp_all add: ref_dec_update_def ref_enc_update_def ref_destination_codec ref_next_hop_codec)

section \<open>Sizes\<close>

lemma length_enc_fields: "length (enc_fields fs) = sum_list (map (\<lambda>f. length (enc_field f)) fs)"
  by (simp add: enc_fields_def length_concat comp_def)

lemma enc_fields_append [simp]: "enc_fields (xs @ ys) = enc_fields xs @ enc_fields ys"
  by (simp add: enc_fields_def)

lemma tag_size: "k < 16 \<Longrightarrow> length (varint (8 * k)) = 1" "k < 15 \<Longrightarrow> length (varint (8 * k + 2)) = 1"
  by (simp_all add: varint.simps)

lemma scalar_size:
  assumes "k < 16" and "v < 128 ^ n" and "0 < n"
  shows "length (enc_fields (scalar k v)) \<le> 1 + n"
  using assms varint_length [of v n] by (simp add: scalar_def enc_fields_def tag_size)

lemma short_varint: "n < 128 \<Longrightarrow> length (varint n) = 1"
  by (simp add: varint.simps [of n])

lemma bytes_size:
  assumes "k < 15" and "length bs < 128"
  shows "length (enc_fields (bytes k bs)) \<le> 2 + length bs"
  using assms by (simp add: bytes_def enc_fields_def tag_size short_varint del: One_nat_def)

lemma submessage_size:
  assumes "k < 15" and "length bs \<le> n" and "n < 128"
  shows "length (enc_fields (submessage k (Some bs))) \<le> 2 + n"
  using assms by (simp add: submessage_def enc_fields_def tag_size short_varint del: One_nat_def)

lemma u32_scalar_size: "k < 16 \<Longrightarrow> length (enc_fields (scalar k (unat (w :: u32)))) \<le> 6"
  using scalar_size [of k "unat w" 5] unsigned_less [of w, where ?'a = nat] by simp

lemma i32_scalar_size: "k < 16 \<Longrightarrow> length (enc_fields (scalar k (i32_varint w))) \<le> 11"
  using scalar_size [of k "i32_varint w" 10] unsigned_less [of "scast w :: u64", where ?'a = nat]
  by (simp add: i32_varint_def)

lemma ref_hello_size: "length (ref_enc_hello h) \<le> 8"
  using u32_scalar_size [of 1 "ph_keepalive_interval h"] scalar_size [of 2 "of_bool (ph_is_server h)" 1]
  by (cases "ph_is_server h") (simp_all add: ref_enc_hello_def)

lemma ref_subscription_size: "length (ref_enc_subscription s) \<le> 6"
  using u32_scalar_size [of 1 "ps_vni s"] by (simp add: ref_enc_subscription_def)

lemma ref_destination_size: "length (pd_prefix d) \<le> 16 \<Longrightarrow> length (ref_enc_destination d) \<le> 35"
  using i32_scalar_size [of 1 "pd_ip_version d"] bytes_size [of 2 "pd_prefix d"]
    u32_scalar_size [of 3 "pd_prefix_length d"]
  by (simp add: ref_enc_destination_def)

lemma ref_next_hop_size: "length (pn_target_address n) \<le> 16 \<Longrightarrow> length (ref_enc_next_hop n) \<le> 47"
  using bytes_size [of 1 "pn_target_address n"] u32_scalar_size [of 2 "pn_target_vni n"]
    i32_scalar_size [of 3 "pn_type n"] u32_scalar_size [of 4 "pn_nat_port_range_from n"]
    u32_scalar_size [of 5 "pn_nat_port_range_to n"]
  by (simp add: ref_enc_next_hop_def)

lemma ref_update_size:
  assumes "length (pd_prefix d) \<le> 16" and "length (pn_target_address n) \<le> 16"
  shows "length (ref_enc_update
    \<lparr>pu_action = a, pu_vni = v, pu_destination = Some d, pu_next_hop = Some n\<rparr>) \<le> 103"
  using i32_scalar_size [of 1 a] u32_scalar_size [of 2 v]
    submessage_size [of 3 "ref_enc_destination d" 35] submessage_size [of 4 "ref_enc_next_hop n" 47]
    ref_destination_size [OF assms(1)] ref_next_hop_size [OF assms(2)]
  by (simp add: ref_enc_update_def)

section \<open>The interface is met\<close>

definition reference_externals :: externals where
  "reference_externals =
     \<lparr>enc_hello = ref_enc_hello, dec_hello = ref_dec_hello,
      enc_subscription = ref_enc_subscription, dec_subscription = ref_dec_subscription,
      enc_update = ref_enc_update, dec_update = ref_dec_update,
      ext_net_new = documented_net_new\<rparr>"

interpretation reference: externals_ok reference_externals
  by unfold_locales
     (simp_all add: reference_externals_def ref_hello_codec ref_subscription_codec ref_update_codec
        ref_hello_size ref_subscription_size ref_update_size)

end
