(* ===== verification/Framing.thy ===== *)
theory Framing
  imports Wire
begin

text \<open>
  Cutting a byte stream into messages. Both read loops of the code (\<open>src/src/peer.rs\<close> and
  \<open>src/src/server.rs\<close>) append what a read returned to a buffer and decode messages off its
  front until the buffer is empty, incomplete or bad. \<open>frames\<close> is the specification of that
  loop on its own: the messages found, what is left, and the error that ended it. The
  interface \<open>frame_decoder\<close> says what a decoder must promise for the result not to depend
  on how the network cut the stream into reads; \<open>Message::decode\<close> provides it.
\<close>

function frames ::
    "(u8 list \<Rightarrow> 'e + ('m \<times> nat)) \<Rightarrow> ('e \<Rightarrow> bool) \<Rightarrow> u8 list \<Rightarrow> 'm list \<times> u8 list \<times> 'e option" where
  "frames dec again buf =
     (if buf = [] then ([], [], None)
      else case dec buf of
        Inl e \<Rightarrow> ([], buf, if again e then None else Some e)
      | Inr (m, n) \<Rightarrow>
          if n = 0 then ([], buf, None)
          else case frames dec again (drop n buf) of (ms, rest, e) \<Rightarrow> (m # ms, rest, e))"
  by pat_completeness auto
termination
  by (relation "measure (\<lambda>(dec, again, buf). length buf)") auto

declare frames.simps [simp del]

text \<open>A sequence of reads: each chunk is appended to what the last one left over.\<close>

fun frame_chunks ::
    "(u8 list \<Rightarrow> 'e + ('m \<times> nat)) \<Rightarrow> ('e \<Rightarrow> bool) \<Rightarrow> u8 list \<Rightarrow> u8 list list \<Rightarrow>
     'm list \<times> u8 list \<times> 'e option" where
  "frame_chunks dec again buf [] = ([], buf, None)"
| "frame_chunks dec again buf (c # cs) =
     (case frames dec again (buf @ c) of
        (ms, rest, Some e) \<Rightarrow> (ms, rest, Some e)
      | (ms, rest, None) \<Rightarrow>
          (case frame_chunks dec again rest cs of (ms', rest', e) \<Rightarrow> (ms @ ms', rest', e)))"

locale frame_decoder =
  fixes dec :: "u8 list \<Rightarrow> 'e + ('m \<times> nat)"
    and again :: "'e \<Rightarrow> bool"
  assumes dec_consumed: "dec b = Inr (m, n) \<Longrightarrow> 0 < n \<and> n \<le> length b"
    and dec_append: "dec b = Inr (m, n) \<Longrightarrow> dec (b @ c) = Inr (m, n)"
    and dec_error_append: "dec b = Inl e \<Longrightarrow> \<not> again e \<Longrightarrow> dec (b @ c) = Inl e"
begin

lemma frames_Nil [simp]: "frames dec again [] = ([], [], None)"
  by (simp add: frames.simps)

lemma frames_msg:
  "dec b = Inr (m, n) \<Longrightarrow>
     frames dec again b = (case frames dec again (drop n b) of (ms, rest, e) \<Rightarrow> (m # ms, rest, e))"
  using dec_consumed [of b m n] by (subst frames.simps) auto

lemma frames_stop:
  "b \<noteq> [] \<Longrightarrow> dec b = Inl e \<Longrightarrow> frames dec again b = ([], b, if again e then None else Some e)"
  by (subst frames.simps) simp

text \<open>What is left over is not a whole message: scanning it again finds nothing.\<close>

lemma frames_rest: "frames dec again b = (ms, rest, None) \<Longrightarrow> frames dec again rest = ([], rest, None)"
proof (induction "length b" arbitrary: b ms rest rule: less_induct)
  case less
  show ?case
  proof (cases "b = []")
    case True
    with less.prems show ?thesis by simp
  next
    case False
    show ?thesis
    proof (cases "dec b")
      case (Inl e)
      with False less.prems show ?thesis by (auto simp: frames_stop)
    next
      case (Inr mn)
      then obtain m n where mn: "dec b = Inr (m, n)" by (cases mn) auto
      then have "0 < n" and "n \<le> length b" using dec_consumed by auto
      then have shorter: "length (drop n b) < length b" by simp
      from less.prems mn obtain ms' where "frames dec again (drop n b) = (ms', rest, None)"
        by (auto simp: frames_msg split: prod.splits)
      then show ?thesis by (rule less.hyps [OF shorter])
    qed
  qed
qed

text \<open>
  Scanning a buffer and later the rest of it with more bytes behind gives what scanning
  all the bytes at once gives; an error stops both alike.
\<close>

lemma frames_append:
  "frames dec again b = (ms, rest, None) \<Longrightarrow>
     frames dec again (b @ c) = (case frames dec again (rest @ c) of (ms', rest', e) \<Rightarrow> (ms @ ms', rest', e))"
proof (induction "length b" arbitrary: b ms rest rule: less_induct)
  case less
  show ?case
  proof (cases "b = []")
    case True
    with less.prems show ?thesis by simp
  next
    case False
    show ?thesis
    proof (cases "dec b")
      case (Inl e)
      with False less.prems show ?thesis by (auto simp: frames_stop)
    next
      case (Inr mn)
      then obtain m n where mn: "dec b = Inr (m, n)" by (cases mn) auto
      then have n: "0 < n" "n \<le> length b" using dec_consumed by auto
      then have shorter: "length (drop n b) < length b" by simp
      from less.prems mn obtain ms' where ms': "frames dec again (drop n b) = (ms', rest, None)" "ms = m # ms'"
        by (auto simp: frames_msg split: prod.splits)
      have "frames dec again (b @ c) =
          (case frames dec again (drop n (b @ c)) of (ms, rest, e) \<Rightarrow> (m # ms, rest, e))"
        by (rule frames_msg) (rule dec_append [OF mn])
      also have "drop n (b @ c) = drop n b @ c" using n by simp
      finally show ?thesis
        using less.hyps [OF shorter ms'(1)] ms'(2) by (simp add: case_prod_unfold)
    qed
  qed
qed

lemma frames_append_error:
  "frames dec again b = (ms, rest, Some e) \<Longrightarrow> frames dec again (b @ c) = (ms, rest @ c, Some e)"
proof (induction "length b" arbitrary: b ms rest rule: less_induct)
  case less
  then have "b \<noteq> []" by auto
  show ?case
  proof (cases "dec b")
    case (Inl e')
    with \<open>b \<noteq> []\<close> less.prems show ?thesis
      using dec_error_append [OF Inl, of c]
      by (auto simp: frames_stop split: if_splits)
  next
    case (Inr mn)
    then obtain m n where mn: "dec b = Inr (m, n)" by (cases mn) auto
    then have n: "0 < n" "n \<le> length b" using dec_consumed by auto
    then have shorter: "length (drop n b) < length b" by simp
    from less.prems mn obtain ms' where ms': "frames dec again (drop n b) = (ms', rest, Some e)" "ms = m # ms'"
      by (auto simp: frames_msg split: prod.splits)
    have "frames dec again (b @ c) =
        (case frames dec again (drop n (b @ c)) of (ms, rest, e) \<Rightarrow> (m # ms, rest, e))"
      by (rule frames_msg) (rule dec_append [OF mn])
    also have "drop n (b @ c) = drop n b @ c" using n by simp
    finally show ?thesis
      using less.hyps [OF shorter ms'(1)] ms'(2) by simp
  qed
qed

text \<open>
  The messages found, and the error, depend on the bytes alone and not on the reads; as
  long as no error ends the scan, neither does what is left over.
\<close>

lemma frame_chunks_concat:
  assumes "frames dec again buf = ([], buf, None)"
  shows "case frame_chunks dec again buf cs of (ms, rest, e) \<Rightarrow>
    (case frames dec again (buf @ concat cs) of (ms', rest', e') \<Rightarrow>
       ms = ms' \<and> e = e' \<and> (e = None \<longrightarrow> rest = rest'))"
  using assms
proof (induction cs arbitrary: buf)
  case Nil
  then show ?case by simp
next
  case (Cons c cs)
  obtain ms rest e where f: "frames dec again (buf @ c) = (ms, rest, e)" by (cases "frames dec again (buf @ c)")
  show ?case
  proof (cases e)
    case None
    then have "frames dec again rest = ([], rest, None)" using f frames_rest by simp
    from Cons.IH [OF this] show ?thesis
      using frames_append [of "buf @ c" ms rest "concat cs"] f None
      by (auto split: prod.splits)
  next
    case (Some err)
    with f frames_append_error [of "buf @ c" ms rest err "concat cs"] show ?thesis by simp
  qed
qed

text \<open>A stream of well-formed frames is cut into exactly its messages.\<close>

lemma frames_of_encodings:
  assumes "\<And>m rest. m \<in> set ms \<Longrightarrow> dec (enc m @ rest) = Inr (canon m, length (enc m))"
  shows "frames dec again (concat (map enc ms)) = (map canon ms, [], None)"
  using assms
proof (induction ms)
  case Nil
  then show ?case by simp
next
  case (Cons m ms)
  have "dec (enc m @ concat (map enc ms)) = Inr (canon m, length (enc m))" by (rule Cons.prems) simp
  from frames_msg [OF this] Cons show ?case by simp
qed

end

interpretation wire_frames: frame_decoder "message_decode x" need_more_data for x
proof unfold_locales
  fix b m n c e
  show "message_decode x b = Inr (m, n) \<Longrightarrow> 0 < n \<and> n \<le> length b"
    using message_decode_consumed [of x b m n] by auto
  show "message_decode x b = Inr (m, n) \<Longrightarrow> message_decode x (b @ c) = Inr (m, n)"
    by (rule message_decode_append_Inr)
  show "message_decode x b = Inl e \<Longrightarrow> \<not> need_more_data e \<Longrightarrow> message_decode x (b @ c) = Inl e"
    by (rule message_decode_append_Inl)
qed

end
