(* ===== verification/Wire_Properties.thy ===== *)
theory Wire_Properties
  imports Proto3_Reference Framing
begin

text \<open>
  The properties of the wire format and of the framing of a byte stream. The hypothesis
  \<open>externals_ok\<close> is what the crates document; the examples use the reference codec.
\<close>

abbreviation add1 :: message where "add1 \<equiv> MsgUpdate Add vni100 net24 hop1"

lemma add1_valid: "message_valid add1" "message_canon add1 = add1"
  by (simp_all add: next_hop_canon_def next_hop_standard_def)

text \<open>C9: every message encodes, into at most 107 bytes that start with the protocol version, the
  length of what follows the header and the message type; decoding those bytes, whatever
  follows them, gives the message back and consumes exactly them. A target VNI that is
  present and 0 comes back absent.\<close>

theorem wire_roundtrip:
  assumes "externals_ok x" and "message_valid m"
  shows "\<exists>b. message_encode x m = Inr b \<and> 4 \<le> length b \<and> length b \<le> 107 \<and>
    b ! 0 = PROTOCOL_VERSION \<and> payload_len_of b = length b - 4 \<and>
    b ! 3 = message_type_u8 (message_type_of m) \<and>
    (\<forall>rest. message_decode x (b @ rest) = Inr (message_canon m, length b))"
proof -
  obtain p where "length p \<le> 103" and b: "message_encode x m =
      Inr ([1, word_of_nat (drop_bit 8 (length p)), word_of_nat (length p AND 0xFF),
             message_type_u8 (message_type_of m)] @ p)"
    using externals_ok.message_encode_total [OF assms(1), of m] by blast
  moreover from this have "payload_len_of ([1, word_of_nat (drop_bit 8 (length p)),
      word_of_nat (length p AND 0xFF), message_type_u8 (message_type_of m)] @ p) = length p"
    by (simp add: payload_len_of_encode)
  ultimately show ?thesis
    using externals_ok.message_roundtrip [OF assms b]
    by (intro exI [of _ "[1, word_of_nat (drop_bit 8 (length p)), word_of_nat (length p AND 0xFF),
             message_type_u8 (message_type_of m)] @ p"])
      (simp add: PROTOCOL_VERSION_def)
qed

theorem wire_roundtrip_witness:
  "\<exists>b. message_encode reference_externals add1 = Inr b \<and>
     message_decode reference_externals (b @ [7]) = Inr (add1, length b)"
  using wire_roundtrip [OF reference.externals_ok_axioms add1_valid(1)] add1_valid(2) by auto

text \<open>C20: the read loops ask for more data, which they recognise by the text of the error, exactly
  when the buffer is the beginning of a frame: less than a header, or a header of this
  version with a known type whose payload is not complete.\<close>

theorem need_more_data_exact:
  "(case message_decode x buf of Inl e \<Rightarrow> need_more_data e | Inr _ \<Rightarrow> False) \<longleftrightarrow> incomplete_frame buf"
  using need_more_data_iff [of x buf] by (auto split: sum.splits)

text \<open>A decision on a buffer is final: more bytes after it change neither a decoded message
  nor an error other than the request for more data.\<close>

theorem decode_final:
  assumes "\<not> incomplete_frame buf"
  shows "message_decode x (buf @ more_bytes) = message_decode x buf"
proof (cases "message_decode x buf")
  case (Inl e)
  with assms need_more_data_iff [of x buf] have "\<not> need_more_data e" by auto
  with Inl show ?thesis using message_decode_append_Inl by metis
next
  case (Inr mn)
  then obtain m n where mn: "message_decode x buf = Inr (m, n)" by (cases mn) auto
  then show ?thesis using message_decode_append_Inr [OF mn, of more_bytes] by simp
qed

theorem decode_final_witness:
  "message_decode reference_externals ([1, 0, 0, 2] @ [1, 0]) = message_decode reference_externals [1, 0, 0, 2]"
  by (rule decode_final) (simp add: incomplete_frame_def payload_len_of_def)

text \<open>The size limit of a payload is not checked on decoding: a KEEPALIVE that announces any
  payload at all, up to 65535 bytes and of any content, is decoded and its payload dropped.\<close>

theorem decode_ignores_size_limit:
  assumes "length p < 65536"
  shows "message_decode x ([PROTOCOL_VERSION, word_of_nat (drop_bit 8 (length p)),
      word_of_nat (length p AND 0xFF), message_type_u8 TypeKeepalive] @ p) =
    Inr (MsgKeepalive, HEADER_SIZE + length p)"
  using payload_len_of_encode [OF assms, of 1 "message_type_u8 TypeKeepalive # p"]
    message_type_try_from_u8 [of TypeKeepalive]
  by (subst message_decode_header) (simp_all add: PROTOCOL_VERSION_def HEADER_SIZE_def del: message_type_try_from_u8)

theorem decode_ignores_size_limit_witness:
  "MAX_PAYLOAD_SIZE < length (replicate 2000 (7::u8)) \<and>
   message_decode reference_externals ([PROTOCOL_VERSION, word_of_nat (drop_bit 8 (length (replicate 2000 (7::u8)))),
      word_of_nat (length (replicate 2000 (7::u8)) AND 0xFF), message_type_u8 TypeKeepalive] @ replicate 2000 7) =
    Inr (MsgKeepalive, HEADER_SIZE + length (replicate 2000 (7::u8)))"
  using decode_ignores_size_limit [of "replicate 2000 7" reference_externals] by (simp add: MAX_PAYLOAD_SIZE_def)

text \<open>C19: the messages cut from a stream, and the error that stops the cutting, depend on the
  bytes alone and not on how the network split them into reads; without an error neither
  do the bytes left over.\<close>

theorem framing_read_independent:
  assumes "concat cs = concat cs'"
  shows "case frame_chunks (message_decode x) need_more_data [] cs of (ms, rest, e) \<Rightarrow>
    case frame_chunks (message_decode x) need_more_data [] cs' of (ms', rest', e') \<Rightarrow>
      ms = ms' \<and> e = e' \<and> (e = None \<longrightarrow> rest = rest')"
  using wire_frames.frame_chunks_concat [OF wire_frames.frames_Nil, of x cs]
    wire_frames.frame_chunks_concat [OF wire_frames.frames_Nil, of x cs'] assms
  by (auto split: prod.splits)

theorem framing_read_independent_witness:
  "case frame_chunks (message_decode reference_externals) need_more_data [] [[1, 0, 0], [2, 1]] of (ms, rest, e) \<Rightarrow>
    case frame_chunks (message_decode reference_externals) need_more_data [] [[1], [0, 0, 2, 1]] of (ms', rest', e') \<Rightarrow>
      ms = ms' \<and> e = e' \<and> (e = None \<longrightarrow> rest = rest')"
  by (rule framing_read_independent) simp

text \<open>C10: a stream that carries the encodings of messages, however it is cut into reads, is
  cut back into exactly those messages, in order, with nothing left over.\<close>

theorem framing_reassembles:
  assumes "externals_ok x" and "\<And>m. m \<in> set ms \<Longrightarrow> message_valid m"
    and "concat cs = concat (map (\<lambda>m. case message_encode x m of Inr b \<Rightarrow> b | Inl _ \<Rightarrow> []) ms)"
  shows "frame_chunks (message_decode x) need_more_data [] cs = (map message_canon ms, [], None)"
proof -
  let ?enc = "\<lambda>m. case message_encode x m of Inr b \<Rightarrow> b | Inl _ \<Rightarrow> []"
  have "message_decode x (?enc m @ rest) = Inr (message_canon m, length (?enc m))" if "m \<in> set ms" for m rest
  proof -
    obtain b where b: "message_encode x m = Inr b"
      using externals_ok.message_encode_total [OF assms(1), of m] by blast
    then show ?thesis
      using externals_ok.message_roundtrip [OF assms(1) assms(2) [OF that] b] by simp
  qed
  from wire_frames.frames_of_encodings [where enc = ?enc, OF this]
  have "frames (message_decode x) need_more_data (concat cs) = (map message_canon ms, [], None)"
    by (simp add: assms(3))
  then show ?thesis
    using wire_frames.frame_chunks_concat [OF wire_frames.frames_Nil, of x cs]
    by (auto split: prod.splits)
qed

theorem framing_reassembles_witness:
  "frame_chunks (message_decode reference_externals) need_more_data [] [[1, 0], [0, 2, 1, 0], [0, 2]] =
     ([MsgKeepalive, MsgKeepalive], [], None)"
  using framing_reassembles [OF reference.externals_ok_axioms, of "[MsgKeepalive, MsgKeepalive]"
      "[[1, 0], [0, 2, 1, 0], [0, 2]]"]
  by (simp add: message_encode_def PROTOCOL_VERSION_def)

end
