(* ===== verification/Transport.thy ===== *)
theory Transport
  imports Framing
begin

text \<open>
  What the peer task (\<open>src/src/peer.rs\<close>) and the server's connection handler
  (\<open>src/src/server.rs\<close>) share: writing messages to a TCP stream, the single reads of the
  handshake, and the arithmetic of the keepalive.

  A stream remembers the bytes written to it and how many more writes will succeed; a
  theorem about every such number covers a connection that breaks at any write. What a read
  returns is an input of the model: an error, or at most as many bytes as the buffer holds,
  none at the end of the stream.
\<close>

record tcp_stream =
  ts_written :: "u8 list"
  ts_budget :: nat

definition write_all :: "u8 list \<Rightarrow> tcp_stream \<Rightarrow> (error + unit) \<times> tcp_stream" where
  "write_all data st =
     (if ts_budget st = 0 then (Inl EConnection, st)
      else (Inr (), st\<lparr>ts_written := ts_written st @ data, ts_budget := ts_budget st - 1\<rparr>))"

definition send_message :: "externals \<Rightarrow> message \<Rightarrow> tcp_stream \<Rightarrow> (error + unit) \<times> tcp_stream" where
  "send_message x msg st =
     (case message_encode x msg of
        Inl e \<Rightarrow> (Inl e, st)
      | Inr data \<Rightarrow> write_all data st)"

text \<open>A loop of sends, each ending the loop when it fails.\<close>

fun send_all :: "externals \<Rightarrow> message list \<Rightarrow> tcp_stream \<Rightarrow> (error + unit) \<times> tcp_stream" where
  "send_all x [] st = (Inr (), st)"
| "send_all x (m # ms) st =
     (case send_message x m st of
        (Inl e, st') \<Rightarrow> (Inl e, st')
      | (Inr _, st') \<Rightarrow> send_all x ms st')"

text \<open>\<open>receive_hello\<close>: one read; \<open>None\<close> at the end of the stream, and whether the other side is a server.\<close>

definition receive_hello :: "externals \<Rightarrow> error + u8 list \<Rightarrow> error + (u32 \<times> bool) option" where
  "receive_hello x read =
     and_then read (\<lambda>buf.
       if buf = [] then Inr None
       else and_then (message_decode x buf) (\<lambda>(msg, _).
         case msg of
           MsgHello keepalive_interval is_server \<Rightarrow> Inr (Some (keepalive_interval, is_server))
         | _ \<Rightarrow> Inl (EProtocol ''expected HELLO message'')))"

text \<open>\<open>receive_message_with_timeout\<close>: \<open>None\<close> when the time is up before the read returns.\<close>

definition receive_message_with_timeout :: "externals \<Rightarrow> (error + u8 list) option \<Rightarrow> error + message" where
  "receive_message_with_timeout x read =
     and_then (case read of None \<Rightarrow> Inl ETimeout | Some r \<Rightarrow> r) (\<lambda>buf.
       if buf = [] then Inl EClosed
       else and_then (message_decode x buf) (\<lambda>(msg, _). Inr msg))"

section \<open>Keepalive\<close>

definition DEFAULT_KEEPALIVE_INTERVAL :: u32 where "DEFAULT_KEEPALIVE_INTERVAL = 5"

definition negotiated_keepalive :: "u32 \<Rightarrow> u32 \<Rightarrow> u32" where
  "negotiated_keepalive own other = min own other"

text \<open>Durations in milliseconds.\<close>

definition keepalive_duration :: "u32 \<Rightarrow> nat" where
  "keepalive_duration negotiated = unat negotiated * 1000"

definition keepalive_timeout :: "u32 \<Rightarrow> nat" where
  "keepalive_timeout negotiated = keepalive_duration negotiated * 5 div 2"

lemma keepalive_timeout_ms: "keepalive_timeout n = unat n * 2500"
  by (simp add: keepalive_timeout_def keepalive_duration_def)

section \<open>What is on the wire\<close>

text \<open>The bytes of a list of messages, and what a stream's bytes say.\<close>

definition wire_bytes :: "externals \<Rightarrow> message list \<Rightarrow> u8 list" where
  "wire_bytes x ms = concat (map (\<lambda>m. case message_encode x m of Inr b \<Rightarrow> b | Inl _ \<Rightarrow> []) ms)"

lemma wire_bytes_simps [simp]:
  "wire_bytes x [] = []"
  "wire_bytes x (m # ms) = (case message_encode x m of Inr b \<Rightarrow> b | Inl _ \<Rightarrow> []) @ wire_bytes x ms"
  "wire_bytes x (ms @ ms') = wire_bytes x ms @ wire_bytes x ms'"
  by (simp_all add: wire_bytes_def)

context externals_ok
begin

lemma send_message_ok:
  "send_message x m st =
     (if ts_budget st = 0 then (Inl EConnection, st)
      else (Inr (), st\<lparr>ts_written := ts_written st @ wire_bytes x [m], ts_budget := ts_budget st - 1\<rparr>))"
  using message_encode_total [of m] by (auto simp: send_message_def write_all_def)

text \<open>A loop of sends that returns has written the messages, and one that fails a part of them.\<close>

lemma send_all_ok:
  "send_all x ms st =
     (if ts_budget st < length ms
      then (Inl EConnection, st\<lparr>ts_written := ts_written st @ wire_bytes x (take (ts_budget st) ms), ts_budget := 0\<rparr>)
      else (Inr (), st\<lparr>ts_written := ts_written st @ wire_bytes x ms, ts_budget := ts_budget st - length ms\<rparr>))"
proof (induction ms arbitrary: st)
  case Nil
  then show ?case by simp
next
  case (Cons m ms)
  then show ?case by (cases "ts_budget st") (simp_all add: send_message_ok)
qed

lemma frames_wire_bytes:
  "\<forall>m \<in> set ms. message_valid m \<Longrightarrow>
     frames (message_decode x) need_more_data (wire_bytes x ms) = (map message_canon ms, [], None)"
proof -
  assume valid: "\<forall>m \<in> set ms. message_valid m"
  let ?enc = "\<lambda>m. case message_encode x m of Inr b \<Rightarrow> b | Inl _ \<Rightarrow> []"
  have "message_decode x (?enc m @ rest) = Inr (message_canon m, length (?enc m))" if "m \<in> set ms" for m rest
  proof -
    obtain b where b: "message_encode x m = Inr b" using message_encode_total [of m] by blast
    then show ?thesis using message_roundtrip [OF _ b] valid that by simp
  qed
  from wire_frames.frames_of_encodings [where enc = ?enc, OF this] show ?thesis
    by (simp add: wire_bytes_def)
qed

end

end
