(* ===== verification/Route_Handler.thy ===== *)
theory Route_Handler
  imports Route_Table
begin

text \<open>
  The trait \<open>RouteHandler\<close> (\<open>src/src/lib.rs\<close>): the two callbacks through which a client
  learns of routes. A handler acts on a world of any type, so the code that calls it is
  modelled for every handler. The interface \<open>route_sink\<close> is the contract of a handler that
  keeps a set of routes up to date: the recording handler provides it, and so does the
  deduplicating handler of the client, seen from one server.
\<close>

record 'w route_handler =
  rh_add_route :: "vni \<Rightarrow> route \<Rightarrow> 'w \<Rightarrow> 'w"
  rh_remove_route :: "vni \<Rightarrow> route \<Rightarrow> 'w \<Rightarrow> 'w"

text \<open>The blanket implementation for \<open>Arc<T>\<close> forwards both calls.\<close>

definition arc_handler :: "'w route_handler \<Rightarrow> 'w route_handler" where
  "arc_handler h = \<lparr>rh_add_route = (\<lambda>vni route. rh_add_route h vni route),
                    rh_remove_route = (\<lambda>vni route. rh_remove_route h vni route)\<rparr>"

text \<open>The two handlers the library ships: one does nothing, the other only logs.\<close>

definition no_op_handler :: "'w route_handler" where
  "no_op_handler = \<lparr>rh_add_route = (\<lambda>_ _ w. w), rh_remove_route = (\<lambda>_ _ w. w)\<rparr>"

datatype handler_call = HandlerAdd vni route | HandlerRemove vni route

text \<open>A handler that records its calls in order, oldest first, as \<open>LoggingHandler\<close> prints them.\<close>

definition recording_handler :: "handler_call list route_handler" where
  "recording_handler =
     \<lparr>rh_add_route = (\<lambda>vni route calls. calls @ [HandlerAdd vni route]),
      rh_remove_route = (\<lambda>vni route calls. calls @ [HandlerRemove vni route])\<rparr>"

text \<open>What a handler makes of a recorded call.\<close>

fun called :: "'w route_handler \<Rightarrow> handler_call \<Rightarrow> 'w \<Rightarrow> 'w" where
  "called h (HandlerAdd v r) = rh_add_route h v r"
| "called h (HandlerRemove v r) = rh_remove_route h v r"

definition key_of :: "vni \<Rightarrow> route \<Rightarrow> route_key" where
  "key_of vni route = (vni, route_destination route, route_next_hop route)"

lemma key_of_route_new [simp]: "key_of v (route_new d h) = (v, d, h)"
  by (simp add: key_of_def)

fun call_update :: "handler_call \<Rightarrow> action \<times> route_key" where
  "call_update (HandlerAdd v r) = (Add, key_of v r)"
| "call_update (HandlerRemove v r) = (Remove, key_of v r)"

text \<open>The routes a recorded handler has been told of and not told to drop.\<close>

definition calls_view :: "handler_call list \<Rightarrow> route_key set" where
  "calls_view calls = apply_log (map call_update calls) {}"

lemma calls_view_snoc:
  "calls_view (calls @ [c]) = (case call_update c of (a, k) \<Rightarrow> apply_action a k (calls_view calls))"
  by (cases c) (simp_all add: calls_view_def)

text \<open>
  A call is effective when it tells the handler something new: an addition of a route it
  does not have or a removal of one it has.
\<close>

fun call_effective :: "route_key set \<Rightarrow> handler_call \<Rightarrow> bool" where
  "call_effective S (HandlerAdd v r) = (key_of v r \<notin> S)"
| "call_effective S (HandlerRemove v r) = (key_of v r \<in> S)"

fun calls_effective :: "route_key set \<Rightarrow> handler_call list \<Rightarrow> bool" where
  "calls_effective S [] = True"
| "calls_effective S (c # cs) =
     (call_effective S c \<and> (case call_update c of (a, k) \<Rightarrow> calls_effective (apply_action a k S) cs))"

lemma calls_effective_append:
  "calls_effective S (xs @ ys) \<longleftrightarrow>
     calls_effective S xs \<and> calls_effective (apply_log (map call_update xs) S) ys"
proof (induction xs arbitrary: S)
  case Nil
  then show ?case by simp
next
  case (Cons c cs)
  then show ?case by (cases c) simp_all
qed

lemma calls_effective_snoc:
  "calls_effective {} (calls @ [c]) \<longleftrightarrow> calls_effective {} calls \<and> call_effective (calls_view calls) c"
  by (cases c) (simp_all add: calls_effective_append calls_view_def)

section \<open>The contract of a handler\<close>

text \<open>
  A caller adds a route only when the handler does not have it and removes one only when it
  has; then the handler's view is what it was told, and it stays sound.
\<close>

locale route_sink =
  fixes h :: "'w route_handler"
    and view :: "'w \<Rightarrow> route_key set"
    and sound :: "'w \<Rightarrow> bool"
  assumes add_sound: "sound w \<Longrightarrow> key_of v r \<notin> view w \<Longrightarrow> sound (rh_add_route h v r w)"
    and add_view: "sound w \<Longrightarrow> key_of v r \<notin> view w \<Longrightarrow>
      view (rh_add_route h v r w) = insert (key_of v r) (view w)"
    and remove_sound: "sound w \<Longrightarrow> key_of v r \<in> view w \<Longrightarrow> sound (rh_remove_route h v r w)"
    and remove_view: "sound w \<Longrightarrow> key_of v r \<in> view w \<Longrightarrow>
      view (rh_remove_route h v r w) = view w - {key_of v r}"
begin

text \<open>A loop that drops a list of routes, as on unsubscribing or losing the connection.\<close>

lemma fold_remove:
  "sound w \<Longrightarrow> distinct (map (\<lambda>(v, r). key_of v r) rs) \<Longrightarrow> (\<lambda>(v, r). key_of v r) ` set rs \<subseteq> view w \<Longrightarrow>
     sound (fold (\<lambda>(v, r) w. rh_remove_route h v r w) rs w) \<and>
     view (fold (\<lambda>(v, r) w. rh_remove_route h v r w) rs w) = view w - (\<lambda>(v, r). key_of v r) ` set rs"
proof (induction rs arbitrary: w)
  case Nil
  then show ?case by simp
next
  case (Cons e rs)
  obtain v r where e: "e = (v, r)" by (cases e)
  have k: "key_of v r \<in> view w" using Cons.prems by (simp add: e)
  have "(\<lambda>(v, r). key_of v r) ` set rs \<subseteq> view w - {key_of v r}" using Cons.prems by (auto simp: e)
  then show ?case
    using Cons.IH [OF remove_sound [OF Cons.prems(1) k]] remove_view [OF Cons.prems(1) k] Cons.prems(2)
    by (auto simp: e)
qed

end

interpretation recorded: route_sink recording_handler calls_view "calls_effective {}"
  by unfold_locales (simp_all add: recording_handler_def calls_view_snoc calls_effective_snoc)

end
