(* ===== verification/Peer.thy ===== *)
theory Peer
  imports Transport Route_Handler
begin

text \<open>
  The client's connection to one server (\<open>src/src/peer.rs\<close>). \<open>peer_task\<close> and
  \<open>run_connection\<close> are one state machine: a phase for each place where the task waits, and a
  step for each thing it waits for. The routes it receives go into its own table and to the
  route handler it was given (for a client, a deduplicating handler).

  The user's routes to announce are shared with the client; the step that establishes the
  connection takes the table as it is then.
\<close>

section \<open>State\<close>

definition RETRY_INTERVAL_MIN :: nat where "RETRY_INTERVAL_MIN = 5"
definition RETRY_INTERVAL_MAX :: nat where "RETRY_INTERVAL_MAX = 10"

definition retry_delay :: "u64 \<Rightarrow> nat" where
  "retry_delay random = RETRY_INTERVAL_MIN + unat random mod (RETRY_INTERVAL_MAX - RETRY_INTERVAL_MIN + 1)"

datatype peer_command =
    PeerSubscribe vni
  | PeerUnsubscribe vni
  | PeerSendUpdate message
  | PeerShutdown

text \<open>
  Where the task is: connecting, waiting for the HELLO or the KEEPALIVE of the handshake
  (with the negotiated interval), in the main loop (with the interval, the time data last
  came and the message buffer), waiting to retry, returned, or dead of a panic.
\<close>

datatype peer_phase =
    AtConnect
  | AtHello
  | AtKeepalive u32
  | AtLoop u32 nat "u8 list"
  | AtRetry
  | AtEnd
  | AtPanic

record 'w peer_task =
  pt_state :: connection_state
  pt_subs :: "vni hash_set"
  pt_received :: route_table
  pt_world :: 'w
  pt_stream :: tcp_stream
  pt_phase :: peer_phase

definition peer_new :: "'w \<Rightarrow> 'w peer_task" where
  "peer_new w = \<lparr>pt_state = Connecting, pt_subs = [], pt_received = rt_new, pt_world = w,
     pt_stream = \<lparr>ts_written = [], ts_budget = 0\<rparr>, pt_phase = AtConnect\<rparr>"

section \<open>Received messages\<close>

fun peer_handle_message :: "'w route_handler \<Rightarrow> message \<Rightarrow> route_table \<times> 'w \<Rightarrow> route_table \<times> 'w" where
  "peer_handle_message h (MsgHello k s) (rt, w) = (rt, w)"
| "peer_handle_message h MsgKeepalive (rt, w) = (rt, w)"
| "peer_handle_message h (MsgSubscribe vni) (rt, w) = (rt, w)"
| "peer_handle_message h (MsgUnsubscribe vni) (rt, w) = (rt, w)"
| "peer_handle_message h (MsgUpdate act vni destination next_hop) (rt, w) =
     (case act of
        Add \<Rightarrow>
          (case add_next_hop vni destination next_hop rt of
             (added, rt') \<Rightarrow> (rt', if added then rh_add_route h vni (route_new destination next_hop) w else w))
      | Remove \<Rightarrow>
          (case remove_next_hop vni destination next_hop rt of
             ((removed, _), rt') \<Rightarrow> (rt', if removed then rh_remove_route h vni (route_new destination next_hop) w else w)))"

text \<open>The loop that decodes messages off the buffer: the error that ends it, and what is left.\<close>

function process_buffer ::
    "externals \<Rightarrow> 'w route_handler \<Rightarrow> u8 list \<Rightarrow> route_table \<times> 'w \<Rightarrow> error option \<times> u8 list \<times> route_table \<times> 'w" where
  "process_buffer x h msg_buf s =
     (if msg_buf = [] then (None, [], s)
      else case message_decode x msg_buf of
        Inr (msg, consumed) \<Rightarrow> process_buffer x h (drop consumed msg_buf) (peer_handle_message h msg s)
      | Inl e \<Rightarrow> (if need_more_data e then None else Some e, msg_buf, s))"
  by pat_completeness auto
termination
  by (relation "measure (\<lambda>(x, h, buf, s). length buf)") (auto dest: message_decode_consumed)

declare process_buffer.simps [simp del]

section \<open>The connection\<close>

text \<open>
  What \<open>peer_task\<close> does once \<open>run_connection\<close> has returned: stop if the connection was
  closed on request, else tell the handler that every received route is gone and retry.
\<close>

definition connection_ended :: "'w route_handler \<Rightarrow> 'w peer_task \<Rightarrow> 'w peer_task" where
  "connection_ended h t =
     (if pt_state t = ConnClosed then t\<lparr>pt_phase := AtEnd\<rparr>
      else t\<lparr>pt_world := fold (\<lambda>(vni, route) w. rh_remove_route h vni route w) (get_all_routes (pt_received t)) (pt_world t),
             pt_received := rt_clear (pt_received t), pt_state := Retry, pt_phase := AtRetry\<rparr>)"

text \<open>Send messages on the connection and go on, or end it at the first failure.\<close>

definition conn_send ::
    "externals \<Rightarrow> 'w route_handler \<Rightarrow> message list \<Rightarrow> ('w peer_task \<Rightarrow> 'w peer_task) \<Rightarrow> 'w peer_task \<Rightarrow> 'w peer_task" where
  "conn_send x h msgs go_on t =
     (case send_all x msgs (pt_stream t) of
        (Inl e, st) \<Rightarrow> connection_ended h (t\<lparr>pt_stream := st\<rparr>)
      | (Inr _, st) \<Rightarrow> go_on (t\<lparr>pt_stream := st\<rparr>))"

definition conn_start :: "externals \<Rightarrow> 'w route_handler \<Rightarrow> 'w peer_task \<Rightarrow> 'w peer_task" where
  "conn_start x h =
     conn_send x h [MsgHello DEFAULT_KEEPALIVE_INTERVAL False]
       (\<lambda>t. t\<lparr>pt_state := HelloSent, pt_phase := AtHello\<rparr>)"

definition conn_hello :: "externals \<Rightarrow> 'w route_handler \<Rightarrow> error + u8 list \<Rightarrow> 'w peer_task \<Rightarrow> 'w peer_task" where
  "conn_hello x h read t =
     (case receive_hello x read of
        Inl e \<Rightarrow> connection_ended h t
      | Inr None \<Rightarrow> connection_ended h t
      | Inr (Some (server_keepalive, _)) \<Rightarrow>
          conn_send x h [MsgKeepalive]
            (\<lambda>t. t\<lparr>pt_phase := AtKeepalive (negotiated_keepalive DEFAULT_KEEPALIVE_INTERVAL server_keepalive)\<rparr>)
            (t\<lparr>pt_state := HelloReceived\<rparr>))"

definition announce_message :: "vni \<times> route \<Rightarrow> message" where
  "announce_message e = (case e of (vni, route) \<Rightarrow> MsgUpdate Add vni (route_destination route) (route_next_hop route))"

text \<open>
  The reply to the KEEPALIVE establishes the connection: subscribe again, announce again,
  start the keepalive timer, which panics on a period of 0.
\<close>

definition conn_keepalive ::
    "externals \<Rightarrow> 'w route_handler \<Rightarrow> u32 \<Rightarrow> (error + u8 list) option \<Rightarrow> route_table \<Rightarrow> nat \<Rightarrow>
     'w peer_task \<Rightarrow> 'w peer_task" where
  "conn_keepalive x h negotiated read announced_routes now t =
     (case receive_message_with_timeout x read of
        Inr MsgKeepalive \<Rightarrow>
          conn_send x h (map MsgSubscribe (pt_subs t))
            (conn_send x h (map announce_message (get_all_routes announced_routes))
              (\<lambda>t. if keepalive_duration negotiated = 0 then t\<lparr>pt_phase := AtPanic\<rparr>
                   else t\<lparr>pt_phase := AtLoop negotiated now []\<rparr>))
            (t\<lparr>pt_state := Established\<rparr>)
      | _ \<Rightarrow> connection_ended h t)"

definition conn_tick :: "externals \<Rightarrow> 'w route_handler \<Rightarrow> u32 \<Rightarrow> nat \<Rightarrow> nat \<Rightarrow> 'w peer_task \<Rightarrow> 'w peer_task" where
  "conn_tick x h negotiated last_received now t =
     (if now - last_received > keepalive_timeout negotiated then connection_ended h t
      else conn_send x h [MsgKeepalive] (\<lambda>t. t) t)"

definition conn_data ::
    "externals \<Rightarrow> 'w route_handler \<Rightarrow> u32 \<Rightarrow> u8 list \<Rightarrow> error + u8 list \<Rightarrow> nat \<Rightarrow> 'w peer_task \<Rightarrow> 'w peer_task" where
  "conn_data x h negotiated msg_buf read now t =
     (case read of
        Inl e \<Rightarrow> connection_ended h t
      | Inr buf \<Rightarrow>
          if buf = [] then connection_ended h t
          else
            (case process_buffer x h (msg_buf @ buf) (pt_received t, pt_world t) of
               (None, rest, rt, w) \<Rightarrow>
                 t\<lparr>pt_received := rt, pt_world := w, pt_phase := AtLoop negotiated now rest\<rparr>
             | (Some e, rest, rt, w) \<Rightarrow> connection_ended h (t\<lparr>pt_received := rt, pt_world := w\<rparr>)))"

fun conn_command :: "externals \<Rightarrow> 'w route_handler \<Rightarrow> peer_command \<Rightarrow> 'w peer_task \<Rightarrow> 'w peer_task" where
  "conn_command x h (PeerSubscribe vni) t =
     conn_send x h [MsgSubscribe vni] (\<lambda>t. t\<lparr>pt_subs := hs_insert vni (pt_subs t)\<rparr>) t"
| "conn_command x h (PeerUnsubscribe vni) t =
     conn_send x h [MsgUnsubscribe vni]
       (\<lambda>t. case remove_vni vni (pt_received t) of (routes, rt) \<Rightarrow>
          t\<lparr>pt_subs := hs_remove vni (pt_subs t), pt_received := rt,
            pt_world := fold (\<lambda>route w. rh_remove_route h vni route w) routes (pt_world t)\<rparr>) t"
| "conn_command x h (PeerSendUpdate msg) t = conn_send x h [msg] (\<lambda>t. t) t"
| "conn_command x h PeerShutdown t = connection_ended h (t\<lparr>pt_state := ConnClosed\<rparr>)"

section \<open>The task as a state machine\<close>

datatype peer_event =
    ConnectOk nat
  | ConnectFailed
  | HelloRead "error + u8 list"
  | KeepaliveRead "(error + u8 list) option" route_table nat
  | Tick nat
  | DataRead "error + u8 list" nat
  | PeerCommand peer_command
  | RetryElapsed

text \<open>
  One step; \<open>None\<close> where the task does not wait for such an event. Both places where the
  code waits to retry behave alike: any command ends the wait, and only a shutdown is obeyed.
\<close>

definition peer_step :: "externals \<Rightarrow> 'w route_handler \<Rightarrow> peer_event \<Rightarrow> 'w peer_task \<Rightarrow> 'w peer_task option" where
  "peer_step x h ev t =
     (case pt_phase t of
        AtConnect \<Rightarrow>
          (case ev of
             ConnectOk budget \<Rightarrow> Some (conn_start x h (t\<lparr>pt_stream := \<lparr>ts_written = [], ts_budget = budget\<rparr>\<rparr>))
           | ConnectFailed \<Rightarrow> Some (t\<lparr>pt_state := Retry, pt_phase := AtRetry\<rparr>)
           | _ \<Rightarrow> None)
      | AtHello \<Rightarrow> (case ev of HelloRead read \<Rightarrow> Some (conn_hello x h read t) | _ \<Rightarrow> None)
      | AtKeepalive negotiated \<Rightarrow>
          (case ev of
             KeepaliveRead read announced now \<Rightarrow> Some (conn_keepalive x h negotiated read announced now t)
           | _ \<Rightarrow> None)
      | AtLoop negotiated last_received msg_buf \<Rightarrow>
          (case ev of
             Tick now \<Rightarrow> Some (conn_tick x h negotiated last_received now t)
           | DataRead read now \<Rightarrow> Some (conn_data x h negotiated msg_buf read now t)
           | PeerCommand cmd \<Rightarrow> Some (conn_command x h cmd t)
           | _ \<Rightarrow> None)
      | AtRetry \<Rightarrow>
          (case ev of
             RetryElapsed \<Rightarrow> Some (t\<lparr>pt_state := Connecting, pt_phase := AtConnect\<rparr>)
           | PeerCommand PeerShutdown \<Rightarrow> Some (t\<lparr>pt_state := ConnClosed, pt_phase := AtEnd\<rparr>)
           | PeerCommand _ \<Rightarrow> Some (t\<lparr>pt_state := Connecting, pt_phase := AtConnect\<rparr>)
           | _ \<Rightarrow> None)
      | AtEnd \<Rightarrow> None
      | AtPanic \<Rightarrow> None)"

fun peer_run :: "externals \<Rightarrow> 'w route_handler \<Rightarrow> peer_event list \<Rightarrow> 'w peer_task \<Rightarrow> 'w peer_task option" where
  "peer_run x h [] t = Some t"
| "peer_run x h (e # es) t = Option.bind (peer_step x h e t) (peer_run x h es)"

lemma peer_run_append: "peer_run x h (es @ fs) t = Option.bind (peer_run x h es t) (peer_run x h fs)"
  by (induction es arbitrary: t) (auto split: bind_splits)

section \<open>The message loop\<close>

text \<open>The loop is the framing of the buffer followed by the handling of the messages, in order.\<close>

lemma process_buffer_frames:
  "process_buffer x h buf s =
     (case frames (message_decode x) need_more_data buf of
        (ms, rest, e) \<Rightarrow> (e, rest, fold (peer_handle_message h) ms s))"
proof (induction x h buf s rule: process_buffer.induct)
  case (1 x h buf s)
  show ?case
  proof (cases "buf = []")
    case True
    then show ?thesis by (simp add: process_buffer.simps [of x h "[]"] wire_frames.frames_Nil)
  next
    case False
    show ?thesis
    proof (cases "message_decode x buf")
      case (Inl e)
      with False show ?thesis
        by (simp add: process_buffer.simps [of x h buf] wire_frames.frames_stop)
    next
      case (Inr mn)
      then obtain m n where mn: "message_decode x buf = Inr (m, n)" by (cases mn) auto
      from 1 [OF False mn refl] False mn show ?thesis
        by (simp add: process_buffer.simps [of x h buf] wire_frames.frames_msg [OF mn] split: prod.splits)
    qed
  qed
qed

section \<open>The handler follows the received routes\<close>

text \<open>The phase a task is in and the state it shows agree.\<close>

fun phase_state :: "peer_phase \<Rightarrow> connection_state" where
  "phase_state AtConnect = Connecting"
| "phase_state AtHello = HelloSent"
| "phase_state (AtKeepalive n) = HelloReceived"
| "phase_state (AtLoop n last_received buf) = Established"
| "phase_state AtRetry = Retry"
| "phase_state AtEnd = ConnClosed"
| "phase_state AtPanic = Established"

text \<open>The phases in which routes of the server may be held.\<close>

fun holds_routes :: "peer_phase \<Rightarrow> bool" where
  "holds_routes (AtLoop n last_received buf) = True"
| "holds_routes AtEnd = True"
| "holds_routes _ = False"

text \<open>A handler is in step with a table when what it was told is what the table holds.\<close>

definition handler_in_step ::
    "('w \<Rightarrow> route_key set) \<Rightarrow> ('w \<Rightarrow> bool) \<Rightarrow> route_table \<times> 'w \<Rightarrow> bool" where
  "handler_in_step view sound s \<longleftrightarrow> rt_wf (fst s) \<and> sound (snd s) \<and> view (snd s) = rt_abs (fst s)"

context route_sink
begin

abbreviation in_step :: "route_table \<times> 'w \<Rightarrow> bool" where
  "in_step \<equiv> handler_in_step view sound"

lemmas in_step_def = handler_in_step_def

lemma handle_message_in_step:
  assumes "in_step s"
  shows "in_step (peer_handle_message h m s)"
proof (cases m)
  case (MsgUpdate a v d n)
  obtain rt w where s: "s = (rt, w)" by (cases s)
  have rt: "rt_wf rt" "sound w" "view w = rt_abs rt" using assms s by (simp_all add: in_step_def)
  show ?thesis
  proof (cases a)
    case Add
    obtain added rt' where r: "add_next_hop v d n rt = (added, rt')" by fastforce
    have "rt_abs rt' = insert (v, d, n) (rt_abs rt)" "rt_wf rt'" "added \<longleftrightarrow> (v, d, n) \<notin> rt_abs rt"
      using add_next_hop_abs [of v d n rt] add_next_hop_wf [OF rt(1), of v d n] add_next_hop_new [of v d n rt] r
      by simp_all
    then show ?thesis
      using rt add_sound [of w v "route_new d n"] add_view [of w v "route_new d n"]
      by (auto simp: s MsgUpdate Add r in_step_def insert_absorb simp del: rt_abs_iff)
  next
    case Remove
    obtain removed remaining rt' where r: "remove_next_hop v d n rt = ((removed, remaining), rt')"
      by (metis prod.collapse)
    have "rt_abs rt' = rt_abs rt - {(v, d, n)}" "rt_wf rt'" "removed \<longleftrightarrow> (v, d, n) \<in> rt_abs rt"
      using remove_next_hop_abs [OF rt(1), of v d n] remove_next_hop_wf [OF rt(1), of v d n]
        remove_next_hop_removed [of v d n rt] r
      by simp_all
    then show ?thesis
      using rt remove_sound [of w v "route_new d n"] remove_view [of w v "route_new d n"]
      by (auto simp: s MsgUpdate Remove r in_step_def simp del: rt_abs_iff)
  qed
qed (use assms in \<open>cases s; simp\<close>)+

lemma handle_messages_in_step: "in_step s \<Longrightarrow> in_step (fold (peer_handle_message h) ms s)"
  by (induction ms rule: rev_induct) (simp_all add: handle_message_in_step)

lemma process_buffer_in_step:
  "in_step s \<Longrightarrow> process_buffer x h buf s = (e, rest, s') \<Longrightarrow> in_step s'"
  by (auto simp: process_buffer_frames handle_messages_in_step split: prod.splits)

text \<open>Dropping listed routes from the handler.\<close>

lemma drop_routes:
  assumes "in_step (rt, w)" and "distinct (map (\<lambda>(v, r). key_of v r) rs)"
    and "(\<lambda>(v, r). key_of v r) ` set rs \<subseteq> rt_abs rt"
    and "rt_abs rt' = rt_abs rt - (\<lambda>(v, r). key_of v r) ` set rs" and "rt_wf rt'"
  shows "in_step (rt', fold (\<lambda>(v, r) w. rh_remove_route h v r w) rs w)"
  using assms fold_remove [of w rs] by (simp add: in_step_def)

lemma keys_of_all_routes: "map (\<lambda>(v, r). key_of v r) (get_all_routes rt) = all_keys rt"
  by (simp add: get_all_routes_keys case_prod_unfold comp_def key_of_def)

lemma drop_all_routes:
  assumes "in_step (rt, w)"
  shows "in_step (rt_clear rt, fold (\<lambda>(v, r) w. rh_remove_route h v r w) (get_all_routes rt) w)"
proof (rule drop_routes [OF assms])
  have wf: "rt_wf rt" using assms by (simp add: in_step_def)
  show "distinct (map (\<lambda>(v, r). key_of v r) (get_all_routes rt))"
    unfolding keys_of_all_routes by (rule distinct_all_keys [OF wf])
  have "(\<lambda>(v, r). key_of v r) ` set (get_all_routes rt) = rt_abs rt"
    using set_all_keys [OF wf] by (simp flip: keys_of_all_routes)
  then show "(\<lambda>(v, r). key_of v r) ` set (get_all_routes rt) \<subseteq> rt_abs rt"
    and "rt_abs (rt_clear rt) = rt_abs rt - (\<lambda>(v, r). key_of v r) ` set (get_all_routes rt)"
    by simp_all
qed simp

lemma fold_pair_route:
  "fold (\<lambda>r w. rh_remove_route h v r w) rs w = fold (\<lambda>(v, r) w. rh_remove_route h v r w) (map (Pair v) rs) w"
  by (simp add: fold_map comp_def)

lemma drop_vni_routes:
  assumes "in_step (rt, w)" and r: "remove_vni v rt = (rs, rt')"
  shows "in_step (rt', fold (\<lambda>r w. rh_remove_route h v r w) rs w)"
  unfolding fold_pair_route
proof (rule drop_routes [OF assms(1)])
  have wf: "rt_wf rt" using assms(1) by (simp add: in_step_def)
  have rs: "rs = map (\<lambda>(d, n). route_new d n) (vni_entries v rt)"
    using remove_vni_routes [of v rt] r by (simp add: get_routes_by_vni_entries)
  have keys: "map (\<lambda>(v, r). key_of v r) (map (Pair v) rs) = map (Pair v) (vni_entries v rt)"
    by (simp add: rs case_prod_unfold comp_def)
  show "distinct (map (\<lambda>(v, r). key_of v r) (map (Pair v) rs))"
    unfolding keys using distinct_vni_entries [OF wf] by (simp add: distinct_map inj_on_def)
  have "(\<lambda>(v, r). key_of v r) ` set (map (Pair v) rs) = set (map (Pair v) (vni_entries v rt))"
    using arg_cong [OF keys, of set] by (simp only: set_map)
  then have keyset: "(\<lambda>(v, r). key_of v r) ` set (map (Pair v) rs) = {k \<in> rt_abs rt. fst k = v}"
    using set_vni_entries [OF wf, of _ _ v] by (force simp del: rt_abs_iff)
  then show "(\<lambda>(v, r). key_of v r) ` set (map (Pair v) rs) \<subseteq> rt_abs rt" by blast
  show "rt_abs rt' = rt_abs rt - (\<lambda>(v, r). key_of v r) ` set (map (Pair v) rs)"
    unfolding keyset using remove_vni_abs [of v rt] r by (auto simp del: rt_abs_iff)
  show "rt_wf rt'" using remove_vni_wf [OF wf, of v] r by simp
qed

end

section \<open>The invariant of the task\<close>

definition peer_inv :: "('w \<Rightarrow> route_key set) \<Rightarrow> ('w \<Rightarrow> bool) \<Rightarrow> 'w peer_task \<Rightarrow> bool" where
  "peer_inv view sound t \<longleftrightarrow>
     handler_in_step view sound (pt_received t, pt_world t) \<and>
     pt_state t = phase_state (pt_phase t) \<and>
     (\<not> holds_routes (pt_phase t) \<longrightarrow> rt_abs (pt_received t) = {}) \<and>
     distinct (pt_subs t)"

text \<open>What the steps between two waits rely on: everything but the phase.\<close>

definition peer_core :: "('w \<Rightarrow> route_key set) \<Rightarrow> ('w \<Rightarrow> bool) \<Rightarrow> 'w peer_task \<Rightarrow> bool" where
  "peer_core view sound t \<longleftrightarrow> handler_in_step view sound (pt_received t, pt_world t) \<and> distinct (pt_subs t)"

context route_sink
begin

abbreviation inv :: "'w peer_task \<Rightarrow> bool" where "inv \<equiv> peer_inv view sound"
abbreviation core :: "'w peer_task \<Rightarrow> bool" where "core \<equiv> peer_core view sound"

lemma inv_core: "inv t \<Longrightarrow> core t"
  by (simp add: peer_inv_def peer_core_def)

lemma ended_inv: "core t \<Longrightarrow> inv (connection_ended h t)"
  using drop_all_routes [of "pt_received t" "pt_world t"]
  by (auto simp: connection_ended_def peer_inv_def peer_core_def)

lemma send_inv:
  assumes "core t" and "\<And>st. inv (go_on (t\<lparr>pt_stream := st\<rparr>))"
  shows "inv (conn_send x h msgs go_on t)"
  using assms by (auto simp: conn_send_def peer_core_def intro!: ended_inv split: prod.split sum.split)

lemma start_inv: "core t \<Longrightarrow> rt_abs (pt_received t) = {} \<Longrightarrow> inv (conn_start x h t)"
  unfolding conn_start_def by (rule send_inv) (auto simp: peer_inv_def peer_core_def)

lemma hello_inv: "core t \<Longrightarrow> rt_abs (pt_received t) = {} \<Longrightarrow> inv (conn_hello x h read t)"
  unfolding conn_hello_def
  by (auto intro!: ended_inv send_inv split: sum.split option.split)
     (auto simp: peer_inv_def peer_core_def)

lemma keepalive_inv:
  "core t \<Longrightarrow> rt_abs (pt_received t) = {} \<Longrightarrow> inv (conn_keepalive x h n read announced now t)"
  unfolding conn_keepalive_def
  by (auto intro!: ended_inv send_inv split: sum.split message.split)
     (auto simp: peer_inv_def peer_core_def)

lemma tick_inv: "inv t \<Longrightarrow> inv (conn_tick x h n last_received now t)"
  by (auto simp: conn_tick_def intro!: ended_inv send_inv inv_core) (auto simp: peer_inv_def)

lemma data_inv:
  assumes "inv t" and "pt_phase t = AtLoop n last_received buf"
  shows "inv (conn_data x h n buf read now t)"
proof -
  have step: "in_step (pt_received t, pt_world t)" using assms by (simp add: peer_inv_def)
  have "inv (conn_data x h n buf (Inr bytes) now t)" if "bytes \<noteq> []" for bytes
  proof -
    obtain e rest rt w where p: "process_buffer x h (buf @ bytes) (pt_received t, pt_world t) = (e, rest, rt, w)"
      by (metis prod_cases4)
    have "in_step (rt, w)" by (rule process_buffer_in_step [OF step p])
    then have "core (t\<lparr>pt_received := rt, pt_world := w\<rparr>)"
      and "inv (t\<lparr>pt_received := rt, pt_world := w, pt_phase := AtLoop n now rest\<rparr>)"
      using assms by (simp_all add: peer_core_def peer_inv_def)
    with that p ended_inv show ?thesis by (cases e) (simp_all add: conn_data_def)
  qed
  then show ?thesis using ended_inv [OF inv_core [OF assms(1)]]
    by (auto simp: conn_data_def split: sum.split)
qed

lemma command_inv:
  assumes "inv t" and "pt_phase t = AtLoop n last_received buf"
  shows "inv (conn_command x h cmd t)"
proof (cases cmd)
  case (PeerSubscribe v)
  show ?thesis unfolding PeerSubscribe conn_command.simps
    by (rule send_inv [OF inv_core [OF assms(1)]]) (use assms in \<open>simp add: peer_inv_def\<close>)
next
  case (PeerUnsubscribe v)
  obtain rs rt where r: "remove_vni v (pt_received t) = (rs, rt)" by fastforce
  have "in_step (rt, fold (\<lambda>r w. rh_remove_route h v r w) rs (pt_world t))"
    by (rule drop_vni_routes [OF _ r]) (use assms in \<open>simp add: peer_inv_def\<close>)
  with assms r show ?thesis unfolding PeerUnsubscribe conn_command.simps
    by (intro send_inv [OF inv_core [OF assms(1)]]) (simp add: peer_inv_def)
next
  case (PeerSendUpdate m)
  show ?thesis unfolding PeerSendUpdate conn_command.simps
    by (rule send_inv [OF inv_core [OF assms(1)]]) (use assms in \<open>simp add: peer_inv_def\<close>)
next
  case PeerShutdown
  have "core (t\<lparr>pt_state := ConnClosed\<rparr>)" using assms by (simp add: peer_inv_def peer_core_def)
  then show ?thesis by (simp add: PeerShutdown ended_inv)
qed

lemma step_inv:
  assumes "inv t" and "peer_step x h ev t = Some t'"
  shows "inv t'"
proof -
  have core: "core (t\<lparr>pt_stream := st\<rparr>)" "core t" for st using assms(1) by (simp_all add: peer_inv_def peer_core_def)
  have empty: "rt_abs (pt_received t) = {}" if "\<not> holds_routes (pt_phase t)"
    using assms(1) that by (simp add: peer_inv_def)
  show ?thesis
  proof (cases "pt_phase t")
    case AtRetry
    with assms show ?thesis
      by (auto simp: peer_step_def peer_inv_def split: peer_event.splits peer_command.splits)
  next
    case AtConnect
    then have "inv (conn_start x h (t\<lparr>pt_stream := st\<rparr>))" for st
      by (intro start_inv) (simp_all add: core empty)
    moreover have "inv (t\<lparr>pt_state := Retry, pt_phase := AtRetry\<rparr>)"
      using assms(1) AtConnect by (simp add: peer_inv_def)
    ultimately show ?thesis
      using assms(2) AtConnect by (auto simp: peer_step_def split: peer_event.splits)
  next
    case AtHello
    then have "inv (conn_hello x h read t)" for read by (intro hello_inv) (simp_all add: core empty)
    then show ?thesis using assms(2) AtHello by (auto simp: peer_step_def split: peer_event.splits)
  next
    case (AtKeepalive n)
    then have "inv (conn_keepalive x h n read announced now t)" for read announced now
      by (intro keepalive_inv) (simp_all add: core empty)
    then show ?thesis using assms(2) AtKeepalive by (auto simp: peer_step_def split: peer_event.splits)
  next
    case (AtLoop n last_received buf)
    from tick_inv [OF assms(1)] data_inv [OF assms(1) this] command_inv [OF assms(1) this] show ?thesis
      using assms(2) AtLoop by (auto simp: peer_step_def split: peer_event.splits)
  qed (use assms in \<open>auto simp: peer_step_def\<close>)
qed

lemma run_inv: "inv t \<Longrightarrow> peer_run x h es t = Some t' \<Longrightarrow> inv t'"
  by (induction es arbitrary: t) (auto split: bind_splits dest: step_inv)

lemma new_inv: "sound w \<Longrightarrow> view w = {} \<Longrightarrow> inv (peer_new w)"
  by (auto simp: peer_inv_def peer_new_def handler_in_step_def)

end

section \<open>What the handler keeps, the task keeps\<close>

text \<open>A predicate of the handler's world that both callbacks preserve is preserved by every step.\<close>

locale world_invariant =
  fixes h :: "'w route_handler"
    and P :: "'w \<Rightarrow> bool"
  assumes keeps_add: "P w \<Longrightarrow> P (rh_add_route h v r w)"
    and keeps_remove: "P w \<Longrightarrow> P (rh_remove_route h v r w)"
begin

lemma keeps_drop: "P w \<Longrightarrow> P (fold (\<lambda>(v, r) w. rh_remove_route h v r w) rs w)"
  by (induction rs arbitrary: w) (auto intro: keeps_remove)

lemma keeps_drop_vni: "P w \<Longrightarrow> P (fold (\<lambda>r w. rh_remove_route h v r w) rs w)"
  by (induction rs arbitrary: w) (auto intro: keeps_remove)

lemma keeps_message: "P (snd s) \<Longrightarrow> P (snd (peer_handle_message h m s))"
  by (cases "(h, m, s)" rule: peer_handle_message.cases)
     (auto split: action.split prod.split intro: keeps_add keeps_remove)

lemma keeps_messages: "P (snd s) \<Longrightarrow> P (snd (fold (peer_handle_message h) ms s))"
  by (induction ms rule: rev_induct) (simp_all add: keeps_message)

lemma keeps_ended: "P (pt_world t) \<Longrightarrow> P (pt_world (connection_ended h t))"
  by (simp add: connection_ended_def keeps_drop)

lemma keeps_send:
  assumes "P (pt_world t)" and "\<And>st. P (pt_world (go_on (t\<lparr>pt_stream := st\<rparr>)))"
  shows "P (pt_world (conn_send x h ms go_on t))"
  using assms by (auto simp: conn_send_def intro!: keeps_ended split: prod.split sum.split)

lemma keeps_data:
  assumes "P (pt_world t)"
  shows "P (pt_world (conn_data x h n buf read now t))"
proof (cases read)
  case (Inl e)
  with assms show ?thesis by (simp add: conn_data_def keeps_ended)
next
  case (Inr bytes)
  obtain ms rest e where f: "frames (message_decode x) need_more_data (buf @ bytes) = (ms, rest, e)"
    by (metis prod_cases3)
  obtain rt w where s: "fold (peer_handle_message h) ms (pt_received t, pt_world t) = (rt, w)" by fastforce
  have "P w" using keeps_messages [of "(pt_received t, pt_world t)" ms] assms s by simp
  with Inr f s assms show ?thesis
    by (cases e) (simp_all add: conn_data_def process_buffer_frames keeps_ended)
qed

lemma keeps_command:
  assumes "P (pt_world t)"
  shows "P (pt_world (conn_command x h cmd t))"
  using assms
  by (cases cmd)
    (auto intro!: keeps_send keeps_ended keeps_drop_vni split: prod.split)

lemma keeps_step:
  assumes "P (pt_world t)" and "peer_step x h ev t = Some t'"
  shows "P (pt_world t')"
proof -
  have "P (pt_world (conn_start x h (t\<lparr>pt_stream := st\<rparr>)))" for st
    unfolding conn_start_def by (rule keeps_send) (simp_all add: assms(1))
  moreover have "P (pt_world (conn_hello x h read t))" for read
    by (auto simp: conn_hello_def assms(1) intro!: keeps_ended keeps_send split: sum.split option.split)
  moreover have "P (pt_world (conn_keepalive x h n read announced now t))" for n read announced now
    by (auto simp: conn_keepalive_def assms(1) intro!: keeps_ended keeps_send split: sum.split message.split)
  moreover have "P (pt_world (conn_tick x h n last_received now t))" for n last_received now
    by (auto simp: conn_tick_def assms(1) intro!: keeps_ended keeps_send)
  ultimately show ?thesis
    using assms(2) keeps_data [OF assms(1)] keeps_command [OF assms(1)] assms(1)
    by (auto simp: peer_step_def split: peer_phase.splits peer_event.splits peer_command.splits)
qed

end

end
