(* ===== verification/Origin_Tracker.thy ===== *)
theory Origin_Tracker
  imports Route_Handler
begin

text \<open>
  The client's route origin tracker and deduplicating handler (\<open>src/src/client.rs\<close>): which
  servers announced each route, and the calls to the user's handler that follow. The
  abstraction \<open>origins_abs\<close> is the relation between routes and servers; a route is known
  to the user while some server announces it.
\<close>

section \<open>The tracker\<close>

datatype server_id = ServerId (server_index: nat)

instantiation server_id :: linorder
begin

definition less_eq_server_id :: "server_id \<Rightarrow> server_id \<Rightarrow> bool" where
  "less_eq_server_id a b \<longleftrightarrow> server_index a \<le> server_index b"

definition less_server_id :: "server_id \<Rightarrow> server_id \<Rightarrow> bool" where
  "less_server_id a b \<longleftrightarrow> server_index a < server_index b"

instance
  by standard (auto simp: less_eq_server_id_def less_server_id_def server_id.expand)

end

definition server_id_display :: "server_id \<Rightarrow> string" where
  "server_id_display s = ''server-'' @ show_nat (server_index s)"

type_synonym origins = "(route_key, server_id hash_set) hash_map"

definition add_origin ::
    "vni \<Rightarrow> destination \<Rightarrow> next_hop \<Rightarrow> server_id \<Rightarrow> origins \<Rightarrow> bool \<times> origins" where
  "add_origin vni dest hop server inner =
     (let key = (vni, dest, hop);
          servers = hm_or_default [] inner key;
          was_empty = (servers = [])
      in (was_empty, hm_insert key (hs_insert server servers) inner))"

definition remove_origin ::
    "vni \<Rightarrow> destination \<Rightarrow> next_hop \<Rightarrow> server_id \<Rightarrow> origins \<Rightarrow> bool \<times> origins" where
  "remove_origin vni dest hop server inner =
     (let key = (vni, dest, hop) in
      case hm_get inner key of
        None \<Rightarrow> (False, inner)
      | Some servers \<Rightarrow>
          let servers' = hs_remove server servers in
          if servers' = [] then (True, hm_remove key inner)
          else (False, hm_insert key servers' inner))"

definition remove_server :: "server_id \<Rightarrow> origins \<Rightarrow> route_key list \<times> origins" where
  "remove_server server inner =
     (let mutated = hm_map_values (hs_remove server) inner
      in (map fst (filter (\<lambda>(key, servers). servers = []) mutated),
          hm_retain (\<lambda>key servers. servers \<noteq> []) mutated))"

definition origins_len :: "origins \<Rightarrow> nat" where
  "origins_len inner = length inner"

definition origins_is_empty :: "origins \<Rightarrow> bool" where
  "origins_is_empty inner \<longleftrightarrow> origins_len inner = 0"

definition origins_get_all :: "origins \<Rightarrow> (route_key \<times> server_id hash_set) list" where
  "origins_get_all inner = map (\<lambda>(k, v). (k, v)) inner"

definition get_servers :: "vni \<Rightarrow> destination \<Rightarrow> next_hop \<Rightarrow> origins \<Rightarrow> server_id hash_set option" where
  "get_servers vni dest hop inner = hm_get inner (vni, dest, hop)"

section \<open>What the tracker represents\<close>

definition origins_abs :: "origins \<Rightarrow> (route_key \<times> server_id) set" where
  "origins_abs inner = {(k, s). \<exists>ss. hm_get inner k = Some ss \<and> s \<in> set ss}"

definition origins_wf :: "origins \<Rightarrow> bool" where
  "origins_wf inner \<longleftrightarrow> hm_wf inner \<and> (\<forall>k ss. hm_get inner k = Some ss \<longrightarrow> ss \<noteq> [] \<and> distinct ss)"

text \<open>The routes some server announces, and those one server announces.\<close>

abbreviation known_routes :: "origins \<Rightarrow> route_key set" where
  "known_routes inner \<equiv> fst ` origins_abs inner"

definition routes_of :: "server_id \<Rightarrow> origins \<Rightarrow> route_key set" where
  "routes_of s inner = {k. (k, s) \<in> origins_abs inner}"

lemma origins_abs_iff: "(k, s) \<in> origins_abs inner \<longleftrightarrow> (\<exists>ss. hm_get inner k = Some ss \<and> s \<in> set ss)"
  by (simp add: origins_abs_def)

lemma origins_new [simp]: "origins_wf []" "origins_abs [] = {}"
  by (simp_all add: origins_wf_def origins_abs_def)

lemma origins_wf_get: "origins_wf inner \<Longrightarrow> hm_get inner k = Some ss \<Longrightarrow> ss \<noteq> [] \<and> distinct ss"
  by (cases k) (auto simp: origins_wf_def)

lemma known_routes_iff:
  assumes "origins_wf inner"
  shows "k \<in> known_routes inner \<longleftrightarrow> hm_get inner k \<noteq> None"
proof
  assume "hm_get inner k \<noteq> None"
  then obtain ss where ss: "hm_get inner k = Some ss" by blast
  with assms have "ss \<noteq> []" using origins_wf_get by blast
  then have "(k, hd ss) \<in> origins_abs inner" using ss by (auto simp: origins_abs_iff)
  then show "k \<in> known_routes inner" by force
qed (auto simp: origins_abs_iff)

lemma add_origin_abs:
  "origins_abs (snd (add_origin v d h s inner)) = insert ((v, d, h), s) (origins_abs inner)"
  by (auto simp: add_origin_def origins_abs_def hm_or_default_def Let_def split: option.splits if_splits)

lemma add_origin_wf: "origins_wf inner \<Longrightarrow> origins_wf (snd (add_origin v d h s inner))"
  by (auto simp: add_origin_def origins_wf_def hm_or_default_def Let_def split: option.splits)

lemma add_origin_first:
  "origins_wf inner \<Longrightarrow> fst (add_origin v d h s inner) \<longleftrightarrow> (v, d, h) \<notin> known_routes inner"
  by (auto simp: known_routes_iff add_origin_def origins_wf_def hm_or_default_def Let_def
      split: option.splits simp del: image_iff)

lemma remove_origin_abs:
  "origins_abs (snd (remove_origin v d h s inner)) = origins_abs inner - {((v, d, h), s)}"
  by (auto simp: remove_origin_def origins_abs_def Let_def hs_remove_empty_iff split: option.splits if_splits)

lemma remove_origin_wf: "origins_wf inner \<Longrightarrow> origins_wf (snd (remove_origin v d h s inner))"
  by (auto simp: remove_origin_def origins_wf_def Let_def split: option.splits if_splits)

lemma known_routes_remove_origin:
  "origins_wf inner \<Longrightarrow>
     known_routes (snd (remove_origin v d h s inner)) =
       (if fst (remove_origin v d h s inner) then known_routes inner - {(v, d, h)} else known_routes inner)"
  using remove_origin_wf [of inner v d h s]
  by (auto simp: known_routes_iff remove_origin_def Let_def set_eq_iff
      split: option.splits if_splits simp del: image_iff)

lemma remove_origin_last:
  "origins_wf inner \<Longrightarrow> fst (remove_origin v d h s inner) \<longleftrightarrow>
     (v, d, h) \<in> known_routes inner \<and> (\<forall>s'. ((v, d, h), s') \<in> origins_abs inner \<longrightarrow> s' = s)"
  by (auto simp: known_routes_iff remove_origin_def Let_def origins_abs_iff hs_remove_empty_iff
      split: option.splits simp del: image_iff)

lemma remove_server_get:
  "origins_wf inner \<Longrightarrow> hm_get (snd (remove_server s inner)) k =
     (case hm_get inner k of None \<Rightarrow> None
      | Some ss \<Rightarrow> if hs_remove s ss = [] then None else Some (hs_remove s ss))"
  by (simp add: remove_server_def hm_get_retain origins_wf_def Let_def split: option.splits)

lemma remove_server_wf: "origins_wf inner \<Longrightarrow> origins_wf (snd (remove_server s inner))"
  by (auto simp: remove_server_def origins_wf_def hm_get_retain Let_def split: option.splits if_splits)

lemma remove_server_abs:
  "origins_wf inner \<Longrightarrow>
     origins_abs (snd (remove_server s inner)) = {(k, s'). (k, s') \<in> origins_abs inner \<and> s' \<noteq> s}"
  by (auto simp: origins_abs_iff remove_server_get hs_remove_empty_iff split: option.splits if_splits)

lemma remove_server_notified:
  assumes wf: "origins_wf inner"
  shows "set (fst (remove_server s inner)) = known_routes inner - known_routes (snd (remove_server s inner))"
proof (rule set_eqI)
  fix k
  have m: "hm_wf (hm_map_values (hs_remove s) inner)" using wf by (simp add: origins_wf_def)
  have "k \<in> set (fst (remove_server s inner)) \<longleftrightarrow>
      (\<exists>ss. hm_get inner k = Some ss \<and> hs_remove s ss = [])"
    using hm_get_iff [OF m, of k "[]"] by (force simp: remove_server_def Let_def)
  also have "\<dots> \<longleftrightarrow> hm_get inner k \<noteq> None \<and> hm_get (snd (remove_server s inner)) k = None"
    by (auto simp: remove_server_get [OF wf] split: option.splits if_splits)
  finally show "k \<in> set (fst (remove_server s inner)) \<longleftrightarrow>
      k \<in> known_routes inner - known_routes (snd (remove_server s inner))"
    by (simp only: Diff_iff known_routes_iff [OF wf] known_routes_iff [OF remove_server_wf [OF wf]] not_not)
qed

lemma remove_server_distinct: "origins_wf inner \<Longrightarrow> distinct (fst (remove_server s inner))"
proof -
  assume "origins_wf inner"
  then have "hm_wf (hm_map_values (hs_remove s) inner)" by (simp add: origins_wf_def)
  then show ?thesis by (simp add: remove_server_def Let_def hm_wf_def distinct_map_filter)
qed

lemma origins_len_card: "origins_wf inner \<Longrightarrow> origins_len inner = card (known_routes inner)"
proof -
  assume wf: "origins_wf inner"
  then have "known_routes inner = {k. hm_get inner k \<noteq> None}"
    using known_routes_iff by blast
  then show ?thesis
    using hm.length_keys [of inner] wf by (simp add: origins_len_def hm_keys_def origins_wf_def)
qed

section \<open>Properties\<close>

text \<open>Adding and removing an origin change the relation between routes and servers by exactly
  that pair and keep the tracker well formed; the flags say whether the route became known
  with its first server and whether it was forgotten with its last.\<close>

theorem tracker_refines:
  assumes "origins_wf inner"
  shows "(fst (add_origin v d h s inner) \<longleftrightarrow> (v, d, h) \<notin> known_routes inner) \<and>
    origins_abs (snd (add_origin v d h s inner)) = insert ((v, d, h), s) (origins_abs inner) \<and>
    origins_wf (snd (add_origin v d h s inner)) \<and>
    (fst (remove_origin v d h s inner) \<longleftrightarrow> (v, d, h) \<in> known_routes inner \<and> (\<forall>s'. ((v, d, h), s') \<in> origins_abs inner \<longrightarrow> s' = s)) \<and>
    origins_abs (snd (remove_origin v d h s inner)) = origins_abs inner - {((v, d, h), s)} \<and>
    origins_wf (snd (remove_origin v d h s inner))"
  by (intro conjI add_origin_first add_origin_abs add_origin_wf remove_origin_last remove_origin_abs
      remove_origin_wf assms)

theorem tracker_refines_witness:
  "origins_abs (snd (remove_origin vni100 net24 hop1 (ServerId 0)
     (snd (add_origin vni100 net24 hop1 (ServerId 1) (snd (add_origin vni100 net24 hop1 (ServerId 0) [])))))) =
   {((vni100, net24, hop1), ServerId 1)}"
proof -
  let ?one = "snd (add_origin vni100 net24 hop1 (ServerId 0) [])"
  let ?two = "snd (add_origin vni100 net24 hop1 (ServerId 1) ?one)"
  have one: "origins_wf ?one" "origins_abs ?one = {((vni100, net24, hop1), ServerId 0)}"
    using tracker_refines [of "[]" vni100 net24 hop1 "ServerId 0"] by simp_all
  then have two: "origins_wf ?two" "origins_abs ?two =
      {((vni100, net24, hop1), ServerId 0), ((vni100, net24, hop1), ServerId 1)}"
    using tracker_refines [of ?one vni100 net24 hop1 "ServerId 1"] by auto
  then show ?thesis using tracker_refines [of ?two vni100 net24 hop1 "ServerId 0"] by auto
qed

text \<open>Dropping a server removes it from every route and reports, each once, exactly the routes
  no other server announces; the size and the listing count the routes that are left.\<close>

theorem remove_server_contract:
  assumes "origins_wf inner"
  shows "distinct (fst (remove_server s inner)) \<and>
    set (fst (remove_server s inner)) =
      {k \<in> known_routes inner. \<forall>s'. (k, s') \<in> origins_abs inner \<longrightarrow> s' = s} \<and>
    origins_abs (snd (remove_server s inner)) = {(k, s'). (k, s') \<in> origins_abs inner \<and> s' \<noteq> s} \<and>
    origins_wf (snd (remove_server s inner)) \<and>
    origins_len (snd (remove_server s inner)) = card (known_routes (snd (remove_server s inner)))"
proof -
  have "set (fst (remove_server s inner)) =
      {k \<in> known_routes inner. \<forall>s'. (k, s') \<in> origins_abs inner \<longrightarrow> s' = s}"
    unfolding remove_server_notified [OF assms] remove_server_abs [OF assms] by force
  then show ?thesis
    by (simp add: remove_server_distinct [OF assms] remove_server_abs [OF assms] remove_server_wf [OF assms]
        origins_len_card [OF remove_server_wf [OF assms]] del: image_iff)
qed

theorem remove_server_contract_witness:
  "set (fst (remove_server (ServerId 0) [((vni100, net24, hop1), [ServerId 0]),
      ((vni200, net24, hop1), [ServerId 0, ServerId 1])])) = {(vni100, net24, hop1)}"
proof -
  let ?t = "[((vni100, net24, hop1), [ServerId 0]), ((vni200, net24, hop1), [ServerId 0, ServerId 1])]"
  have "origins_wf ?t" by (auto simp: origins_wf_def hm_wf_def hm_get_def)
  from remove_server_contract [OF this, of "ServerId 0"] show ?thesis
    by (auto simp: remove_server_def Let_def hm_map_values_def hs_remove_def)
qed

end
