(* ===== verification/Dedup_Handler.thy ===== *)
theory Dedup_Handler
  imports Origin_Tracker
begin

text \<open>
  The deduplicating handler that each server connection of a client calls
  (\<open>DeduplicatingHandler\<close> in \<open>src/src/client.rs\<close>). It updates the shared origin tracker and
  forwards a call to the user's handler when the first server announces a route or the
  last one withdraws it.

  Two models of its concurrency: in the first a tracker update and the call it causes are
  one step; in the second the tracker's lock is released between the two, as the code
  does it, and the connections of several servers interleave.
\<close>

record 'w client_shared =
  cs_origins :: origins
  cs_world :: 'w

definition dedup_add_route ::
    "'w route_handler \<Rightarrow> server_id \<Rightarrow> vni \<Rightarrow> route \<Rightarrow> 'w client_shared \<Rightarrow> 'w client_shared" where
  "dedup_add_route user server vni route sh =
     (case add_origin vni (route_destination route) (route_next_hop route) server (cs_origins sh) of
        (first, inner) \<Rightarrow>
          if first then sh\<lparr>cs_origins := inner, cs_world := rh_add_route user vni route (cs_world sh)\<rparr>
          else sh\<lparr>cs_origins := inner\<rparr>)"

definition dedup_remove_route ::
    "'w route_handler \<Rightarrow> server_id \<Rightarrow> vni \<Rightarrow> route \<Rightarrow> 'w client_shared \<Rightarrow> 'w client_shared" where
  "dedup_remove_route user server vni route sh =
     (case remove_origin vni (route_destination route) (route_next_hop route) server (cs_origins sh) of
        (is_last, inner) \<Rightarrow>
          if is_last then sh\<lparr>cs_origins := inner, cs_world := rh_remove_route user vni route (cs_world sh)\<rparr>
          else sh\<lparr>cs_origins := inner\<rparr>)"

definition dedup_handler :: "'w route_handler \<Rightarrow> server_id \<Rightarrow> 'w client_shared route_handler" where
  "dedup_handler user server =
     \<lparr>rh_add_route = dedup_add_route user server, rh_remove_route = dedup_remove_route user server\<rparr>"

section \<open>Atomic calls: the user sees exactly the known routes\<close>

definition dedup_inv :: "handler_call list client_shared \<Rightarrow> bool" where
  "dedup_inv sh \<longleftrightarrow> origins_wf (cs_origins sh) \<and> calls_effective {} (cs_world sh) \<and>
     calls_view (cs_world sh) = known_routes (cs_origins sh)"

lemma dedup_init: "dedup_inv \<lparr>cs_origins = [], cs_world = []\<rparr>"
  by (simp add: dedup_inv_def calls_view_def)

lemma known_routes_add_origin:
  "known_routes (snd (add_origin v d h s inner)) = insert (v, d, h) (known_routes inner)"
  by (simp add: add_origin_abs)

lemma dedup_add_inv:
  assumes "dedup_inv sh"
  shows "dedup_inv (dedup_add_route recording_handler s v r sh)"
proof -
  let ?k = "(v, route_destination r, route_next_hop r)"
  obtain first inner where
    a: "add_origin v (route_destination r) (route_next_hop r) s (cs_origins sh) = (first, inner)"
    by (cases "add_origin v (route_destination r) (route_next_hop r) s (cs_origins sh)")
  have wf: "origins_wf (cs_origins sh)" using assms by (simp add: dedup_inv_def)
  have "first \<longleftrightarrow> ?k \<notin> known_routes (cs_origins sh)"
    using add_origin_first [OF wf, of v "route_destination r" "route_next_hop r" s] a by simp
  moreover have "known_routes inner = insert ?k (known_routes (cs_origins sh))"
    using known_routes_add_origin [of v "route_destination r" "route_next_hop r" s "cs_origins sh"] a by simp
  moreover have "origins_wf inner"
    using add_origin_wf [OF wf, of v "route_destination r" "route_next_hop r" s] a by simp
  ultimately show ?thesis
    using assms a
    by (simp add: dedup_add_route_def dedup_inv_def recording_handler_def calls_view_snoc
        calls_effective_snoc key_of_def insert_absorb del: image_iff)
qed

lemma dedup_remove_inv:
  assumes "dedup_inv sh"
  shows "dedup_inv (dedup_remove_route recording_handler s v r sh)"
proof -
  let ?k = "(v, route_destination r, route_next_hop r)"
  obtain is_last inner where
    a: "remove_origin v (route_destination r) (route_next_hop r) s (cs_origins sh) = (is_last, inner)"
    by (cases "remove_origin v (route_destination r) (route_next_hop r) s (cs_origins sh)")
  have wf: "origins_wf (cs_origins sh)" using assms by (simp add: dedup_inv_def)
  have "is_last \<longrightarrow> ?k \<in> known_routes (cs_origins sh)"
    using remove_origin_last [OF wf, of v "route_destination r" "route_next_hop r" s] a by simp
  moreover have "known_routes inner =
      (if is_last then known_routes (cs_origins sh) - {?k} else known_routes (cs_origins sh))"
    using known_routes_remove_origin [OF wf, of v "route_destination r" "route_next_hop r" s] a by simp
  moreover have "origins_wf inner"
    using remove_origin_wf [OF wf, of v "route_destination r" "route_next_hop r" s] a by simp
  ultimately show ?thesis
    using assms a
    by (simp add: dedup_remove_route_def dedup_inv_def recording_handler_def calls_view_snoc
        calls_effective_snoc key_of_def del: image_iff)
qed

lemma dedup_add_origins:
  "origins_abs (cs_origins (dedup_add_route user s v r sh)) =
     insert (key_of v r, s) (origins_abs (cs_origins sh))"
proof -
  have "cs_origins (dedup_add_route user s v r sh) =
      snd (add_origin v (route_destination r) (route_next_hop r) s (cs_origins sh))"
    by (simp add: dedup_add_route_def split: prod.split)
  then show ?thesis by (simp add: add_origin_abs key_of_def)
qed

lemma dedup_remove_origins:
  "origins_abs (cs_origins (dedup_remove_route user s v r sh)) =
     origins_abs (cs_origins sh) - {(key_of v r, s)}"
proof -
  have "cs_origins (dedup_remove_route user s v r sh) =
      snd (remove_origin v (route_destination r) (route_next_hop r) s (cs_origins sh))"
    by (simp add: dedup_remove_route_def split: prod.split)
  then show ?thesis by (simp add: remove_origin_abs key_of_def)
qed

text \<open>
  Seen from one server, the deduplicating handler keeps the routes of that server, and
  while it does the user's record stays in step with the union over all servers.
\<close>

interpretation dedup: route_sink "dedup_handler recording_handler s"
    "\<lambda>sh. routes_of s (cs_origins sh)" dedup_inv for s
  by unfold_locales
     (auto simp: dedup_handler_def dedup_add_inv dedup_remove_inv routes_of_def dedup_add_origins
        dedup_remove_origins)

text \<open>The calls of one server leave the routes of the others alone.\<close>

lemma dedup_frame:
  assumes "s' \<noteq> s"
  shows "routes_of s' (cs_origins (dedup_add_route user s v r sh)) = routes_of s' (cs_origins sh)"
    and "routes_of s' (cs_origins (dedup_remove_route user s v r sh)) = routes_of s' (cs_origins sh)"
  using assms by (auto simp: routes_of_def dedup_add_origins dedup_remove_origins)

section \<open>Interleaved calls\<close>

text \<open>
  The tracker's lock protects the tracker only: \<open>add_origin\<close> and \<open>remove_origin\<close> return
  before the user's handler is called. Between the two, the task of a server holds its
  pending call.
\<close>

record dedup_race =
  dr_origins :: origins
  dr_pending :: "server_id \<Rightarrow> handler_call option"
  dr_calls :: "handler_call list"

definition dedup_race_init :: dedup_race where
  "dedup_race_init = \<lparr>dr_origins = [], dr_pending = (\<lambda>_. None), dr_calls = []\<rparr>"

inductive dedup_race_step :: "dedup_race \<Rightarrow> dedup_race \<Rightarrow> bool" where
  race_add:
    "dr_pending st s = None \<Longrightarrow>
     add_origin v (route_destination r) (route_next_hop r) s (dr_origins st) = (first, inner) \<Longrightarrow>
     dedup_race_step st (st\<lparr>dr_origins := inner,
       dr_pending := (dr_pending st)(s := if first then Some (HandlerAdd v r) else None)\<rparr>)"
| race_remove:
    "dr_pending st s = None \<Longrightarrow>
     remove_origin v (route_destination r) (route_next_hop r) s (dr_origins st) = (is_last, inner) \<Longrightarrow>
     dedup_race_step st (st\<lparr>dr_origins := inner,
       dr_pending := (dr_pending st)(s := if is_last then Some (HandlerRemove v r) else None)\<rparr>)"
| race_call:
    "dr_pending st s = Some c \<Longrightarrow>
     dedup_race_step st (st\<lparr>dr_pending := (dr_pending st)(s := None), dr_calls := dr_calls st @ [c]\<rparr>)"

inductive dedup_race_reachable :: "dedup_race \<Rightarrow> bool" where
  race_start: "dedup_race_reachable dedup_race_init"
| race_step: "dedup_race_reachable st \<Longrightarrow> dedup_race_step st st' \<Longrightarrow> dedup_race_reachable st'"

lemma dedup_race_wf: "dedup_race_reachable st \<Longrightarrow> origins_wf (dr_origins st)"
proof (induction rule: dedup_race_reachable.induct)
  case race_start
  show ?case by (simp add: dedup_race_init_def)
next
  case (race_step st st')
  from race_step(2,3) show ?case
  proof (induction rule: dedup_race_step.induct)
    case (race_add st s v r first inner)
    then show ?case
      using add_origin_wf [of "dr_origins st" v "route_destination r" "route_next_hop r" s] by simp
  next
    case (race_remove st s v r is_last inner)
    then show ?case
      using remove_origin_wf [of "dr_origins st" v "route_destination r" "route_next_hop r" s] by simp
  next
    case (race_call st s c)
    then show ?case by simp
  qed
qed

section \<open>Properties\<close>

text \<open>The calls of several connections, in any order, each a step of its own.\<close>

fun dedup_call :: "server_id \<times> handler_call \<Rightarrow> handler_call list client_shared \<Rightarrow> handler_call list client_shared" where
  "dedup_call (s, HandlerAdd v r) sh = rh_add_route (dedup_handler recording_handler s) v r sh"
| "dedup_call (s, HandlerRemove v r) sh = rh_remove_route (dedup_handler recording_handler s) v r sh"

definition dedup_run :: "(server_id \<times> handler_call) list \<Rightarrow> handler_call list client_shared" where
  "dedup_run evs = fold dedup_call evs \<lparr>cs_origins = [], cs_world = []\<rparr>"

definition calls_of :: "server_id \<Rightarrow> (server_id \<times> handler_call) list \<Rightarrow> handler_call list" where
  "calls_of s evs = map snd (filter (\<lambda>(s', c). s' = s) evs)"

lemma dedup_call_view:
  assumes "dedup_inv sh"
  shows "routes_of s (cs_origins (dedup_call (s', c) sh)) =
    (if s = s' then (case call_update c of (a, k) \<Rightarrow> apply_action a k (routes_of s (cs_origins sh)))
     else routes_of s (cs_origins sh))"
proof (cases "s = s'")
  case True
  then show ?thesis
    by (cases c) (auto simp: dedup_handler_def routes_of_def dedup_add_origins dedup_remove_origins)
next
  case False
  then show ?thesis using dedup_frame [of s s'] by (cases c) (simp_all add: dedup_handler_def)
qed

lemma dedup_call_inv: "dedup_inv sh \<Longrightarrow> dedup_inv (dedup_call e sh)"
  by (cases "(e, sh)" rule: dedup_call.cases) (auto simp: dedup_handler_def dedup_add_inv dedup_remove_inv)

lemma dedup_run_inv:
  "dedup_inv (dedup_run evs) \<and> routes_of s (cs_origins (dedup_run evs)) = calls_view (calls_of s evs)"
proof (induction evs rule: rev_induct)
  case Nil
  then show ?case by (simp add: dedup_run_def dedup_init routes_of_def calls_of_def calls_view_def)
next
  case (snoc e evs)
  obtain s' c where e: "e = (s', c)" by (cases e)
  have "dedup_run (evs @ [e]) = dedup_call e (dedup_run evs)" by (simp add: dedup_run_def)
  moreover have "calls_of s (evs @ [e]) = calls_of s evs @ (if s = s' then [c] else [])"
    by (simp add: calls_of_def e)
  ultimately show ?case
    using snoc dedup_call_view [of "dedup_run evs" s s' c] dedup_call_inv [of "dedup_run evs" e]
    by (cases "s = s'") (simp_all add: e calls_view_snoc)
qed

text \<open>Whatever the connections to several servers report, one call after the other, the user's
  handler is told of a route exactly once when it becomes known and once when no server has
  it any more; what it has been told is the union of what each server's connection reported.\<close>

theorem dedup_mirrors_union:
  "calls_effective {} (cs_world (dedup_run evs)) \<and>
   calls_view (cs_world (dedup_run evs)) = (\<Union>s. calls_view (calls_of s evs))"
proof -
  have inv: "dedup_inv (dedup_run evs)" using dedup_run_inv by blast
  have "(\<Union>s. calls_view (calls_of s evs)) = (\<Union>s. routes_of s (cs_origins (dedup_run evs)))"
    using dedup_run_inv [of evs] by simp
  also have "\<dots> = known_routes (cs_origins (dedup_run evs))" by (force simp: routes_of_def)
  finally show ?thesis using inv by (simp add: dedup_inv_def)
qed

text \<open>C35: when the calls of two connections interleave after the tracker's lock is released, the
  user can end up not knowing of a route that a server announces: the removal for the first
  server is delivered after the addition for the second.\<close>

theorem dedup_race_loses_route:
  "\<exists>st. dedup_race_reachable st \<and> (\<forall>s. dr_pending st s = None) \<and>
     known_routes (dr_origins st) = {(vni100, net24, hop1)} \<and> calls_view (dr_calls st) = {}"
proof -
  let ?r = "route_new net24 hop1" and ?k = "(vni100, net24, hop1)"
  let ?add = "HandlerAdd vni100 ?r" and ?rem = "HandlerRemove vni100 ?r"
  let ?s0 = "ServerId 0" and ?s1 = "ServerId 1"
  define st where "st inner p0 p1 calls = \<lparr>dr_origins = inner,
    dr_pending = (\<lambda>_. None)(?s0 := p0, ?s1 := p1), dr_calls = calls\<rparr>" for inner p0 p1 calls
  note origin_defs = add_origin_def remove_origin_def hm_or_default_def hm_get_def hm_insert_def
    hm_remove_def hs_insert_def hs_remove_def Let_def
  have start: "st [] None None [] = dedup_race_init"
    by (simp add: st_def dedup_race_init_def fun_eq_iff)
  have 1: "dedup_race_step (st [] None None []) (st [(?k, [?s0])] (Some ?add) None [])"
    using race_add [of "st [] None None []" ?s0 vni100 ?r True "[(?k, [?s0])]"]
    by (simp add: st_def origin_defs fun_upd_twist)
  have 2: "dedup_race_step (st [(?k, [?s0])] (Some ?add) None []) (st [(?k, [?s0])] None None [?add])"
    using race_call [of "st [(?k, [?s0])] (Some ?add) None []" ?s0 ?add]
    by (simp add: st_def fun_upd_twist)
  have 3: "dedup_race_step (st [(?k, [?s0])] None None [?add]) (st [] (Some ?rem) None [?add])"
    using race_remove [of "st [(?k, [?s0])] None None [?add]" ?s0 vni100 ?r True "[]"]
    by (simp add: st_def origin_defs fun_upd_twist)
  have 4: "dedup_race_step (st [] (Some ?rem) None [?add]) (st [(?k, [?s1])] (Some ?rem) (Some ?add) [?add])"
    using race_add [of "st [] (Some ?rem) None [?add]" ?s1 vni100 ?r True "[(?k, [?s1])]"]
    by (simp add: st_def origin_defs)
  have 5: "dedup_race_step (st [(?k, [?s1])] (Some ?rem) (Some ?add) [?add])
      (st [(?k, [?s1])] (Some ?rem) None [?add, ?add])"
    using race_call [of "st [(?k, [?s1])] (Some ?rem) (Some ?add) [?add]" ?s1 ?add]
    by (simp add: st_def)
  have 6: "dedup_race_step (st [(?k, [?s1])] (Some ?rem) None [?add, ?add])
      (st [(?k, [?s1])] None None [?add, ?add, ?rem])"
    using race_call [of "st [(?k, [?s1])] (Some ?rem) None [?add, ?add]" ?s0 ?rem]
    by (simp add: st_def fun_upd_twist)
  have "dedup_race_reachable (st [(?k, [?s1])] None None [?add, ?add, ?rem])"
    by (metis start 1 2 3 4 5 6 race_start race_step)
  moreover have "known_routes [(?k, [?s1])] = {?k}"
    by (force simp: origins_abs_def hm_get_def split: if_splits)
  moreover have "calls_view [?add, ?add, ?rem] = {}" by (simp add: calls_view_def)
  ultimately show ?thesis
    by (intro exI [of _ "st [(?k, [?s1])] None None [?add, ?add, ?rem]"]) (simp add: st_def)
qed

end
