(* ===== verification/Client.thy ===== *)
theory Client
  imports Peer Dedup_Handler
begin

text \<open>
  The client (\<open>MetalBondClient\<close> in \<open>src/src/client.rs\<close>): one peer task for each server, the
  state they share, and the calls of the user. A call that sends a command to a peer puts it
  into the peer's queue; the task takes it out in a step of its own. A full queue makes the
  caller wait, which is not visible here; a task that has ended makes the send fail.
\<close>

section \<open>State\<close>

datatype client_state = FullyConnected | PartiallyConnected nat nat | Disconnected | ClientClosed

record 'w peer_conn =
  pc_task :: "'w client_shared peer_task"
  pc_queue :: "peer_command list"

record 'w client =
  cl_peers :: "(server_id, 'w peer_conn) hash_map"
  cl_shared :: "'w client_shared"
  cl_subscriptions :: "vni hash_set"
  cl_announced :: route_table
  cl_addrs :: "(server_id, string) hash_map"

definition get_state :: "'w peer_conn \<Rightarrow> connection_state" where
  "get_state p = pt_state (pc_task p)"

text \<open>\<open>connect\<close>; \<open>None\<close> is the panic of its assertion.\<close>

definition client_connect :: "string list \<Rightarrow> 'w \<Rightarrow> 'w client option" where
  "client_connect servers w =
     (if servers = [] then None
      else
        let shared = \<lparr>cs_origins = [], cs_world = w\<rparr>;
            ids = map ServerId [0..<length servers]
        in Some \<lparr>cl_peers = map (\<lambda>s. (s, \<lparr>pc_task = peer_new shared, pc_queue = []\<rparr>)) ids,
                 cl_shared = shared, cl_subscriptions = [], cl_announced = rt_new,
                 cl_addrs = zip ids servers\<rparr>)"

section \<open>Connection states\<close>

definition client_state_of :: "'w client \<Rightarrow> client_state" where
  "client_state_of c =
     (let states = map (\<lambda>(s, p). get_state p) (cl_peers c);
          connected = length (filter (\<lambda>st. st = Established) states);
          any_closed = (ConnClosed \<in> set states)
      in if any_closed \<and> connected = 0 then ClientClosed
         else if connected = 0 then Disconnected
         else if connected = length (cl_peers c) then FullyConnected
         else PartiallyConnected connected (length (cl_peers c)))"

definition is_established :: "'w client \<Rightarrow> bool" where
  "is_established c \<longleftrightarrow> list_ex (\<lambda>(s, p). get_state p = Established) (cl_peers c)"

definition server_states :: "'w client \<Rightarrow> (server_id \<times> connection_state) list" where
  "server_states c = map (\<lambda>(s, p). (s, get_state p)) (cl_peers c)"

definition server_count :: "'w client \<Rightarrow> nat" where
  "server_count c = length (cl_peers c)"

definition connected_count :: "'w client \<Rightarrow> nat" where
  "connected_count c = length (filter (\<lambda>(s, p). get_state p = Established) (cl_peers c))"

definition server_addr :: "server_id \<Rightarrow> 'w client \<Rightarrow> string option" where
  "server_addr s c = hm_get (cl_addrs c) s"

text \<open>
  The waiting calls look at the states whenever one of them changes. A wake-up says whether
  the state that changed still has a sender, and the states then; \<open>None\<close> is a call that is
  still waiting after the given wake-ups.
\<close>

fun wait_any_established :: "connection_state list \<Rightarrow> (bool \<times> connection_state list) list \<Rightarrow> (error + unit) option" where
  "wait_any_established states wakes =
     (if Established \<in> set states then Some (Inr ())
      else if list_all (\<lambda>st. st = ConnClosed) states then Some (Inl EClosed)
      else case wakes of
        [] \<Rightarrow> None
      | (changed_ok, states') # wakes' \<Rightarrow>
          if \<not> changed_ok \<and> list_all (\<lambda>st. st = ConnClosed) states' then Some (Inl EClosed)
          else wait_any_established states' wakes')"

fun wait_all_established :: "connection_state list \<Rightarrow> (bool \<times> connection_state list) list \<Rightarrow> (error + unit) option" where
  "wait_all_established states wakes =
     (let any_closed = (ConnClosed \<in> set states);
          all_established = list_all (\<lambda>st. st = Established \<or> st = ConnClosed) states
      in if all_established \<and> \<not> any_closed then Some (Inr ())
         else if any_closed then Some (Inl EClosed)
         else case wakes of
           [] \<Rightarrow> None
         | (changed_ok, states') # wakes' \<Rightarrow>
             if \<not> changed_ok \<and> ConnClosed \<in> set states' then Some (Inl EClosed)
             else wait_all_established states' wakes')"

declare wait_any_established.simps [simp del] wait_all_established.simps [simp del]

text \<open>The variants with a timeout; the wake-ups are those before the time is up.\<close>

fun with_timeout :: "error \<Rightarrow> (error + unit) option \<Rightarrow> error + unit" where
  "with_timeout e None = Inl e"
| "with_timeout e (Some r) = r"

definition wait_established_timeout :: "connection_state list \<Rightarrow> (bool \<times> connection_state list) list \<Rightarrow> error + unit" where
  "wait_established_timeout states wakes = with_timeout ETimeout (wait_any_established states wakes)"

definition wait_any_established_timeout :: "connection_state list \<Rightarrow> (bool \<times> connection_state list) list \<Rightarrow> error + unit" where
  "wait_any_established_timeout states wakes = with_timeout EConnectionTimeout (wait_any_established states wakes)"

definition wait_all_established_timeout :: "connection_state list \<Rightarrow> (bool \<times> connection_state list) list \<Rightarrow> error + unit" where
  "wait_all_established_timeout states wakes = with_timeout EConnectionTimeout (wait_all_established states wakes)"

section \<open>Commands to the peers\<close>

definition peer_send :: "peer_command \<Rightarrow> 'w peer_conn \<Rightarrow> (error + unit) \<times> 'w peer_conn" where
  "peer_send cmd p =
     (if pt_phase (pc_task p) = AtEnd \<or> pt_phase (pc_task p) = AtPanic then (Inl EClosed, p)
      else (Inr (), p\<lparr>pc_queue := pc_queue p @ [cmd]\<rparr>))"

text \<open>The loop over the peers; \<open>only\<close> is the guard on a peer's state. It says whether any send succeeded.\<close>

fun send_peers ::
    "(connection_state \<Rightarrow> bool) \<Rightarrow> peer_command \<Rightarrow> (server_id, 'w peer_conn) hash_map \<Rightarrow>
     bool \<times> (server_id, 'w peer_conn) hash_map" where
  "send_peers only cmd [] = (False, [])"
| "send_peers only cmd ((s, p) # ps) =
     (case send_peers only cmd ps of
        (sent_any, ps') \<Rightarrow>
          if only (get_state p) then
            (case peer_send cmd p of
               (Inl e, p') \<Rightarrow> (sent_any, (s, p') # ps')
             | (Inr _, p') \<Rightarrow> (True, (s, p') # ps'))
          else (sent_any, (s, p) # ps'))"

definition client_subscribe :: "vni \<Rightarrow> 'w client \<Rightarrow> (error + unit) \<times> 'w client" where
  "client_subscribe vni c =
     (let c1 = c\<lparr>cl_subscriptions := hs_insert vni (cl_subscriptions c)\<rparr>;
          (sent_any, peers) = send_peers (\<lambda>st. st = Established) (PeerSubscribe vni) (cl_peers c1);
          c2 = c1\<lparr>cl_peers := peers\<rparr>
      in if \<not> sent_any then (Inl ENotEstablished, c2) else (Inr (), c2))"

definition client_unsubscribe :: "vni \<Rightarrow> 'w client \<Rightarrow> (error + unit) \<times> 'w client" where
  "client_unsubscribe vni c =
     (let c1 = c\<lparr>cl_subscriptions := hs_remove vni (cl_subscriptions c)\<rparr>;
          (sent_any, peers) = send_peers (\<lambda>_. True) (PeerUnsubscribe vni) (cl_peers c1)
      in (Inr (), c1\<lparr>cl_peers := peers\<rparr>))"

definition client_announce :: "vni \<Rightarrow> destination \<Rightarrow> next_hop \<Rightarrow> 'w client \<Rightarrow> (error + unit) \<times> 'w client" where
  "client_announce vni destination next_hop c =
     (if next_hop_exists vni destination next_hop (cl_announced c) then (Inl ERouteAlreadyAnnounced, c)
      else
        let c1 = c\<lparr>cl_announced := snd (add_next_hop vni destination next_hop (cl_announced c))\<rparr>;
            (sent_any, peers) = send_peers (\<lambda>st. st = Established)
              (PeerSendUpdate (MsgUpdate Add vni destination next_hop)) (cl_peers c1);
            c2 = c1\<lparr>cl_peers := peers\<rparr>
        in if \<not> sent_any then (Inl ENotEstablished, c2) else (Inr (), c2))"

definition client_withdraw :: "vni \<Rightarrow> destination \<Rightarrow> next_hop \<Rightarrow> 'w client \<Rightarrow> (error + unit) \<times> 'w client" where
  "client_withdraw vni destination next_hop c =
     (if \<not> next_hop_exists vni destination next_hop (cl_announced c) then (Inl ERouteNotFound, c)
      else
        let c1 = c\<lparr>cl_announced := snd (remove_next_hop vni destination next_hop (cl_announced c))\<rparr>;
            (sent_any, peers) = send_peers (\<lambda>_. True)
              (PeerSendUpdate (MsgUpdate Remove vni destination next_hop)) (cl_peers c1)
        in (Inr (), c1\<lparr>cl_peers := peers\<rparr>))"

definition client_shutdown :: "'w client \<Rightarrow> 'w client" where
  "client_shutdown c = c\<lparr>cl_peers := snd (send_peers (\<lambda>_. True) PeerShutdown (cl_peers c))\<rparr>"

section \<open>Routes\<close>

definition get_received_routes :: "vni \<Rightarrow> 'w client \<Rightarrow> route list" where
  "get_received_routes vni c =
     map (\<lambda>((v, dest, hop), servers). route_new dest hop)
       (filter (\<lambda>((v, dest, hop), servers). v = vni) (origins_get_all (cs_origins (cl_shared c))))"

definition get_announced_routes :: "'w client \<Rightarrow> (vni \<times> route) list" where
  "get_announced_routes c = get_all_routes (cl_announced c)"

definition route_count :: "'w client \<Rightarrow> nat" where
  "route_count c = origins_len (cs_origins (cl_shared c))"

definition is_route_table_empty :: "'w client \<Rightarrow> bool" where
  "is_route_table_empty c \<longleftrightarrow> origins_is_empty (cs_origins (cl_shared c))"

definition get_route_servers :: "vni \<Rightarrow> destination \<Rightarrow> next_hop \<Rightarrow> 'w client \<Rightarrow> server_id hash_set option" where
  "get_route_servers vni dest hop c = get_servers vni dest hop (cs_origins (cl_shared c))"

definition remove_server_routes ::
    "'w route_handler \<Rightarrow> server_id \<Rightarrow> 'w client \<Rightarrow> route list \<times> 'w client" where
  "remove_server_routes user server c =
     (case remove_server server (cs_origins (cl_shared c)) of
        (removed, origins) \<Rightarrow>
          (map (\<lambda>(vni, dest, hop). route_new dest hop) removed,
           c\<lparr>cl_shared := \<lparr>cs_origins = origins,
               cs_world = fold (\<lambda>(vni, dest, hop) w. rh_remove_route user vni (route_new dest hop) w)
                 removed (cs_world (cl_shared c))\<rparr>\<rparr>))"

section \<open>Steps\<close>

text \<open>
  A step of one peer's task: it acts on the shared state through the deduplicating handler
  of its server, takes its commands from its queue, and announces the client's routes as
  they are when it establishes a connection.
\<close>

fun takes_command :: "peer_event \<Rightarrow> peer_command list \<Rightarrow> peer_command list option" where
  "takes_command (PeerCommand cmd) queue =
     (case queue of [] \<Rightarrow> None | c # cs \<Rightarrow> if c = cmd then Some cs else None)"
| "takes_command _ queue = Some queue"

fun sees_announced :: "peer_event \<Rightarrow> route_table \<Rightarrow> bool" where
  "sees_announced (KeepaliveRead read announced now) rt \<longleftrightarrow> announced = rt"
| "sees_announced _ rt \<longleftrightarrow> True"

definition client_peer_step ::
    "externals \<Rightarrow> 'w route_handler \<Rightarrow> server_id \<Rightarrow> peer_event \<Rightarrow> 'w client \<Rightarrow> 'w client option" where
  "client_peer_step x user s ev c =
     Option.bind (hm_get (cl_peers c) s) (\<lambda>p.
       Option.bind (takes_command ev (pc_queue p)) (\<lambda>queue.
         if \<not> sees_announced ev (cl_announced c) then None
         else map_option
           (\<lambda>t. c\<lparr>cl_peers := hm_insert s \<lparr>pc_task = t, pc_queue = queue\<rparr> (cl_peers c), cl_shared := pt_world t\<rparr>)
           (peer_step x (dedup_handler user s) ev ((pc_task p)\<lparr>pt_world := cl_shared c\<rparr>))))"

datatype client_event =
    PeerEvent server_id peer_event
  | CallSubscribe vni
  | CallUnsubscribe vni
  | CallAnnounce vni destination next_hop
  | CallWithdraw vni destination next_hop
  | CallRemoveServerRoutes server_id
  | CallShutdown

fun client_step :: "externals \<Rightarrow> 'w route_handler \<Rightarrow> client_event \<Rightarrow> 'w client \<Rightarrow> 'w client option" where
  "client_step x user (PeerEvent s ev) c = client_peer_step x user s ev c"
| "client_step x user (CallSubscribe v) c = Some (snd (client_subscribe v c))"
| "client_step x user (CallUnsubscribe v) c = Some (snd (client_unsubscribe v c))"
| "client_step x user (CallAnnounce v d h) c = Some (snd (client_announce v d h c))"
| "client_step x user (CallWithdraw v d h) c = Some (snd (client_withdraw v d h c))"
| "client_step x user (CallRemoveServerRoutes s) c = Some (snd (remove_server_routes user s c))"
| "client_step x user CallShutdown c = Some (client_shutdown c)"

fun client_run :: "externals \<Rightarrow> 'w route_handler \<Rightarrow> client_event list \<Rightarrow> 'w client \<Rightarrow> 'w client option" where
  "client_run x user [] c = Some c"
| "client_run x user (e # es) c = Option.bind (client_step x user e c) (client_run x user es)"

end
