(* ===== verification/Peer_Properties.thy ===== *)
theory Peer_Properties
  imports Peer Proto3_Reference
begin

text \<open>The properties of a client's connection to one server.\<close>

section \<open>The handshake\<close>

lemma keepalive_duration_0 [simp]: "keepalive_duration n = 0 \<longleftrightarrow> n = 0"
  by (simp add: keepalive_duration_def unat_eq_0)

text \<open>What is written when the connection is established.\<close>

definition handshake_messages :: "'w peer_task \<Rightarrow> route_table \<Rightarrow> message list" where
  "handshake_messages t announced =
     [MsgHello DEFAULT_KEEPALIVE_INTERVAL False, MsgKeepalive] @ map MsgSubscribe (pt_subs t) @
     map announce_message (get_all_routes announced)"

definition established :: "externals \<Rightarrow> u32 \<Rightarrow> route_table \<Rightarrow> nat \<Rightarrow> nat \<Rightarrow> 'w peer_task \<Rightarrow> 'w peer_task" where
  "established x k announced budget now t =
     t\<lparr>pt_state := Established,
       pt_stream := \<lparr>ts_written = wire_bytes x (handshake_messages t announced),
                     ts_budget = budget - length (handshake_messages t announced)\<rparr>,
       pt_phase := (if k = 0 then AtPanic
                    else AtLoop (negotiated_keepalive DEFAULT_KEEPALIVE_INTERVAL k) now [])\<rparr>"

lemma negotiated_keepalive_0: "negotiated_keepalive DEFAULT_KEEPALIVE_INTERVAL k = 0 \<longleftrightarrow> k = 0"
  by (auto simp: negotiated_keepalive_def DEFAULT_KEEPALIVE_INTERVAL_def min_def)

context externals_ok
begin

lemma conn_send_ok:
  "conn_send x h ms go_on t =
     (if ts_budget (pt_stream t) < length ms
      then connection_ended h (t\<lparr>pt_stream := \<lparr>ts_written = ts_written (pt_stream t) @
             wire_bytes x (take (ts_budget (pt_stream t)) ms), ts_budget = 0\<rparr>\<rparr>)
      else go_on (t\<lparr>pt_stream := \<lparr>ts_written = ts_written (pt_stream t) @ wire_bytes x ms,
             ts_budget = ts_budget (pt_stream t) - length ms\<rparr>\<rparr>))"
  by (cases "pt_stream t") (simp add: conn_send_def send_all_ok)

lemma handshake_run:
  assumes "pt_phase t = AtConnect" and "receive_hello x hello = Inr (Some (k, s))"
    and "receive_message_with_timeout x reply = Inr MsgKeepalive"
    and "length (handshake_messages t announced) \<le> budget"
  shows "peer_run x h [ConnectOk budget, HelloRead hello, KeepaliveRead reply announced now] t =
    Some (established x k announced budget now t)"
proof -
  let ?keep = "negotiated_keepalive DEFAULT_KEEPALIVE_INTERVAL k"
  have budget: "2 \<le> budget" "length (pt_subs t) \<le> budget - 2"
    "length (get_all_routes announced) \<le> budget - 2 - length (pt_subs t)"
    using assms(4) by (simp_all add: handshake_messages_def)
  show ?thesis
    using budget assms
    by (simp add: peer_step_def conn_start_def conn_hello_def conn_keepalive_def conn_send_ok
        established_def negotiated_keepalive_0 handshake_messages_def not_less diff_diff_add)
qed

text \<open>The bytes of a message are read back by the single reads of the handshake.\<close>

lemma receive_hello_bytes:
  "receive_hello x (Inr (wire_bytes x [MsgHello k s])) = Inr (Some (k, s))"
proof -
  obtain b where b: "message_encode x (MsgHello k s) = Inr b" using message_encode_total by blast
  have "b \<noteq> []" using message_encode_length [OF b] by auto
  with message_roundtrip [OF _ b, of "[]"] b show ?thesis by (simp add: receive_hello_def)
qed

lemma receive_keepalive_bytes:
  "receive_message_with_timeout x (Some (Inr (wire_bytes x [MsgKeepalive]))) = Inr MsgKeepalive"
proof -
  obtain b where b: "message_encode x MsgKeepalive = Inr b" using message_encode_total by blast
  have "b \<noteq> []" using message_encode_length [OF b] by auto
  with message_roundtrip [OF _ b, of "[]"] b show ?thesis by (simp add: receive_message_with_timeout_def)
qed

end

section \<open>Properties\<close>

text \<open>C11: in every state the task of a peer reaches, whatever the network delivers and whenever it
  breaks, the state it shows is that of its phase, and its handler has been told, with no
  superfluous call, exactly the routes the task holds; it holds none unless the connection is
  established or was shut down.\<close>

theorem peer_handler_mirrors:
  assumes "peer_run x recording_handler es (peer_new []) = Some t"
  shows "pt_state t = phase_state (pt_phase t) \<and>
    calls_effective {} (pt_world t) \<and> calls_view (pt_world t) = rt_abs (pt_received t) \<and>
    (holds_routes (pt_phase t) \<or> rt_abs (pt_received t) = {})"
proof -
  have "peer_inv calls_view (calls_effective {}) (peer_new [])"
    by (rule recorded.new_inv) (simp_all add: calls_view_def)
  from recorded.run_inv [OF this assms] show ?thesis
    by (auto simp: peer_inv_def handler_in_step_def)
qed

theorem peer_handler_mirrors_witness:
  "\<exists>t. peer_run reference_externals recording_handler [ConnectOk 1, HelloRead (Inr []), RetryElapsed] (peer_new []) = Some t \<and>
     pt_state t = Connecting \<and> calls_view (pt_world t) = {}"
proof -
  define t :: "handler_call list peer_task" where
    "t = (peer_new [])\<lparr>pt_stream := \<lparr>ts_written = wire_bytes reference_externals
       [MsgHello DEFAULT_KEEPALIVE_INTERVAL False], ts_budget = 0\<rparr>\<rparr>"
  have "peer_run reference_externals recording_handler [ConnectOk 1, HelloRead (Inr []), RetryElapsed] (peer_new []) = Some t"
    by (simp add: peer_new_def peer_step_def conn_start_def reference.conn_send_ok conn_hello_def
        receive_hello_def connection_ended_def get_all_routes_def rt_new_def rt_clear_def t_def)
  with peer_handler_mirrors [OF this] show ?thesis
    by (intro exI [of _ t]) (simp add: t_def peer_new_def)
qed

text \<open>Decoding and handling the messages of a buffer one by one, as the read loop does, is
  cutting the buffer into messages and handling these in order.\<close>

theorem process_buffer_is_framing:
  "process_buffer x h buf s =
     (case frames (message_decode x) need_more_data buf of
        (ms, rest, e) \<Rightarrow> (e, rest, fold (peer_handle_message h) ms s))"
  by (rule process_buffer_frames)

text \<open>How the network splits the data of a connection into reads makes no difference: two
  reads leave the task as one read of the same bytes does.\<close>

theorem peer_reads_compose:
  assumes "c1 \<noteq> []" and "c2 \<noteq> []"
    and "conn_data x h n buf (Inr c1) now1 t = t1" and "pt_phase t1 = AtLoop n now1 buf1"
    and "pt_phase t = AtLoop n last_received buf"
  shows "conn_data x h n buf1 (Inr c2) now2 t1 = conn_data x h n buf (Inr (c1 @ c2)) now2 t"
proof -
  obtain ms rest e where f: "frames (message_decode x) need_more_data (buf @ c1) = (ms, rest, e)"
    by (metis prod_cases3)
  have "e = None"
    using assms f
    by (cases e) (auto simp: conn_data_def process_buffer_frames connection_ended_def split: if_splits prod.splits)
  with assms f have t1: "buf1 = rest"
    "t1 = t\<lparr>pt_received := fst (fold (peer_handle_message h) ms (pt_received t, pt_world t)),
            pt_world := snd (fold (peer_handle_message h) ms (pt_received t, pt_world t)),
            pt_phase := AtLoop n now1 rest\<rparr>"
    by (auto simp: conn_data_def process_buffer_frames split: prod.splits)
  have "frames (message_decode x) need_more_data (buf @ c1 @ c2) =
      (case frames (message_decode x) need_more_data (rest @ c2) of (ms', rest', e) \<Rightarrow> (ms @ ms', rest', e))"
    using wire_frames.frames_append [of x "buf @ c1" ms rest c2] f \<open>e = None\<close> by simp
  with assms(1,2) t1 show ?thesis
    by (auto simp: conn_data_def process_buffer_frames connection_ended_def split: prod.splits option.splits)
qed

theorem peer_reads_compose_witness:
  "\<exists>t. pt_phase t = AtLoop 5 0 [] \<and>
     conn_data reference_externals recording_handler 5 [1] (Inr [0, 0, 2]) 2
       (conn_data reference_externals recording_handler 5 [] (Inr [1]) 1 t) =
     conn_data reference_externals recording_handler 5 [] (Inr ([1] @ [0, 0, 2])) 2 t"
proof -
  define t where "t = (peer_new [] :: handler_call list peer_task)\<lparr>pt_phase := AtLoop 5 0 []\<rparr>"
  define t1 where "t1 = conn_data reference_externals recording_handler 5 [] (Inr [1]) 1 t"
  have "pt_phase t1 = AtLoop 5 1 [1]"
    by (simp add: t1_def t_def conn_data_def process_buffer.simps [of _ _ "[1]"] message_decode_short sublist_code)
  then have "conn_data reference_externals recording_handler 5 [1] (Inr [0, 0, 2]) 2 t1 =
      conn_data reference_externals recording_handler 5 [] (Inr ([1] @ [0, 0, 2])) 2 t"
    by (intro peer_reads_compose [where t = t and ?now1.0 = 1 and last_received = 0]) (simp_all add: t1_def t_def)
  then show ?thesis by (intro exI [of _ t]) (simp add: t1_def, simp add: t_def)
qed

text \<open>C17: when the handshake succeeds on a connection that takes the writes, the server can cut
  from its bytes, in this order, the HELLO, the KEEPALIVE, a SUBSCRIBE for every VNI the task
  is subscribed to and an announcement of every route of the client: after a reconnection
  the server learns everything again.\<close>

theorem handshake_resynchronises:
  assumes "externals_ok x" and "pt_phase t = AtConnect"
    and "receive_hello x hello = Inr (Some (k, s))" and "receive_message_with_timeout x reply = Inr MsgKeepalive"
    and "length (handshake_messages t announced) \<le> budget"
    and "\<forall>e \<in> set (get_all_routes announced). destination_valid (route_destination (snd e))"
  shows "\<exists>t'. peer_run x h [ConnectOk budget, HelloRead hello, KeepaliveRead reply announced now] t = Some t' \<and>
    pt_state t' = Established \<and> pt_received t' = pt_received t \<and> pt_world t' = pt_world t \<and>
    frames (message_decode x) need_more_data (ts_written (pt_stream t')) =
      (map message_canon (handshake_messages t announced), [], None)"
proof -
  have "\<forall>m \<in> set (handshake_messages t announced). message_valid m"
    using assms(6) by (auto simp: handshake_messages_def announce_message_def split: prod.splits)
  from externals_ok.frames_wire_bytes [OF assms(1) this] externals_ok.handshake_run [OF assms(1-5), where now = now and h = h]
  show ?thesis by (simp add: established_def)
qed

theorem handshake_resynchronises_witness:
  "\<exists>t'. peer_run reference_externals recording_handler
       [ConnectOk 4, HelloRead (Inr (wire_bytes reference_externals [MsgHello 5 True])),
        KeepaliveRead (Some (Inr (wire_bytes reference_externals [MsgKeepalive]))) (rt_run [(Add, vni100, net24, hop1)]) 0]
       ((peer_new [])\<lparr>pt_subs := [vni200]\<rparr>) = Some t' \<and> pt_state t' = Established"
proof -
  have all: "get_all_routes (rt_run [(Add, vni100, net24, hop1)]) = [(vni100, route_new net24 hop1)]"
    by (simp add: rt_run_def rt_new_def add_next_hop_def hm_or_default_def hm_insert_def hs_insert_def
        get_all_routes_def Let_def)
  show ?thesis
    using handshake_resynchronises [OF reference.externals_ok_axioms _ reference.receive_hello_bytes [of 5 True]
        reference.receive_keepalive_bytes, where t = "(peer_new [])\<lparr>pt_subs := [vni200]\<rparr>" and
        announced = "rt_run [(Add, vni100, net24, hop1)]" and budget = 4 and h = recording_handler]
    by (auto simp: peer_new_def handshake_messages_def all simp del: wire_bytes_simps peer_run.simps)
qed

text \<open>C37: a server that offers a keepalive interval of 0 kills the task: the timer panics after the
  handshake, and the connection then shows as established for ever, deaf to every event.\<close>

theorem zero_keepalive_kills_task:
  assumes "externals_ok x" and "pt_phase t = AtConnect"
    and "receive_hello x hello = Inr (Some (0, s))" and "receive_message_with_timeout x reply = Inr MsgKeepalive"
    and "length (handshake_messages t announced) \<le> budget"
  shows "\<exists>t'. peer_run x h [ConnectOk budget, HelloRead hello, KeepaliveRead reply announced now] t = Some t' \<and>
    pt_phase t' = AtPanic \<and> pt_state t' = Established \<and> (\<forall>ev. peer_step x h ev t' = None)"
  using externals_ok.handshake_run [OF assms(1-5), where now = now and h = h]
  by (auto simp: established_def peer_step_def)

theorem zero_keepalive_kills_task_witness:
  "\<exists>t'. peer_run reference_externals recording_handler
       [ConnectOk 2, HelloRead (Inr (wire_bytes reference_externals [MsgHello 0 True])),
        KeepaliveRead (Some (Inr (wire_bytes reference_externals [MsgKeepalive]))) rt_new 0]
       (peer_new []) = Some t' \<and> pt_phase t' = AtPanic"
  using zero_keepalive_kills_task [OF reference.externals_ok_axioms _ reference.receive_hello_bytes [of 0 True]
      reference.receive_keepalive_bytes, where t = "peer_new []" and announced = rt_new and budget = 2
      and h = recording_handler and now = 0]
  by (auto simp: peer_new_def handshake_messages_def rt_new_def get_all_routes_def
      simp del: wire_bytes_simps peer_run.simps)

text \<open>An unsubscription that reaches the task while it waits to retry is lost: the VNI stays
  among its subscriptions, and the next connection subscribes to it again.\<close>

theorem unsubscribe_lost_in_retry:
  assumes "externals_ok x" and "pt_phase t = AtRetry" and "v \<in> set (pt_subs t)"
    and "receive_hello x hello = Inr (Some (k, s))" and "receive_message_with_timeout x reply = Inr MsgKeepalive"
    and "length (handshake_messages t announced) \<le> budget"
    and "\<forall>e \<in> set (get_all_routes announced). destination_valid (route_destination (snd e))"
  shows "\<exists>t'. peer_run x h [PeerCommand (PeerUnsubscribe v), ConnectOk budget, HelloRead hello,
       KeepaliveRead reply announced now] t = Some t' \<and>
    v \<in> set (pt_subs t') \<and>
    MsgSubscribe v \<in> set (fst (frames (message_decode x) need_more_data (ts_written (pt_stream t'))))"
proof -
  let ?t = "t\<lparr>pt_state := Connecting, pt_phase := AtConnect\<rparr>"
  have msgs: "handshake_messages ?t announced = handshake_messages t announced"
    by (simp add: handshake_messages_def)
  have "peer_step x h (PeerCommand (PeerUnsubscribe v)) t = Some ?t"
    using assms(2) by (simp add: peer_step_def)
  moreover have "peer_run x h [ConnectOk budget, HelloRead hello, KeepaliveRead reply announced now] ?t =
      Some (established x k announced budget now ?t)"
    by (rule externals_ok.handshake_run [OF assms(1) _ assms(4,5)]) (use assms(6) msgs in simp_all)
  moreover have "\<forall>m \<in> set (handshake_messages t announced). message_valid m"
    using assms(7) by (auto simp: handshake_messages_def announce_message_def split: prod.splits)
  from externals_ok.frames_wire_bytes [OF assms(1) this] assms(3) msgs
  have "MsgSubscribe v \<in> set (fst (frames (message_decode x) need_more_data
      (ts_written (pt_stream (established x k announced budget now ?t)))))"
    by (force simp: established_def handshake_messages_def)
  ultimately show ?thesis using assms(3) by (simp add: established_def)
qed

theorem unsubscribe_lost_in_retry_witness:
  "\<exists>t'. peer_run reference_externals recording_handler
       [PeerCommand (PeerUnsubscribe vni100), ConnectOk 3,
        HelloRead (Inr (wire_bytes reference_externals [MsgHello 5 True])),
        KeepaliveRead (Some (Inr (wire_bytes reference_externals [MsgKeepalive]))) rt_new 0]
       ((peer_new [])\<lparr>pt_subs := [vni100], pt_state := Retry, pt_phase := AtRetry\<rparr>) = Some t' \<and>
     vni100 \<in> set (pt_subs t')"
  using unsubscribe_lost_in_retry [OF reference.externals_ok_axioms _ _ reference.receive_hello_bytes [of 5 True]
      reference.receive_keepalive_bytes,
      where t = "(peer_new [])\<lparr>pt_subs := [vni100], pt_state := Retry, pt_phase := AtRetry\<rparr>" and v = vni100
      and announced = rt_new and budget = 3 and h = recording_handler and now = 0]
  by (auto simp: peer_new_def handshake_messages_def rt_new_def get_all_routes_def
      simp del: wire_bytes_simps peer_run.simps)

text \<open>An update that was under way when the task unsubscribed from its VNI is still stored and
  passed to the handler, although the VNI is no longer subscribed.\<close>

theorem update_after_unsubscribe:
  assumes "externals_ok x" and "pt_phase t = AtLoop n last_received []" and "0 < ts_budget (pt_stream t)"
    and "rt_wf (pt_received t)" and "destination_valid d" and "next_hop_valid hop"
  shows "\<exists>t'. peer_run x h [PeerCommand (PeerUnsubscribe v),
       DataRead (Inr (wire_bytes x [MsgUpdate Add v d hop])) now] t = Some t' \<and>
    v \<notin> set (pt_subs t') \<and> {k \<in> rt_abs (pt_received t'). fst k = v} = {(v, d, hop)}"
proof -
  obtain rs rt where r: "remove_vni v (pt_received t) = (rs, rt)" by fastforce
  define t1 where "t1 = t\<lparr>pt_stream := \<lparr>ts_written = ts_written (pt_stream t) @ wire_bytes x [MsgUnsubscribe v],
      ts_budget = ts_budget (pt_stream t) - 1\<rparr>, pt_subs := hs_remove v (pt_subs t), pt_received := rt,
      pt_world := fold (\<lambda>route w. rh_remove_route h v route w) rs (pt_world t)\<rparr>"
  have step1: "peer_step x h (PeerCommand (PeerUnsubscribe v)) t = Some t1"
    using assms(2,3) r by (simp add: peer_step_def externals_ok.conn_send_ok [OF assms(1)] t1_def not_less Suc_leI)
  let ?m = "MsgUpdate Add v d hop"
  have rt: "rt_abs rt = {(v', d', h'). (v', d', h') \<in> rt_abs (pt_received t) \<and> v' \<noteq> v}"
    using remove_vni_abs [of v "pt_received t"] r by simp
  have "frames (message_decode x) need_more_data (wire_bytes x [?m]) = ([?m], [], None)"
    using externals_ok.frames_wire_bytes [OF assms(1), of "[?m]"] assms(5,6)
    by (simp add: next_hop_canon_valid)
  moreover have "wire_bytes x [?m] \<noteq> []"
  proof -
    obtain b where "message_encode x ?m = Inr b" "4 \<le> length b"
      using externals_ok.message_encode_total [OF assms(1), of ?m] by fastforce
    then show ?thesis by auto
  qed
  moreover have "pt_phase t1 = AtLoop n last_received []" "pt_received t1 = rt"
    using assms(2) by (simp_all add: t1_def)
  ultimately obtain t2 where step2: "peer_step x h (DataRead (Inr (wire_bytes x [?m])) now) t1 = Some t2"
    and t2: "pt_received t2 = snd (add_next_hop v d hop rt)" "pt_subs t2 = pt_subs t1"
    by (cases "add_next_hop v d hop rt")
      (auto simp: peer_step_def conn_data_def process_buffer_frames simp del: wire_bytes_simps split: prod.splits)
  have "{k \<in> rt_abs (pt_received t2). fst k = v} = {(v, d, hop)}"
    unfolding t2 add_next_hop_abs rt by auto
  moreover have "v \<notin> set (pt_subs t2)" by (simp add: t2 t1_def)
  ultimately show ?thesis using step1 step2 by (simp del: wire_bytes_simps)
qed

theorem update_after_unsubscribe_witness:
  "\<exists>t t'. peer_run reference_externals recording_handler [PeerCommand (PeerUnsubscribe vni100),
       DataRead (Inr (wire_bytes reference_externals [MsgUpdate Add vni100 net24 hop1])) 1] t = Some t' \<and>
     vni100 \<notin> set (pt_subs t') \<and> {k \<in> rt_abs (pt_received t'). fst k = vni100} = {(vni100, net24, hop1)}"
  by (rule exI [of _ "(peer_new [])\<lparr>pt_phase := AtLoop 5 0 [], pt_stream := \<lparr>ts_written = [], ts_budget = 9\<rparr>\<rparr>"],
      rule update_after_unsubscribe [OF reference.externals_ok_axioms])
    (simp_all add: peer_new_def next_hop_valid_def next_hop_standard_def)

text \<open>A task that has neither returned nor died can still get its connection established: from
  every state in which it shows the state of its phase, as all it reaches do, there are
  events that lead to the main loop.\<close>

theorem peer_can_establish:
  assumes "externals_ok x" and "pt_phase t \<noteq> AtEnd" and "pt_phase t \<noteq> AtPanic"
    and "pt_state t = phase_state (pt_phase t)"
  shows "\<exists>es t'. peer_run x h es t = Some t' \<and> pt_state t' = Established \<and>
    (\<exists>n now. pt_phase t' = AtLoop n now [])"
proof -
  have ended: "\<exists>t'. pt_phase t' = AtRetry \<and> connection_ended h t = t'" if "pt_state t \<noteq> ConnClosed" for t
    using that by (simp add: connection_ended_def)
  have from_connect: "\<exists>es t'. peer_run x h es t = Some t' \<and> pt_state t' = Established \<and>
      (\<exists>n now. pt_phase t' = AtLoop n now [])" if "pt_phase t = AtConnect" for t
    using externals_ok.handshake_run [OF assms(1) that externals_ok.receive_hello_bytes [OF assms(1), of 5 True]
        externals_ok.receive_keepalive_bytes [OF assms(1)] le_refl, where h = h and now = 0 and announced = rt_new]
    by (intro exI [of _ "[_, _, _]"] exI conjI) (assumption, simp_all add: established_def)
  have from_retry: "\<exists>es t'. peer_run x h es t = Some t' \<and> pt_state t' = Established \<and>
      (\<exists>n now. pt_phase t' = AtLoop n now [])" if "pt_phase t = AtRetry" for t
  proof -
    have "peer_step x h RetryElapsed t = Some (t\<lparr>pt_state := Connecting, pt_phase := AtConnect\<rparr>)"
      using that by (simp add: peer_step_def)
    moreover obtain es t' where "peer_run x h es (t\<lparr>pt_state := Connecting, pt_phase := AtConnect\<rparr>) = Some t'"
      "pt_state t' = Established" "\<exists>n now. pt_phase t' = AtLoop n now []"
      using from_connect [of "t\<lparr>pt_state := Connecting, pt_phase := AtConnect\<rparr>"] by auto
    ultimately show ?thesis by (intro exI [of _ "RetryElapsed # es"] exI [of _ t']) simp
  qed
  have from_ended: "\<exists>es t'. peer_run x h es t = Some t' \<and> pt_state t' = Established \<and>
      (\<exists>n now. pt_phase t' = AtLoop n now [])"
    if stop: "peer_step x h ev t = Some (connection_ended h t)" and live: "pt_state t \<noteq> ConnClosed" for ev
  proof -
    obtain es t' where "peer_run x h es (connection_ended h t) = Some t'"
      "pt_state t' = Established" "\<exists>n now. pt_phase t' = AtLoop n now []"
      using from_retry [of "connection_ended h t"] ended [OF live] by auto
    with stop show ?thesis by (intro exI [of _ "ev # es"] exI [of _ t']) simp
  qed
  show ?thesis
  proof (cases "pt_phase t")
    case AtHello
    with assms(4) show ?thesis
      by (intro from_ended [of "HelloRead (Inr [])"]) (simp_all add: peer_step_def conn_hello_def receive_hello_def)
  next
    case (AtKeepalive n)
    with assms(4) show ?thesis
      by (intro from_ended [of "KeepaliveRead None rt_new 0"])
        (simp_all add: peer_step_def conn_keepalive_def receive_message_with_timeout_def)
  next
    case (AtLoop n last_received buf)
    with assms(4) show ?thesis
      by (intro from_ended [of "DataRead (Inr []) 0"]) (simp_all add: peer_step_def conn_data_def)
  qed (use assms(2,3) from_connect from_retry in auto)
qed

theorem peer_can_establish_witness:
  "\<exists>es t'. peer_run reference_externals recording_handler es (peer_new []) = Some t' \<and> pt_state t' = Established"
  using peer_can_establish [OF reference.externals_ok_axioms, of "peer_new []" recording_handler]
  by (auto simp: peer_new_def)

text \<open>C28: the delay before a retry is between 5 and 10 seconds whatever the random number, the
  negotiated interval is never longer than the client's 5 seconds, and in the main loop the
  timer ends the connection exactly when nothing was received for more than two and a half
  intervals; until then each tick sends a KEEPALIVE.\<close>

theorem keepalive_timing:
  assumes "externals_ok x" and "pt_state t \<noteq> ConnClosed" and "0 < ts_budget (pt_stream t)"
  shows "5 \<le> retry_delay random \<and> retry_delay random \<le> 10 \<and>
    unat (negotiated_keepalive DEFAULT_KEEPALIVE_INTERVAL k) \<le> 5 \<and>
    (pt_state (conn_tick x h n last_received now t) = Retry \<longleftrightarrow>
       last_received + 2500 * unat n < now \<or> pt_state t = Retry) \<and>
    (now \<le> last_received + 2500 * unat n \<longrightarrow>
       ts_written (pt_stream (conn_tick x h n last_received now t)) =
         ts_written (pt_stream t) @ wire_bytes x [MsgKeepalive])"
proof -
  have "unat random mod 6 \<le> 5" using mod_less_divisor [of 6 "unat random"] by linarith
  moreover have "negotiated_keepalive DEFAULT_KEEPALIVE_INTERVAL k \<le> 5"
    by (simp add: negotiated_keepalive_def DEFAULT_KEEPALIVE_INTERVAL_def)
  then have "unat (negotiated_keepalive DEFAULT_KEEPALIVE_INTERVAL k) \<le> 5"
    by (simp add: word_le_nat_alt)
  moreover have "keepalive_timeout n < now - last_received \<longleftrightarrow> last_received + 2500 * unat n < now"
    by (auto simp: keepalive_timeout_ms)
  ultimately show ?thesis
    using assms(2,3)
    by (auto simp: retry_delay_def RETRY_INTERVAL_MIN_def RETRY_INTERVAL_MAX_def conn_tick_def
        connection_ended_def externals_ok.conn_send_ok [OF assms(1)] simp del: wire_bytes_simps)
qed

theorem keepalive_timing_witness:
  "pt_state (conn_tick reference_externals recording_handler 5 0 12501
     ((peer_new [])\<lparr>pt_state := Established, pt_stream := \<lparr>ts_written = [], ts_budget = 1\<rparr>\<rparr>)) = Retry"
  using keepalive_timing [OF reference.externals_ok_axioms,
      where t = "(peer_new [])\<lparr>pt_state := Established, pt_stream := \<lparr>ts_written = [], ts_budget = 1\<rparr>\<rparr>"
      and n = 5 and last_received = 0 and now = 12501 and h = recording_handler]
  by (simp add: peer_new_def)

end
