(* ===== verification/Client_Properties.thy ===== *)
theory Client_Properties
  imports Client Peer_Properties
begin

text \<open>
  The properties of the client: what its user is told, whatever several servers and the
  user's own calls do in whatever order, and what each call returns and changes.
\<close>

section \<open>The user's view\<close>

interpretation dedup_keeps: world_invariant "dedup_handler recording_handler s" dedup_inv for s
  by unfold_locales (simp_all add: dedup_handler_def dedup_add_inv dedup_remove_inv)

interpretation dedup_frames: world_invariant "dedup_handler recording_handler s"
    "\<lambda>sh. s' \<noteq> s \<longrightarrow> routes_of s' (cs_origins sh) = R" for s s' R
  by unfold_locales (auto simp: dedup_handler_def dedup_frame)

text \<open>Sending commands changes queues only.\<close>

lemma send_peers_get:
  "map_option pc_task (hm_get (snd (send_peers only cmd ps)) s) = map_option pc_task (hm_get ps s)"
proof (induction ps)
  case Nil
  then show ?case by simp
next
  case (Cons e ps)
  then show ?case
    by (cases e) (auto simp: hm_get_def peer_send_def split: prod.split sum.split)
qed

lemma send_peers_keys: "map fst (snd (send_peers only cmd ps)) = map fst ps"
  by (induction ps) (auto simp: peer_send_def split: prod.split sum.split)

text \<open>
  The invariant of a client: the task of each server is in its own invariant, with the
  routes the tracker has for that server as what its handler was told.
\<close>

definition client_inv :: "handler_call list client \<Rightarrow> bool" where
  "client_inv c \<longleftrightarrow> hm_wf (cl_peers c) \<and> dedup_inv (cl_shared c) \<and> rt_wf (cl_announced c) \<and>
     (\<forall>s. case hm_get (cl_peers c) s of
        None \<Rightarrow> routes_of s (cs_origins (cl_shared c)) = {}
      | Some p \<Rightarrow> peer_inv (\<lambda>sh. routes_of s (cs_origins sh)) dedup_inv ((pc_task p)\<lparr>pt_world := cl_shared c\<rparr>))"

lemma client_inv_tasks:
  assumes "client_inv c" and "hm_wf ps" and "rt_wf rt"
    and "\<And>s. map_option pc_task (hm_get ps s) = map_option pc_task (hm_get (cl_peers c) s)"
  shows "client_inv (c\<lparr>cl_peers := ps, cl_announced := rt\<rparr>)"
proof -
  have "case hm_get ps s of
        None \<Rightarrow> routes_of s (cs_origins (cl_shared c)) = {}
      | Some p \<Rightarrow> peer_inv (\<lambda>sh. routes_of s (cs_origins sh)) dedup_inv ((pc_task p)\<lparr>pt_world := cl_shared c\<rparr>)" for s
    using assms(1) assms(4) [of s] by (cases "hm_get ps s"; cases "hm_get (cl_peers c) s")
      (auto simp: client_inv_def dest: spec [of _ s])
  with assms show ?thesis by (simp add: client_inv_def cong: option.case_cong)
qed

lemma client_inv_irrelevant [simp]: "client_inv (c\<lparr>cl_subscriptions := vs\<rparr>) = client_inv c"
  by (simp add: client_inv_def cong: option.case_cong)

lemma client_inv_send:
  assumes "client_inv c" and "rt_wf rt"
  shows "client_inv (c\<lparr>cl_peers := snd (send_peers only cmd (cl_peers c)), cl_announced := rt\<rparr>)"
  by (rule client_inv_tasks [OF assms(1) _ assms(2) send_peers_get])
    (use assms in \<open>simp add: client_inv_def hm_wf_def send_peers_keys\<close>)

lemma client_peer_step_inv:
  assumes inv: "client_inv c" and step: "client_peer_step x recording_handler s ev c = Some c'"
  shows "client_inv c'"
proof -
  obtain p queue t where p: "hm_get (cl_peers c) s = Some p"
    and t: "peer_step x (dedup_handler recording_handler s) ev ((pc_task p)\<lparr>pt_world := cl_shared c\<rparr>) = Some t"
    and c': "c' = c\<lparr>cl_peers := hm_insert s \<lparr>pc_task = t, pc_queue = queue\<rparr> (cl_peers c), cl_shared := pt_world t\<rparr>"
    using step by (auto simp: client_peer_step_def split: bind_splits if_splits)
  let ?view = "\<lambda>s sh. routes_of s (cs_origins sh)"
  have "peer_inv (?view s) dedup_inv ((pc_task p)\<lparr>pt_world := cl_shared c\<rparr>)"
    using inv p by (auto simp: client_inv_def dest: spec [of _ s])
  then have here: "peer_inv (?view s) dedup_inv t" by (rule route_sink.step_inv [OF dedup.route_sink_axioms _ t])
  have dedup: "dedup_inv (pt_world t)"
    by (rule dedup_keeps.keeps_step [OF _ t]) (use inv in \<open>simp add: client_inv_def\<close>)
  have frame: "?view s' (pt_world t) = ?view s' (cl_shared c)" if "s' \<noteq> s" for s'
    using dedup_frames.keeps_step [where s' = s' and R = "?view s' (cl_shared c)", OF _ t] that by simp
  have "case hm_get (cl_peers c') s' of
        None \<Rightarrow> ?view s' (cl_shared c') = {}
      | Some p \<Rightarrow> peer_inv (?view s') dedup_inv ((pc_task p)\<lparr>pt_world := cl_shared c'\<rparr>)" for s'
  proof (cases "s' = s")
    case True
    with here show ?thesis by (simp add: c')
  next
    case False
    have "case hm_get (cl_peers c) s' of
        None \<Rightarrow> ?view s' (cl_shared c) = {}
      | Some p \<Rightarrow> peer_inv (?view s') dedup_inv ((pc_task p)\<lparr>pt_world := cl_shared c\<rparr>)"
      using inv by (simp add: client_inv_def)
    with False frame [OF False] dedup show ?thesis
      by (cases "hm_get (cl_peers c) s'") (simp_all add: c' peer_inv_def handler_in_step_def)
  qed
  moreover have "hm_wf (cl_peers c')" "dedup_inv (cl_shared c')" "rt_wf (cl_announced c')"
    using inv dedup by (simp_all add: client_inv_def c')
  ultimately show ?thesis unfolding client_inv_def by blast
qed

lemma client_inv_announced: "client_inv c \<Longrightarrow> rt_wf (cl_announced c)"
  by (simp add: client_inv_def)

lemma client_step_inv:
  assumes inv: "client_inv c" and step: "client_step x recording_handler e c = Some c'"
    and "\<And>s. e \<noteq> CallRemoveServerRoutes s"
  shows "client_inv c'"
proof (cases e)
  case (PeerEvent s ev)
  with assms show ?thesis by (auto intro: client_peer_step_inv)
next
  case (CallSubscribe v)
  then have "c' = c\<lparr>cl_subscriptions := hs_insert v (cl_subscriptions c),
      cl_peers := snd (send_peers (\<lambda>st. st = Established) (PeerSubscribe v) (cl_peers c))\<rparr>"
    using step by (auto simp: client_subscribe_def Let_def split: prod.splits)
  with client_inv_send [of "c\<lparr>cl_subscriptions := hs_insert v (cl_subscriptions c)\<rparr>" "cl_announced c"] inv
  show ?thesis by (simp add: client_inv_announced)
next
  case (CallUnsubscribe v)
  then have "c' = c\<lparr>cl_subscriptions := hs_remove v (cl_subscriptions c),
      cl_peers := snd (send_peers (\<lambda>_. True) (PeerUnsubscribe v) (cl_peers c))\<rparr>"
    using step by (auto simp: client_unsubscribe_def Let_def split: prod.splits)
  with client_inv_send [of "c\<lparr>cl_subscriptions := hs_remove v (cl_subscriptions c)\<rparr>" "cl_announced c"] inv
  show ?thesis by (simp add: client_inv_announced)
next
  case (CallAnnounce v d h)
  let ?rt = "snd (add_next_hop v d h (cl_announced c))"
  have "c' = c \<or> c' = c\<lparr>cl_peers := snd (send_peers (\<lambda>st. st = Established)
      (PeerSendUpdate (MsgUpdate Add v d h)) (cl_peers c)), cl_announced := ?rt\<rparr>"
    using step CallAnnounce by (auto simp: client_announce_def Let_def split: prod.splits if_splits)
  moreover have "rt_wf ?rt" using client_inv_announced [OF inv] by (rule add_next_hop_wf)
  ultimately show ?thesis using inv by (auto intro: client_inv_send)
next
  case (CallWithdraw v d h)
  let ?rt = "snd (remove_next_hop v d h (cl_announced c))"
  have "c' = c \<or> c' = c\<lparr>cl_peers := snd (send_peers (\<lambda>_. True)
      (PeerSendUpdate (MsgUpdate Remove v d h)) (cl_peers c)), cl_announced := ?rt\<rparr>"
    using step CallWithdraw by (auto simp: client_withdraw_def Let_def split: prod.splits if_splits)
  moreover have "rt_wf ?rt" using client_inv_announced [OF inv] by (rule remove_next_hop_wf)
  ultimately show ?thesis using inv by (auto intro: client_inv_send)
next
  case CallShutdown
  then have "c' = c\<lparr>cl_peers := snd (send_peers (\<lambda>_. True) PeerShutdown (cl_peers c)), cl_announced := cl_announced c\<rparr>"
    using step by (auto simp: client_shutdown_def)
  then show ?thesis using client_inv_send [OF inv client_inv_announced [OF inv]] by simp
qed (use assms(3) in simp)

lemma client_run_inv:
  "client_inv c \<Longrightarrow> client_run x recording_handler es c = Some c' \<Longrightarrow>
     \<forall>s. CallRemoveServerRoutes s \<notin> set es \<Longrightarrow> client_inv c'"
  by (induction es arbitrary: c) (auto split: bind_splits dest: client_step_inv)

lemma client_connect_peers:
  assumes "client_connect servers w = Some c"
  shows "map fst (cl_peers c) = map ServerId [0..<length servers]"
    and "hm_get (cl_peers c) s = Some p \<Longrightarrow> p = \<lparr>pc_task = peer_new (cl_shared c), pc_queue = []\<rparr>"
    and "cl_shared c = \<lparr>cs_origins = [], cs_world = w\<rparr>" and "cl_announced c = rt_new"
  using assms by (auto simp: client_connect_def Let_def comp_def split: if_splits dest: hm_get_Some_in)

lemma client_connect_total: "servers \<noteq> [] \<Longrightarrow> \<exists>c. client_connect servers w = Some c"
  by (simp add: client_connect_def Let_def)

lemma client_connect_inv: "client_connect servers [] = Some c \<Longrightarrow> client_inv c"
proof -
  assume c: "client_connect servers [] = Some c"
  note peers = client_connect_peers [OF c]
  have "hm_wf (cl_peers c)" using peers(1) by (simp add: hm_wf_def distinct_map inj_on_def)
  moreover have "peer_inv (\<lambda>sh. routes_of s (cs_origins sh)) dedup_inv (peer_new (cl_shared c))" for s
    by (rule route_sink.new_inv [OF dedup.route_sink_axioms]) (simp_all add: peers(3) dedup_init routes_of_def)
  then have "peer_inv (\<lambda>sh. routes_of s (cs_origins sh)) dedup_inv
      ((pc_task p)\<lparr>pt_world := cl_shared c\<rparr>)" if "hm_get (cl_peers c) s = Some p" for s p
    using peers(2) [OF that] by (simp add: peer_new_def)
  ultimately show ?thesis
    using peers(3,4) by (auto simp: client_inv_def dedup_init routes_of_def split: option.splits)
qed

text \<open>The routes held by the tasks of a client.\<close>

definition held_routes :: "'w client \<Rightarrow> route_key set" where
  "held_routes c = (\<Union>(s, p) \<in> set (cl_peers c). rt_abs (pt_received (pc_task p)))"

lemma client_inv_held:
  assumes "client_inv c"
  shows "known_routes (cs_origins (cl_shared c)) = held_routes c"
proof -
  have at: "routes_of s (cs_origins (cl_shared c)) =
      (case hm_get (cl_peers c) s of None \<Rightarrow> {} | Some p \<Rightarrow> rt_abs (pt_received (pc_task p)))" for s
    using assms by (auto simp: client_inv_def peer_inv_def handler_in_step_def dest: spec [of _ s] split: option.splits)
  have "known_routes (cs_origins (cl_shared c)) = (\<Union>s. routes_of s (cs_origins (cl_shared c)))"
    by (force simp: routes_of_def)
  also have "\<dots> = held_routes c"
  proof (rule set_eqI)
    fix k
    have "k \<in> (\<Union>s. routes_of s (cs_origins (cl_shared c))) \<longleftrightarrow>
        (\<exists>s p. hm_get (cl_peers c) s = Some p \<and> k \<in> rt_abs (pt_received (pc_task p)))"
      unfolding at by (force split: option.splits)
    also have "\<dots> \<longleftrightarrow> k \<in> held_routes c"
      using hm_get_iff [of "cl_peers c"] assms by (force simp: client_inv_def held_routes_def)
    finally show "k \<in> (\<Union>s. routes_of s (cs_origins (cl_shared c))) \<longleftrightarrow> k \<in> held_routes c" .
  qed
  finally show ?thesis .
qed

section \<open>Properties\<close>

text \<open>Whatever the servers send, whenever connections are made and lost, and whatever the user
  subscribes to, announces or withdraws, the user's handler has been told exactly the routes
  that the connection to at least one server holds, each added once and removed once.\<close>

theorem client_view_is_union:
  assumes "client_connect servers [] = Some c0" and "client_run x recording_handler es c0 = Some c"
    and "\<forall>s. CallRemoveServerRoutes s \<notin> set es"
  shows "calls_effective {} (cs_world (cl_shared c)) \<and>
    calls_view (cs_world (cl_shared c)) =
      (\<Union>(s, p) \<in> set (cl_peers c). rt_abs (pt_received (pc_task p)))"
proof -
  have inv: "client_inv c" by (rule client_run_inv [OF client_connect_inv [OF assms(1)] assms(2,3)])
  then show ?thesis
    using client_inv_held [OF inv] by (simp add: client_inv_def dedup_inv_def held_routes_def)
qed

text \<open>A client of one server, for the examples.\<close>

definition client1 :: "handler_call list client" where
  "client1 = \<lparr>cl_peers = [(ServerId 0, \<lparr>pc_task = peer_new \<lparr>cs_origins = [], cs_world = []\<rparr>, pc_queue = []\<rparr>)],
     cl_shared = \<lparr>cs_origins = [], cs_world = []\<rparr>, cl_subscriptions = [], cl_announced = rt_new,
     cl_addrs = [(ServerId 0, ''a'')]\<rparr>"

lemma client1_connect: "client_connect [''a''] [] = Some client1"
  by (simp add: client_connect_def client1_def Let_def)

lemma client1_failed:
  "client_run x recording_handler [PeerEvent (ServerId 0) ConnectFailed] client1 =
     Some (client1\<lparr>cl_peers := [(ServerId 0, \<lparr>pc_task = (peer_new \<lparr>cs_origins = [], cs_world = []\<rparr>)
       \<lparr>pt_state := Retry, pt_phase := AtRetry\<rparr>, pc_queue = []\<rparr>)]\<rparr>)"
  by (simp add: client1_def client_peer_step_def hm_get_def hm_insert_def peer_step_def peer_new_def)

theorem client_view_is_union_witness:
  "\<exists>c. client_run reference_externals recording_handler [PeerEvent (ServerId 0) ConnectFailed] client1 = Some c \<and>
     calls_view (cs_world (cl_shared c)) = {}"
  using client_view_is_union [OF client1_connect client1_failed] client1_failed
  by (auto simp: peer_new_def)

text \<open>The queries of the client agree with what the user's handler was told: the received routes
  of a VNI are listed once each, the count and the emptiness test are those of the routes
  known, and a route has servers exactly when it is known.\<close>

theorem client_queries:
  assumes "dedup_inv (cl_shared c)"
  shows "distinct (get_received_routes v c) \<and>
    set (get_received_routes v c) = {route_new d h |d h. (v, d, h) \<in> calls_view (cs_world (cl_shared c))} \<and>
    route_count c = card (calls_view (cs_world (cl_shared c))) \<and>
    (is_route_table_empty c \<longleftrightarrow> calls_view (cs_world (cl_shared c)) = {}) \<and>
    (get_route_servers v d h c \<noteq> None \<longleftrightarrow> (v, d, h) \<in> calls_view (cs_world (cl_shared c)))"
proof -
  define K where "K = known_routes (cs_origins (cl_shared c))"
  have wf: "origins_wf (cs_origins (cl_shared c))" and view: "calls_view (cs_world (cl_shared c)) = K"
    using assms by (simp_all add: dedup_inv_def K_def)
  have get: "k \<in> K \<longleftrightarrow> hm_get (cs_origins (cl_shared c)) k \<noteq> None" for k
    unfolding K_def by (rule known_routes_iff [OF wf])
  have known: "K = set (map fst (cs_origins (cl_shared c)))"
    using hm.set_keys [of "cs_origins (cl_shared c)"] unfolding hm_keys_def by (simp add: set_eq_iff get)
  have list: "get_received_routes v c =
      map (\<lambda>k. route_new (fst (snd k)) (snd (snd k))) (filter (\<lambda>k. fst k = v) (map fst (cs_origins (cl_shared c))))"
    by (simp add: get_received_routes_def origins_get_all_def filter_map comp_def case_prod_unfold)
  have keys: "distinct (map fst (cs_origins (cl_shared c)))" using wf by (simp add: origins_wf_def hm_wf_def)
  have "distinct (get_received_routes v c)"
    unfolding list by (rule distinct_map [THEN iffD2])
      (use keys in \<open>simp add: inj_on_def prod_eq_iff del: distinct_map\<close>)
  moreover have "set (get_received_routes v c) = {route_new d h |d h. (v, d, h) \<in> K}"
    unfolding known list by force
  moreover have count: "route_count c = card K"
    unfolding K_def route_count_def by (rule origins_len_card [OF wf])
  moreover have "finite K" by (simp add: known)
  with count have "is_route_table_empty c \<longleftrightarrow> K = {}"
    by (simp add: is_route_table_empty_def origins_is_empty_def route_count_def)
  moreover have "get_route_servers v d h c \<noteq> None \<longleftrightarrow> (v, d, h) \<in> K"
    unfolding get by (simp add: get_route_servers_def get_servers_def)
  ultimately show ?thesis unfolding view by blast
qed

theorem client_queries_witness: "route_count client1 = 0 \<and> is_route_table_empty client1"
  using client_queries [of client1] dedup_init by (simp add: client1_def calls_view_def)

section \<open>The calls of the user\<close>

text \<open>What a loop over the peers sends, and whether it sent anything.\<close>

definition live :: "'w peer_conn \<Rightarrow> bool" where
  "live p \<longleftrightarrow> pt_phase (pc_task p) \<noteq> AtEnd \<and> pt_phase (pc_task p) \<noteq> AtPanic"

definition takes :: "(connection_state \<Rightarrow> bool) \<Rightarrow> 'w peer_conn \<Rightarrow> bool" where
  "takes only p \<longleftrightarrow> only (get_state p) \<and> live p"

lemma send_peers_outcome:
  "send_peers only cmd ps =
     (\<exists>(s, p) \<in> set ps. takes only p,
      hm_map_values (\<lambda>p. if takes only p then p\<lparr>pc_queue := pc_queue p @ [cmd]\<rparr> else p) ps)"
  by (induction ps) (auto simp: hm_map_values_def peer_send_def takes_def live_def)

text \<open>C21: announcing a route fails without effect when the client already announces it; otherwise
  the route is added to the announced ones and an update is queued for exactly the peers
  that are established and alive, and the call reports an error when there is none, the
  route being announced all the same.\<close>

theorem announce_contract:
  assumes "rt_wf (cl_announced c)" and "client_announce v d h c = (result, c')"
  shows "(result = Inl ERouteAlreadyAnnounced \<longleftrightarrow> (v, d, h) \<in> rt_abs (cl_announced c)) \<and>
    (result = Inl ERouteAlreadyAnnounced \<longrightarrow> c' = c) \<and>
    rt_abs (cl_announced c') = insert (v, d, h) (rt_abs (cl_announced c)) \<and> rt_wf (cl_announced c') \<and>
    (result = Inr () \<longleftrightarrow> (v, d, h) \<notin> rt_abs (cl_announced c) \<and>
       (\<exists>(s, p) \<in> set (cl_peers c). get_state p = Established \<and> live p)) \<and>
    ((v, d, h) \<notin> rt_abs (cl_announced c) \<longrightarrow> cl_peers c' = hm_map_values (\<lambda>p.
       if get_state p = Established \<and> live p
       then p\<lparr>pc_queue := pc_queue p @ [PeerSendUpdate (MsgUpdate Add v d h)]\<rparr> else p) (cl_peers c))"
proof (cases "(v, d, h) \<in> rt_abs (cl_announced c)")
  case True
  with assms show ?thesis by (auto simp: client_announce_def insert_absorb)
next
  case False
  define sent where "sent = (\<exists>(s, p) \<in> set (cl_peers c). get_state p = Established \<and> live p)"
  have r: "result = (if sent then Inr () else Inl ENotEstablished)"
    and c': "cl_announced c' = snd (add_next_hop v d h (cl_announced c))"
      "cl_peers c' = hm_map_values (\<lambda>p. if get_state p = Established \<and> live p
         then p\<lparr>pc_queue := pc_queue p @ [PeerSendUpdate (MsgUpdate Add v d h)]\<rparr> else p) (cl_peers c)"
    using assms(2) False by (auto simp: client_announce_def Let_def send_peers_outcome takes_def sent_def split: if_splits)
  show ?thesis
    using False by (simp add: r c' add_next_hop_abs add_next_hop_wf [OF assms(1)] sent_def del: rt_abs_iff)
qed

theorem announce_contract_witness:
  "fst (client_announce vni100 net24 hop1 client1) = Inl ENotEstablished \<and>
   fst (client_announce vni100 net24 hop1 (snd (client_announce vni100 net24 hop1 client1))) =
     Inl ERouteAlreadyAnnounced"
proof -
  let ?c = "snd (client_announce vni100 net24 hop1 client1)"
  have "rt_wf (cl_announced client1)" by (simp add: client1_def)
  from announce_contract [OF this prod.collapse [symmetric], of vni100 net24 hop1]
  have c: "rt_wf (cl_announced ?c)" "(vni100, net24, hop1) \<in> rt_abs (cl_announced ?c)" by blast+
  have "fst (client_announce vni100 net24 hop1 ?c) = Inl ERouteAlreadyAnnounced"
    using announce_contract [OF c(1) prod.collapse [symmetric], of vni100 net24 hop1] c(2) by blast
  moreover have "fst (client_announce vni100 net24 hop1 client1) = Inl ENotEstablished"
    by (simp add: client_announce_def client1_def next_hop_exists_def rt_new_def get_state_def peer_new_def)
  ultimately show ?thesis by blast
qed

text \<open>Withdrawing a route the client does not announce fails without effect; otherwise the route
  leaves the announced ones and a withdrawal is queued for every living peer, connected or
  not, and the call succeeds.\<close>

theorem withdraw_contract:
  assumes "rt_wf (cl_announced c)" and "client_withdraw v d h c = (result, c')"
  shows "result = (if (v, d, h) \<in> rt_abs (cl_announced c) then Inr () else Inl ERouteNotFound) \<and>
    rt_abs (cl_announced c') = rt_abs (cl_announced c) - {(v, d, h)} \<and> rt_wf (cl_announced c') \<and>
    cl_peers c' = (if (v, d, h) \<in> rt_abs (cl_announced c) then hm_map_values (\<lambda>p.
       if live p then p\<lparr>pc_queue := pc_queue p @ [PeerSendUpdate (MsgUpdate Remove v d h)]\<rparr> else p) (cl_peers c)
      else cl_peers c)"
proof (cases "(v, d, h) \<in> rt_abs (cl_announced c)")
  case True
  then have "result = Inr ()" and "cl_announced c' = snd (remove_next_hop v d h (cl_announced c))"
    and "cl_peers c' = hm_map_values (\<lambda>p.
       if live p then p\<lparr>pc_queue := pc_queue p @ [PeerSendUpdate (MsgUpdate Remove v d h)]\<rparr> else p) (cl_peers c)"
    using assms(2) by (auto simp: client_withdraw_def Let_def send_peers_outcome takes_def)
  with True show ?thesis
    by (simp add: remove_next_hop_abs [OF assms(1)] remove_next_hop_wf [OF assms(1)] del: rt_abs_iff)
next
  case False
  with assms show ?thesis by (auto simp: client_withdraw_def)
qed

theorem withdraw_contract_witness:
  "fst (client_withdraw vni100 net24 hop1 client1) = Inl ERouteNotFound"
  using withdraw_contract [OF _ prod.collapse [symmetric], of client1 vni100 net24 hop1]
  by (simp add: client1_def del: rt_abs_iff)



section \<open>Connection states\<close>

text \<open>The state of the client says how many of its servers are connected: fully when all are,
  partially with the counts when some are, closed when none is and one was shut down, and
  disconnected otherwise; it agrees with \<open>is_established\<close> and \<open>connected_count\<close>.\<close>

theorem client_state_meaning:
  assumes "cl_peers c \<noteq> []"
  shows "(client_state_of c = FullyConnected \<longleftrightarrow> (\<forall>(s, p) \<in> set (cl_peers c). get_state p = Established)) \<and>
    (\<forall>m n. client_state_of c = PartiallyConnected m n \<longleftrightarrow>
       m = connected_count c \<and> n = server_count c \<and> 0 < m \<and> m < n) \<and>
    (client_state_of c = ClientClosed \<longleftrightarrow>
       connected_count c = 0 \<and> (\<exists>(s, p) \<in> set (cl_peers c). get_state p = ConnClosed)) \<and>
    (is_established c \<longleftrightarrow> 0 < connected_count c) \<and> connected_count c \<le> server_count c"
proof -
  have count: "connected_count c = length (filter (\<lambda>st. st = Established) (map (\<lambda>(s, p). get_state p) (cl_peers c)))"
    by (simp add: connected_count_def filter_map comp_def case_prod_unfold)
  have le: "connected_count c \<le> server_count c" by (simp add: connected_count_def server_count_def)
  have zero: "connected_count c = 0 \<longleftrightarrow> (\<forall>(s, p) \<in> set (cl_peers c). get_state p \<noteq> Established)"
    by (auto simp: connected_count_def filter_empty_conv)
  have full: "connected_count c = server_count c \<longleftrightarrow> (\<forall>(s, p) \<in> set (cl_peers c). get_state p = Established)"
    unfolding connected_count_def server_count_def
    by (metis (no_types, lifting) filter_id_conv filter_True length_filter_less less_irrefl)
  have closed: "ConnClosed \<in> set (map (\<lambda>(s, p). get_state p) (cl_peers c)) \<longleftrightarrow>
      (\<exists>(s, p) \<in> set (cl_peers c). get_state p = ConnClosed)" by force
  have pos: "server_count c \<noteq> 0" using assms by (simp add: server_count_def)
  have est: "is_established c \<longleftrightarrow> 0 < connected_count c"
    using zero by (auto simp: is_established_def list_ex_iff)
  have state: "client_state_of c =
      (if (\<exists>(s, p) \<in> set (cl_peers c). get_state p = ConnClosed) \<and> connected_count c = 0 then ClientClosed
       else if connected_count c = 0 then Disconnected
       else if connected_count c = server_count c then FullyConnected
       else PartiallyConnected (connected_count c) (server_count c))"
    unfolding client_state_of_def Let_def closed [symmetric] count server_count_def ..
  show ?thesis
    unfolding state est full [symmetric] using le pos by auto
qed

theorem client_state_meaning_witness:
  "client_state_of client1 \<noteq> FullyConnected \<and> connected_count client1 \<le> server_count client1"
  using client_state_meaning [of client1] by (simp add: client1_def get_state_def peer_new_def)

text \<open>Waiting for any server returns success only when some observed state is established, an
  error only when every state is closed, and while a server is neither it goes on waiting.\<close>

theorem wait_any_meaning:
  "(wait_any_established states wakes = Some (Inr ()) \<longrightarrow>
     (\<exists>sts \<in> set (states # map snd wakes). Established \<in> set sts)) \<and>
   (\<forall>e. wait_any_established states wakes = Some (Inl e) \<longrightarrow>
     e = EClosed \<and> (\<exists>sts \<in> set (states # map snd wakes). \<forall>st \<in> set sts. st = ConnClosed)) \<and>
   (wait_any_established states wakes = None \<longrightarrow>
     (\<forall>sts \<in> set (states # map snd wakes). Established \<notin> set sts))"
proof (induction states wakes rule: wait_any_established.induct)
  case (1 states wakes)
  show ?case
  proof (cases "Established \<in> set states \<or> list_all (\<lambda>st. st = ConnClosed) states \<or> wakes = []")
    case True
    then show ?thesis by (subst (1 2 3) wait_any_established.simps) (auto simp: list_all_iff)
  next
    case False
    then obtain ok sts ws where w: "wakes = (ok, sts) # ws" by (metis list.exhaust prod.exhaust)
    have "wait_any_established states wakes =
        (if \<not> ok \<and> list_all (\<lambda>st. st = ConnClosed) sts then Some (Inl EClosed) else wait_any_established sts ws)"
      using False by (subst wait_any_established.simps) (simp add: w)
    moreover note 1 [of "(ok, sts)" ws ok sts]
    ultimately show ?thesis using False by (auto simp: w list_all_iff)
  qed
qed

theorem wait_any_meaning_witness:
  "wait_any_established [Connecting] [(True, [Established])] = Some (Inr ()) \<and>
   (\<exists>sts \<in> {[Connecting], [Established]}. Established \<in> set sts)"
  using wait_any_meaning [of "[Connecting]" "[(True, [Established])]"]
  by (simp add: wait_any_established.simps)

text \<open>What the waiting methods decide on: an observation of the states, and its verdict.\<close>

definition any_decided :: "connection_state list \<Rightarrow> bool" where
  "any_decided states \<longleftrightarrow> Established \<in> set states \<or> list_all (\<lambda>st. st = ConnClosed) states"

definition all_decided :: "connection_state list \<Rightarrow> bool" where
  "all_decided states \<longleftrightarrow> list_all (\<lambda>st. st = Established) states \<or> ConnClosed \<in> set states"

definition any_verdict :: "connection_state list \<Rightarrow> error + unit" where
  "any_verdict states = (if Established \<in> set states then Inr () else Inl EClosed)"

definition all_verdict :: "connection_state list \<Rightarrow> error + unit" where
  "all_verdict states = (if ConnClosed \<in> set states then Inl EClosed else Inr ())"

lemma wait_any_step:
  "wait_any_established states wakes =
     (if any_decided states then Some (any_verdict states)
      else case wakes of [] \<Rightarrow> None | (ok, states') # wakes' \<Rightarrow> wait_any_established states' wakes')"
proof -
  have "wait_any_established states' wakes' = Some (Inl EClosed)"
    if "states' \<noteq> []" "list_all (\<lambda>st. st = ConnClosed) states'" for states' wakes'
    using that by (subst wait_any_established.simps) (auto simp: list_all_iff)
  moreover have "wait_any_established [] wakes' = Some (Inl EClosed)" for wakes'
    by (subst wait_any_established.simps) simp
  ultimately have "list_all (\<lambda>st. st = ConnClosed) states' \<Longrightarrow> wait_any_established states' wakes' = Some (Inl EClosed)"
    for states' wakes' by (cases "states' = []") simp_all
  then show ?thesis
    by (subst wait_any_established.simps) (auto simp: any_decided_def any_verdict_def split: list.split)
qed

lemma wait_all_step:
  "wait_all_established states wakes =
     (if all_decided states then Some (all_verdict states)
      else case wakes of [] \<Rightarrow> None | (ok, states') # wakes' \<Rightarrow> wait_all_established states' wakes')"
proof -
  have "wait_all_established states' wakes' = Some (Inl EClosed)" if "ConnClosed \<in> set states'" for states' wakes'
    using that by (subst wait_all_established.simps) (simp add: Let_def)
  then show ?thesis
    by (subst wait_all_established.simps)
      (auto simp: all_decided_def all_verdict_def Let_def list_all_iff split: list.split)
qed

text \<open>C27: the waiting methods return on the first observation that decides and with its verdict. Waiting
  for any server, an observation decides when some server is established, which is a success,
  or all are closed, an error; waiting for all, when all are established or one is closed, an
  error even if the others are connected. Until then they wait, and with a time limit they
  then report \<open>Timeout\<close> or \<open>ConnectionTimeout\<close>, depending on the method.\<close>

theorem waits_decide_first:
  "wait_any_established states wakes = map_option any_verdict (find any_decided (states # map snd wakes)) \<and>
   wait_all_established states wakes = map_option all_verdict (find all_decided (states # map snd wakes)) \<and>
   wait_established_timeout states wakes =
     (case find any_decided (states # map snd wakes) of None \<Rightarrow> Inl ETimeout | Some sts \<Rightarrow> any_verdict sts) \<and>
   wait_any_established_timeout states wakes =
     (case find any_decided (states # map snd wakes) of None \<Rightarrow> Inl EConnectionTimeout | Some sts \<Rightarrow> any_verdict sts) \<and>
   wait_all_established_timeout states wakes =
     (case find all_decided (states # map snd wakes) of None \<Rightarrow> Inl EConnectionTimeout | Some sts \<Rightarrow> all_verdict sts)"
proof -
  have any: "wait_any_established states wakes = map_option any_verdict (find any_decided (states # map snd wakes))"
    by (induction wakes arbitrary: states) (subst wait_any_step, auto)+
  moreover have all: "wait_all_established states wakes = map_option all_verdict (find all_decided (states # map snd wakes))"
    by (induction wakes arbitrary: states) (subst wait_all_step, auto)+
  ultimately show ?thesis
    by (simp add: wait_established_timeout_def wait_any_established_timeout_def wait_all_established_timeout_def
        split: option.split)
qed

section \<open>Runs of one task\<close>

text \<open>A run of a peer's task is a run of the client, when the queue and the announced routes stay as they are.\<close>

definition undisturbed :: "route_table \<Rightarrow> peer_event \<Rightarrow> bool" where
  "undisturbed announced e \<longleftrightarrow> (\<forall>queue. takes_command e queue = Some queue) \<and> sees_announced e announced"

lemma client_task_run:
  assumes "peer_run x (dedup_handler h s) es ((pc_task pr)\<lparr>pt_world := cl_shared c\<rparr>) = Some t"
    and "hm_get (cl_peers c) s = Some pr" and "list_all (undisturbed (cl_announced c)) es"
  shows "\<exists>c' pr'. client_run x h (map (PeerEvent s) es) c = Some c' \<and>
    hm_get (cl_peers c') s = Some pr' \<and> (pc_task pr')\<lparr>pt_world := cl_shared c'\<rparr> = t"
  using assms
proof (induction es arbitrary: c pr)
  case Nil
  then show ?case by auto
next
  case (Cons e es)
  obtain t1 where t1: "peer_step x (dedup_handler h s) e ((pc_task pr)\<lparr>pt_world := cl_shared c\<rparr>) = Some t1"
    and rest: "peer_run x (dedup_handler h s) es t1 = Some t"
    using Cons.prems(1) by (auto split: bind_splits)
  define c1 where "c1 = c\<lparr>cl_peers := hm_insert s \<lparr>pc_task = t1, pc_queue = pc_queue pr\<rparr> (cl_peers c), cl_shared := pt_world t1\<rparr>"
  have e: "takes_command e (pc_queue pr) = Some (pc_queue pr)" "sees_announced e (cl_announced c)"
    using Cons.prems(3) by (simp_all add: undisturbed_def)
  then have "client_peer_step x h s e c = Some c1"
    by (simp add: client_peer_step_def Cons.prems(2) t1 c1_def)
  moreover obtain c' pr' where "client_run x h (map (PeerEvent s) es) c1 = Some c'"
    "hm_get (cl_peers c') s = Some pr'" "(pc_task pr')\<lparr>pt_world := cl_shared c'\<rparr> = t"
    using Cons.IH [where c = c1 and pr = "\<lparr>pc_task = t1, pc_queue = pc_queue pr\<rparr>"] rest Cons.prems(3) by (auto simp: c1_def)
  ultimately show ?case by auto
qed

section \<open>Dropping a server's routes\<close>

text \<open>Dropping the routes of a server returns them and takes each from the user, as far as no
  other server has it; but the connection to that server still holds them, so that when the
  server announces such a route again neither the tracker nor the user is told.\<close>

theorem dropped_routes_stay_lost:
  assumes "dedup_inv (cl_shared c)" and "remove_server_routes recording_handler s c = (dropped, c')"
    and "(v, d, h) \<in> rt_abs rt"
  shows "dedup_inv (cl_shared c') \<and> routes_of s (cs_origins (cl_shared c')) = {} \<and>
    set dropped = (\<lambda>(v, d, h). route_new d h) `
      (calls_view (cs_world (cl_shared c)) - calls_view (cs_world (cl_shared c'))) \<and>
    snd (peer_handle_message (dedup_handler recording_handler s) (MsgUpdate Add v d h) (rt, cl_shared c')) = cl_shared c'"
proof -
  let ?m = "cs_origins (cl_shared c)" and ?w = "cs_world (cl_shared c)"
  have wf: "origins_wf ?m" and eff: "calls_effective {} ?w" and view: "calls_view ?w = known_routes ?m"
    using assms(1) by (simp_all add: dedup_inv_def)
  obtain removed m' where r: "remove_server s ?m = (removed, m')" by fastforce
  have removed: "set removed = known_routes ?m - known_routes m'" "distinct removed" "origins_wf m'"
    "origins_abs m' = {(k, s'). (k, s') \<in> origins_abs ?m \<and> s' \<noteq> s}"
    using remove_server_notified [OF wf, of s] remove_server_distinct [OF wf, of s]
      remove_server_wf [OF wf, of s] remove_server_abs [OF wf, of s] r by simp_all
  have sub: "known_routes m' \<subseteq> known_routes ?m" unfolding removed(4) by force
  let ?rs = "map (\<lambda>(v, d, h). (v, route_new d h)) removed"
  have keys: "map (\<lambda>(v, r). key_of v r) ?rs = removed" by (simp add: comp_def case_prod_unfold)
  have "(\<lambda>(v, r). key_of v r) ` set ?rs = set removed" using arg_cong [OF keys, of set] by (simp only: set_map)
  then have fold: "calls_effective {} (fold (\<lambda>(v, r) w. rh_remove_route recording_handler v r w) ?rs ?w) \<and>
      calls_view (fold (\<lambda>(v, r) w. rh_remove_route recording_handler v r w) ?rs ?w) = calls_view ?w - set removed"
    using recorded.fold_remove [OF eff, of ?rs] removed(1,2) view keys by simp
  have "fold (\<lambda>(v, d, h) w. rh_remove_route recording_handler v (route_new d h) w) removed ?w =
      fold (\<lambda>(v, r) w. rh_remove_route recording_handler v r w) ?rs ?w"
    by (simp add: fold_map comp_def case_prod_unfold)
  then have c': "cl_shared c' = \<lparr>cs_origins = m', cs_world = fold (\<lambda>(v, r) w. rh_remove_route recording_handler v r w) ?rs ?w\<rparr>"
    and dropped: "dropped = map (\<lambda>(v, d, h). route_new d h) removed"
    using assms(2) r by (auto simp: remove_server_routes_def)
  have view': "calls_view (cs_world (cl_shared c')) = known_routes m'"
    using fold view removed(1) sub c' by auto
  then have inv: "dedup_inv (cl_shared c')" using fold removed(3) c' by (simp add: dedup_inv_def)
  have "routes_of s (cs_origins (cl_shared c')) = {}" by (simp add: c' routes_of_def removed(4))
  moreover have "set dropped = (\<lambda>(v, d, h). route_new d h) `
      (calls_view ?w - calls_view (cs_world (cl_shared c')))"
    using removed(1) by (simp add: view view' dropped)
  moreover have "\<not> fst (add_next_hop v d h rt)" using assms(3) by (simp add: add_next_hop_new del: rt_abs_iff)
  then have "snd (peer_handle_message (dedup_handler recording_handler s) (MsgUpdate Add v d h) (rt, cl_shared c')) = cl_shared c'"
    by (cases "add_next_hop v d h rt") simp
  ultimately show ?thesis using inv by blast
qed

theorem dropped_routes_stay_lost_witness:
  "snd (peer_handle_message (dedup_handler recording_handler (ServerId 0)) (MsgUpdate Add vni100 net24 hop1)
     (rt_run [(Add, vni100, net24, hop1)],
      cl_shared (snd (remove_server_routes recording_handler (ServerId 0) client1)))) =
   cl_shared (snd (remove_server_routes recording_handler (ServerId 0) client1))"
  using dropped_routes_stay_lost [OF _ prod.collapse [symmetric], of client1 vni100 net24 hop1
      "rt_run [(Add, vni100, net24, hop1)]" "ServerId 0"] dedup_init
    rt_run_refines [of "[(Add, vni100, net24, hop1)]"]
  by (simp add: client1_def del: rt_abs_iff)

end
