(* ===== verification/Routing_Actor.thy ===== *)
theory Routing_Actor
  imports Wire
begin

text \<open>
  The server's routing actor (\<open>RoutingActor\<close> in \<open>src/src/server.rs\<close>): the route table, who
  owns each route, who subscribes to each VNI, and the channel to each peer. Commands are
  handled one at a time.

  A channel to a peer is shared between the actor and the peer's connection handler, so it
  lives in a store and the actor holds its identifier. A channel is bounded; besides its
  queue and whether its receiver is alive it remembers the messages the handler has taken,
  so that \<open>taken @ queue\<close> is all that was ever sent on it.
\<close>

section \<open>Channels\<close>

datatype socket_addr = SocketAddrV4 ipv4_addr u16 | SocketAddrV6 ipv6_addr u16 u32 u32

definition MAX_PENDING_MESSAGES :: nat where "MAX_PENDING_MESSAGES = 50000"

type_synonym chan_id = nat

record channel =
  ch_queue :: "message list"
  ch_open :: bool
  ch_taken :: "message list"

type_synonym channels = "chan_id \<Rightarrow> channel"

definition new_channel :: channel where
  "new_channel = \<lparr>ch_queue = [], ch_open = True, ch_taken = []\<rparr>"

definition ch_history :: "channel \<Rightarrow> message list" where
  "ch_history ch = ch_taken ch @ ch_queue ch"

lemma new_channel_history [simp]: "ch_history new_channel = []"
  by (simp add: ch_history_def new_channel_def)

datatype send_result = Sent | SendFull | SendClosed

definition try_send :: "chan_id \<Rightarrow> message \<Rightarrow> channels \<Rightarrow> send_result \<times> channels" where
  "try_send tx m chans =
     (if \<not> ch_open (chans tx) then (SendClosed, chans)
      else if MAX_PENDING_MESSAGES \<le> length (ch_queue (chans tx)) then (SendFull, chans)
      else (Sent, chans(tx := (chans tx)\<lparr>ch_queue := ch_queue (chans tx) @ [m]\<rparr>)))"

section \<open>State and commands\<close>

record actor =
  a_routes :: route_table
  a_owners :: "(route_key, socket_addr) hash_map"
  a_subs :: "(vni, socket_addr hash_set) hash_map"
  a_peers :: "(socket_addr, chan_id) hash_map"

definition actor_new :: actor where
  "actor_new = \<lparr>a_routes = rt_new, a_owners = [], a_subs = [], a_peers = []\<rparr>"

datatype routing_command =
    PeerConnected socket_addr chan_id
  | PeerDisconnected socket_addr
  | CmdSubscribe socket_addr vni
  | CmdUnsubscribe socket_addr vni
  | CmdUpdate socket_addr action vni destination next_hop
  | GetStats

datatype routing_reply =
    NoReply
  | RoutesReply "(destination \<times> next_hop) list"
  | StatsReply nat nat nat nat

section \<open>Handlers\<close>

definition handle_subscribe ::
    "socket_addr \<Rightarrow> vni \<Rightarrow> actor \<Rightarrow> (destination \<times> next_hop) list \<times> actor" where
  "handle_subscribe addr vni a =
     (let a' = a\<lparr>a_subs := hm_insert vni (hs_insert addr (hm_or_default [] (a_subs a) vni)) (a_subs a)\<rparr>
      in (concat (map (\<lambda>(dest, hops). map (\<lambda>hop. (dest, hop)) hops)
            (get_destinations_by_vni vni (a_routes a'))), a'))"

definition handle_unsubscribe :: "socket_addr \<Rightarrow> vni \<Rightarrow> actor \<Rightarrow> actor" where
  "handle_unsubscribe addr vni a =
     (case hm_get (a_subs a) vni of
        None \<Rightarrow> a
      | Some peers \<Rightarrow>
          let peers' = hs_remove addr peers in
          if peers' = [] then a\<lparr>a_subs := hm_remove vni (a_subs a)\<rparr>
          else a\<lparr>a_subs := hm_insert vni peers' (a_subs a)\<rparr>)"

text \<open>The loop over the subscribers of an update; the sender is left out.\<close>

fun distribute_update ::
    "socket_addr \<Rightarrow> message \<Rightarrow> (socket_addr, chan_id) hash_map \<Rightarrow> socket_addr list \<Rightarrow>
     channels \<times> socket_addr list \<Rightarrow> channels \<times> socket_addr list" where
  "distribute_update from_addr m peers [] (chans, slow) = (chans, slow)"
| "distribute_update from_addr m peers (addr # subs) (chans, slow) =
     (if addr \<noteq> from_addr then
        (case hm_get peers addr of
           None \<Rightarrow> distribute_update from_addr m peers subs (chans, slow)
         | Some tx \<Rightarrow>
             (case try_send tx m chans of (res, chans') \<Rightarrow>
                distribute_update from_addr m peers subs
                  (chans', if res = SendFull then slow @ [addr] else slow)))
      else distribute_update from_addr m peers subs (chans, slow))"

text \<open>The clean-up after both distribution loops.\<close>

definition drop_slow_consumer :: "socket_addr \<Rightarrow> actor \<Rightarrow> actor" where
  "drop_slow_consumer addr a =
     a\<lparr>a_peers := hm_remove addr (a_peers a), a_subs := hm_map_values (hs_remove addr) (a_subs a)\<rparr>"

definition handle_update ::
    "socket_addr \<Rightarrow> action \<Rightarrow> vni \<Rightarrow> destination \<Rightarrow> next_hop \<Rightarrow> actor \<times> channels \<Rightarrow> actor \<times> channels" where
  "handle_update from_addr act vni dest hop s =
     (let (a, chans) = s;
          a1 = (case act of
                  Add \<Rightarrow> a\<lparr>a_routes := snd (add_next_hop vni dest hop (a_routes a)),
                           a_owners := hm_insert (vni, dest, hop) from_addr (a_owners a)\<rparr>
                | Remove \<Rightarrow> a\<lparr>a_routes := snd (remove_next_hop vni dest hop (a_routes a)),
                              a_owners := hm_remove (vni, dest, hop) (a_owners a)\<rparr>);
          m = MsgUpdate act vni dest hop;
          (chans', slow) =
            (case hm_get (a_subs a1) vni of
               None \<Rightarrow> (chans, [])
             | Some subs \<Rightarrow> distribute_update from_addr m (a_peers a1) subs (chans, []))
      in (fold drop_slow_consumer slow a1, chans'))"

text \<open>
  The loop over the subscribers of a withdrawn route of a lost peer: a slow consumer is
  noted once.
\<close>

fun distribute_withdrawal ::
    "message \<Rightarrow> (socket_addr, chan_id) hash_map \<Rightarrow> socket_addr list \<Rightarrow>
     channels \<times> socket_addr list \<Rightarrow> channels \<times> socket_addr list" where
  "distribute_withdrawal m peers [] (chans, slow) = (chans, slow)"
| "distribute_withdrawal m peers (addr # subs) (chans, slow) =
     (case hm_get peers addr of
        None \<Rightarrow> distribute_withdrawal m peers subs (chans, slow)
      | Some tx \<Rightarrow>
          (case try_send tx m chans of (res, chans') \<Rightarrow>
             distribute_withdrawal m peers subs
               (chans', if res = SendFull \<and> addr \<notin> set slow then slow @ [addr] else slow)))"

fun withdraw_owned :: "route_key list \<Rightarrow> actor \<times> channels \<times> socket_addr list \<Rightarrow>
    actor \<times> channels \<times> socket_addr list" where
  "withdraw_owned [] s = s"
| "withdraw_owned ((vni, dest, hop) # ks) (a, chans, slow) =
     (let a1 = a\<lparr>a_routes := snd (remove_next_hop vni dest hop (a_routes a)),
                a_owners := hm_remove (vni, dest, hop) (a_owners a)\<rparr>;
          m = MsgUpdate Remove vni dest hop;
          (chans', slow') =
            (case hm_get (a_subs a1) vni of
               None \<Rightarrow> (chans, slow)
             | Some subs \<Rightarrow> distribute_withdrawal m (a_peers a1) subs (chans, slow))
      in withdraw_owned ks (a1, chans', slow'))"

definition handle_peer_disconnected :: "socket_addr \<Rightarrow> actor \<times> channels \<Rightarrow> actor \<times> channels" where
  "handle_peer_disconnected addr s =
     (let (a, chans) = s;
          a1 = a\<lparr>a_peers := hm_remove addr (a_peers a),
                a_subs := hm_retain (\<lambda>_ peers. peers \<noteq> []) (hm_map_values (hs_remove addr) (a_subs a))\<rparr>;
          owned_routes = map fst (filter (\<lambda>(key, owner). owner = addr) (a_owners a1));
          (a2, chans', slow) = withdraw_owned owned_routes (a1, chans, [])
      in (fold drop_slow_consumer slow a2, chans'))"

definition actor_stats :: "actor \<Rightarrow> nat \<times> nat \<times> nat \<times> nat" where
  "actor_stats a =
     (rt_len (a_routes a), length (a_owners a), length (a_peers a),
      sum_list (map (\<lambda>(v, s). length s) (a_subs a)))"

fun actor_handle :: "routing_command \<Rightarrow> actor \<times> channels \<Rightarrow> routing_reply \<times> actor \<times> channels" where
  "actor_handle (PeerConnected addr tx) (a, chans) =
     (NoReply, a\<lparr>a_peers := hm_insert addr tx (a_peers a)\<rparr>, chans)"
| "actor_handle (PeerDisconnected addr) s = (NoReply, handle_peer_disconnected addr s)"
| "actor_handle (CmdSubscribe addr vni) (a, chans) =
     (case handle_subscribe addr vni a of (routes, a') \<Rightarrow> (RoutesReply routes, a', chans))"
| "actor_handle (CmdUnsubscribe addr vni) (a, chans) = (NoReply, handle_unsubscribe addr vni a, chans)"
| "actor_handle (CmdUpdate from_addr act vni dest hop) s =
     (NoReply, handle_update from_addr act vni dest hop s)"
| "actor_handle GetStats (a, chans) =
     (case actor_stats a of (r, o', p, n) \<Rightarrow> (StatsReply r o' p n, a, chans))"

section \<open>The invariant\<close>

text \<open>
  The owner map covers exactly the stored routes. Subscription sets may be empty (the
  clean-up of slow consumers leaves them so) but hold no address twice.
\<close>

definition actor_wf :: "actor \<Rightarrow> bool" where
  "actor_wf a \<longleftrightarrow> rt_wf (a_routes a) \<and> hm_wf (a_owners a) \<and> hm_wf (a_subs a) \<and> hm_wf (a_peers a) \<and>
     (\<forall>v ss. hm_get (a_subs a) v = Some ss \<longrightarrow> distinct ss) \<and>
     (\<forall>k. k \<in> rt_abs (a_routes a) \<longleftrightarrow> hm_get (a_owners a) k \<noteq> None)"

definition subscribed :: "socket_addr \<Rightarrow> vni \<Rightarrow> actor \<Rightarrow> bool" where
  "subscribed addr v a \<longleftrightarrow> addr \<in> set (hm_or_default [] (a_subs a) v)"

lemma subscribed_iff: "subscribed addr v a \<longleftrightarrow> (\<exists>ss. hm_get (a_subs a) v = Some ss \<and> addr \<in> set ss)"
  by (cases "hm_get (a_subs a) v") (auto simp: subscribed_def hm_or_default_def)

lemma actor_new_wf: "actor_wf actor_new"
  by (simp add: actor_wf_def actor_new_def)

section \<open>Channels\<close>

lemma try_send_cases:
  "try_send tx m chans = (Sent, chans(tx := (chans tx)\<lparr>ch_queue := ch_queue (chans tx) @ [m]\<rparr>)) \<and>
     ch_open (chans tx) \<and> length (ch_queue (chans tx)) < MAX_PENDING_MESSAGES \<or>
   try_send tx m chans = (SendFull, chans) \<and>
     ch_open (chans tx) \<and> MAX_PENDING_MESSAGES \<le> length (ch_queue (chans tx)) \<or>
   try_send tx m chans = (SendClosed, chans) \<and> \<not> ch_open (chans tx)"
  by (auto simp: try_send_def)

text \<open>Whether a message for the channel would be accepted, and the channel after it.\<close>

definition ch_accepts :: "channel \<Rightarrow> bool" where
  "ch_accepts ch \<longleftrightarrow> ch_open ch \<and> length (ch_queue ch) < MAX_PENDING_MESSAGES"

definition ch_push :: "message \<Rightarrow> channel \<Rightarrow> channel" where
  "ch_push m ch = (if ch_accepts ch then ch\<lparr>ch_queue := ch_queue ch @ [m]\<rparr> else ch)"

lemma try_send_push: "snd (try_send tx m chans) = chans(tx := ch_push m (chans tx))"
  by (auto simp: try_send_def ch_push_def ch_accepts_def)

lemma try_send_full: "fst (try_send tx m chans) = SendFull \<longleftrightarrow>
    ch_open (chans tx) \<and> MAX_PENDING_MESSAGES \<le> length (ch_queue (chans tx))"
  by (auto simp: try_send_def)

lemma ch_push_bound:
  "length (ch_queue ch) \<le> MAX_PENDING_MESSAGES \<Longrightarrow> length (ch_queue (ch_push m ch)) \<le> MAX_PENDING_MESSAGES"
  by (simp add: ch_push_def ch_accepts_def)

lemma ch_push_open [simp]: "ch_open (ch_push m ch) = ch_open ch"
  by (simp add: ch_push_def)

lemma ch_push_taken [simp]: "ch_taken (ch_push m ch) = ch_taken ch"
  by (simp add: ch_push_def)

lemma ch_push_history: "ch_history (ch_push m ch) = ch_history ch @ (if ch_accepts ch then [m] else [])"
  by (simp add: ch_push_def ch_history_def)

end
