(* ===== verification/Actor_Spec.thy ===== *)
theory Actor_Spec
  imports Routing_Actor
begin

text \<open>
  The specification of the routing actor. An abstract state says which peer owns each
  route, who subscribes to what and which channel reaches each peer; a command changes it
  and the channels by plain set and map operations, with no iteration order. The actor is
  shown to implement it, and to keep its own invariant.
\<close>

section \<open>Channels under a sequence of messages\<close>

definition ch_full :: "channel \<Rightarrow> bool" where
  "ch_full ch \<longleftrightarrow> ch_open ch \<and> MAX_PENDING_MESSAGES \<le> length (ch_queue ch)"

fun push_all :: "message list \<Rightarrow> channel \<Rightarrow> channel" where
  "push_all [] ch = ch"
| "push_all (m # ms) ch = push_all ms (ch_push m ch)"

fun overflows :: "message list \<Rightarrow> channel \<Rightarrow> bool" where
  "overflows [] ch = False"
| "overflows (m # ms) ch = (ch_full ch \<or> overflows ms (ch_push m ch))"

lemma push_all_open [simp]: "ch_open (push_all ms ch) = ch_open ch"
  by (induction ms arbitrary: ch) auto

lemma push_all_taken [simp]: "ch_taken (push_all ms ch) = ch_taken ch"
  by (induction ms arbitrary: ch) auto

lemma push_all_append: "push_all (xs @ ys) ch = push_all ys (push_all xs ch)"
  by (induction xs arbitrary: ch) auto

lemma overflows_append: "overflows (xs @ ys) ch \<longleftrightarrow> overflows xs ch \<or> overflows ys (push_all xs ch)"
  by (induction xs arbitrary: ch) auto

lemma ch_push_not_full: "ch_open ch \<Longrightarrow> \<not> ch_full ch \<Longrightarrow> ch_push m ch = ch\<lparr>ch_queue := ch_queue ch @ [m]\<rparr>"
  by (simp add: ch_push_def ch_accepts_def ch_full_def)

text \<open>An open channel that does not overflow takes every message, in order.\<close>

lemma push_all_no_overflow:
  "ch_open ch \<Longrightarrow> \<not> overflows ms ch \<Longrightarrow> push_all ms ch = ch\<lparr>ch_queue := ch_queue ch @ ms\<rparr>"
  by (induction ms arbitrary: ch) (auto simp: ch_push_not_full)

lemma push_all_bound:
  "length (ch_queue ch) \<le> MAX_PENDING_MESSAGES \<Longrightarrow>
     length (ch_queue (push_all ms ch)) \<le> MAX_PENDING_MESSAGES"
  by (induction ms arbitrary: ch) (auto simp: ch_push_bound)

lemma overflows_iff:
  assumes "length (ch_queue ch) \<le> MAX_PENDING_MESSAGES"
  shows "overflows ms ch \<longleftrightarrow> ch_open ch \<and> MAX_PENDING_MESSAGES < length (ch_queue ch) + length ms"
  using assms
proof (induction ms arbitrary: ch)
  case Nil
  then show ?case by simp
next
  case (Cons m ms)
  show ?case
  proof (cases "ch_full ch")
    case True
    then show ?thesis by (auto simp: ch_full_def)
  next
    case False
    from Cons.IH [OF ch_push_bound [OF Cons.prems, of m]] False Cons.prems show ?thesis
      by (cases "ch_open ch") (auto simp: ch_push_not_full ch_full_def)
  qed
qed

section \<open>The abstract state and its operations\<close>

record actor_spec =
  sp_owners :: "route_key \<Rightarrow> socket_addr option"
  sp_subs :: "(socket_addr \<times> vni) set"
  sp_peers :: "socket_addr \<Rightarrow> chan_id option"

definition actor_abs :: "actor \<Rightarrow> actor_spec" where
  "actor_abs a = \<lparr>sp_owners = hm_get (a_owners a), sp_subs = {(p, v). subscribed p v a},
                 sp_peers = hm_get (a_peers a)\<rparr>"

text \<open>Forget the peers of a set: no channel, no subscriptions.\<close>

definition sp_evict :: "socket_addr set \<Rightarrow> actor_spec \<Rightarrow> actor_spec" where
  "sp_evict P S = S\<lparr>sp_subs := {(p, v). (p, v) \<in> sp_subs S \<and> p \<notin> P},
                    sp_peers := (\<lambda>p. if p \<in> P then None else sp_peers S p)\<rparr>"

text \<open>Each peer's channel gets the messages for that peer, in order; no other channel changes.\<close>

definition sp_delivered ::
    "(socket_addr \<Rightarrow> message list) \<Rightarrow> actor_spec \<Rightarrow> channels \<Rightarrow> channels \<Rightarrow> bool" where
  "sp_delivered msgs S chans chans' \<longleftrightarrow>
     (\<forall>p c. sp_peers S p = Some c \<longrightarrow> chans' c = push_all (msgs p) (chans c)) \<and>
     (\<forall>c. c \<notin> ran (sp_peers S) \<longrightarrow> chans' c = chans c)"

definition sp_slow :: "(socket_addr \<Rightarrow> message list) \<Rightarrow> actor_spec \<Rightarrow> channels \<Rightarrow> socket_addr set" where
  "sp_slow msgs S chans = {p. \<exists>c. sp_peers S p = Some c \<and> overflows (msgs p) (chans c)}"

definition sp_owned :: "(route_key \<Rightarrow> socket_addr option) \<Rightarrow> action \<Rightarrow> route_key \<Rightarrow> socket_addr \<Rightarrow>
    route_key \<Rightarrow> socket_addr option" where
  "sp_owned ow act k p = (case act of Add \<Rightarrow> ow(k \<mapsto> p) | Remove \<Rightarrow> ow(k := None))"

definition key_message :: "action \<Rightarrow> route_key \<Rightarrow> message" where
  "key_message act k = MsgUpdate act (fst k) (fst (snd k)) (snd (snd k))"

text \<open>What one peer is sent: an update it did not send itself, or a list of withdrawals.\<close>

definition sp_update_msgs :: "socket_addr \<Rightarrow> action \<Rightarrow> route_key \<Rightarrow> actor_spec \<Rightarrow> socket_addr \<Rightarrow> message list" where
  "sp_update_msgs from_addr act k S p =
     (if (p, fst k) \<in> sp_subs S \<and> p \<noteq> from_addr then [key_message act k] else [])"

definition sp_withdraw_msgs :: "route_key list \<Rightarrow> actor_spec \<Rightarrow> socket_addr \<Rightarrow> message list" where
  "sp_withdraw_msgs ks S p = map (key_message Remove) (filter (\<lambda>k. (p, fst k) \<in> sp_subs S) ks)"

definition peers_inj :: "(socket_addr, chan_id) hash_map \<Rightarrow> bool" where
  "peers_inj peers \<longleftrightarrow> (\<forall>p q c. hm_get peers p = Some c \<longrightarrow> hm_get peers q = Some c \<longrightarrow> p = q)"

lemma peers_injD: "peers_inj peers \<Longrightarrow> hm_get peers p = Some c \<Longrightarrow> hm_get peers q = Some c \<Longrightarrow> p = q"
  by (auto simp: peers_inj_def)

lemma sp_deliveredD:
  assumes "sp_delivered msgs S chans chans'" and "sp_peers S p = Some c"
  shows "chans' c = push_all (msgs p) (chans c)"
  using assms by (simp add: sp_delivered_def)

section \<open>Distribution\<close>

text \<open>
  With distinct subscribers and a channel for each peer of its own, one message reaches
  exactly the subscribers that have a channel; the ones whose channel is full are noted.
\<close>

definition chans_pushed ::
    "message \<Rightarrow> (socket_addr, chan_id) hash_map \<Rightarrow> socket_addr set \<Rightarrow> channels \<Rightarrow> channels" where
  "chans_pushed m peers P chans =
     (\<lambda>c. if \<exists>p\<in>P. hm_get peers p = Some c then ch_push m (chans c) else chans c)"

definition full_peers :: "(socket_addr, chan_id) hash_map \<Rightarrow> socket_addr set \<Rightarrow> channels \<Rightarrow> socket_addr set" where
  "full_peers peers P chans = {p \<in> P. \<exists>c. hm_get peers p = Some c \<and> ch_full (chans c)}"

lemma chans_pushed_step:
  assumes "peers_inj peers" and "hm_get peers p = Some c" and "p \<notin> P"
  shows "chans_pushed m peers P (chans(c := ch_push m (chans c))) = chans_pushed m peers (insert p P) chans"
    and "full_peers peers P (chans(c := ch_push m (chans c))) = full_peers peers P chans"
proof -
  have "\<not> (\<exists>q\<in>P. hm_get peers q = Some c)" using assms by (auto dest: peers_injD)
  then show "chans_pushed m peers P (chans(c := ch_push m (chans c))) = chans_pushed m peers (insert p P) chans"
    and "full_peers peers P (chans(c := ch_push m (chans c))) = full_peers peers P chans"
    using assms by (fastforce simp: chans_pushed_def full_peers_def)+
qed

lemma chans_pushed_skip:
  "hm_get peers p = None \<Longrightarrow> chans_pushed m peers (insert p P) chans = chans_pushed m peers P chans"
  by (auto simp: chans_pushed_def)

lemma full_peers_insert:
  "full_peers peers (insert p P) chans =
     (if \<exists>c. hm_get peers p = Some c \<and> ch_full (chans c) then {p} else {}) \<union> full_peers peers P chans"
  by (auto simp: full_peers_def)

lemma distribute_update_outcome:
  assumes "peers_inj peers" and "distinct subs"
  shows "fst (distribute_update from_addr m peers subs (chans, slow)) =
      chans_pushed m peers (set subs - {from_addr}) chans \<and>
    set (snd (distribute_update from_addr m peers subs (chans, slow))) =
      set slow \<union> full_peers peers (set subs - {from_addr}) chans"
  using assms(2)
proof (induction subs arbitrary: chans slow)
  case Nil
  then show ?case by (simp add: chans_pushed_def full_peers_def)
next
  case (Cons p subs)
  show ?case
  proof (cases "p = from_addr \<or> hm_get peers p = None")
    case True
    with Cons show ?thesis
      by (auto simp: insert_Diff_if chans_pushed_skip full_peers_insert)
  next
    case False
    then obtain c where c: "hm_get peers p = Some c" "p \<noteq> from_addr" by auto
    obtain res where r: "try_send c m chans = (res, chans(c := ch_push m (chans c)))"
      using try_send_push by (metis prod.collapse)
    then have full: "res = SendFull \<longleftrightarrow> ch_full (chans c)"
      using try_send_full [of c m chans] by (simp add: ch_full_def)
    have "p \<notin> set subs - {from_addr}" using Cons.prems by simp
    from Cons chans_pushed_step [OF assms(1) c(1) this] c r full show ?thesis
      by (auto simp: insert_Diff_if full_peers_insert)
  qed
qed

lemma distribute_withdrawal_outcome:
  assumes "peers_inj peers" and "distinct subs"
  shows "fst (distribute_withdrawal m peers subs (chans, slow)) = chans_pushed m peers (set subs) chans \<and>
    set (snd (distribute_withdrawal m peers subs (chans, slow))) =
      set slow \<union> full_peers peers (set subs) chans"
  using assms(2)
proof (induction subs arbitrary: chans slow)
  case Nil
  then show ?case by (simp add: chans_pushed_def full_peers_def)
next
  case (Cons p subs)
  show ?case
  proof (cases "hm_get peers p")
    case None
    with Cons show ?thesis by (auto simp: chans_pushed_skip full_peers_insert)
  next
    case (Some c)
    obtain res where r: "try_send c m chans = (res, chans(c := ch_push m (chans c)))"
      using try_send_push by (metis prod.collapse)
    then have full: "res = SendFull \<longleftrightarrow> ch_full (chans c)"
      using try_send_full [of c m chans] by (simp add: ch_full_def)
    have "p \<notin> set subs" using Cons.prems by simp
    from Cons chans_pushed_step [OF assms(1) Some this] Some r full show ?thesis
      by (auto simp: full_peers_insert)
  qed
qed

section \<open>Dropping slow consumers\<close>

lemma drop_slow_consumer_fields [simp]:
  "a_routes (drop_slow_consumer p a) = a_routes a" "a_owners (drop_slow_consumer p a) = a_owners a"
  "hm_get (a_peers (drop_slow_consumer p a)) q = (if q = p then None else hm_get (a_peers a) q)"
  "hm_get (a_subs (drop_slow_consumer p a)) v = map_option (hs_remove p) (hm_get (a_subs a) v)"
  by (simp_all add: drop_slow_consumer_def)

lemma drop_slow_consumer_wf: "actor_wf a \<Longrightarrow> actor_wf (drop_slow_consumer p a)"
  by (auto simp: actor_wf_def drop_slow_consumer_def)

lemma drop_slow_consumer_subscribed:
  "subscribed q v (drop_slow_consumer p a) \<longleftrightarrow> subscribed q v a \<and> q \<noteq> p"
  by (auto simp: subscribed_iff)

lemma drop_slow_consumers:
  "actor_wf a \<Longrightarrow> actor_wf (fold drop_slow_consumer ps a) \<and>
     a_routes (fold drop_slow_consumer ps a) = a_routes a \<and>
     actor_abs (fold drop_slow_consumer ps a) = sp_evict (set ps) (actor_abs a)"
proof (induction ps arbitrary: a)
  case Nil
  then show ?case by (simp add: sp_evict_def)
next
  case (Cons p ps)
  have "sp_evict (set ps) (actor_abs (drop_slow_consumer p a)) = sp_evict (set (p # ps)) (actor_abs a)"
    by (auto simp: sp_evict_def actor_abs_def drop_slow_consumer_subscribed fun_eq_iff)
  with Cons.IH [OF drop_slow_consumer_wf [OF Cons.prems, of p]] show ?case by simp
qed

section \<open>Updates\<close>

text \<open>Storing or removing a route keeps the owner map in step with the table.\<close>

lemma actor_wf_store:
  assumes "actor_wf a"
  shows "actor_wf (a\<lparr>a_routes := snd (add_next_hop v d h (a_routes a)),
                     a_owners := hm_insert (v, d, h) p (a_owners a)\<rparr>)"
  using assms by (auto simp: actor_wf_def add_next_hop_wf add_next_hop_exists)

lemma actor_wf_unstore:
  assumes "actor_wf a"
  shows "actor_wf (a\<lparr>a_routes := snd (remove_next_hop v d h (a_routes a)),
                     a_owners := hm_remove (v, d, h) (a_owners a)\<rparr>)"
  using assms by (auto simp: actor_wf_def remove_next_hop_wf remove_next_hop_exists)

definition store_update ::
    "socket_addr \<Rightarrow> action \<Rightarrow> vni \<Rightarrow> destination \<Rightarrow> next_hop \<Rightarrow> actor \<Rightarrow> actor" where
  "store_update from_addr act v d h a = (case act of
     Add \<Rightarrow> a\<lparr>a_routes := snd (add_next_hop v d h (a_routes a)),
             a_owners := hm_insert (v, d, h) from_addr (a_owners a)\<rparr>
   | Remove \<Rightarrow> a\<lparr>a_routes := snd (remove_next_hop v d h (a_routes a)),
                a_owners := hm_remove (v, d, h) (a_owners a)\<rparr>)"

lemma store_update_fields [simp]:
  "a_subs (store_update p act v d h a) = a_subs a" "a_peers (store_update p act v d h a) = a_peers a"
  by (simp_all add: store_update_def split: action.split)

lemma store_update_wf: "actor_wf a \<Longrightarrow> actor_wf (store_update p act v d h a)"
  by (auto simp: store_update_def actor_wf_store actor_wf_unstore split: action.split)

lemma store_update_abs:
  "actor_abs (store_update p act v d h a) =
     (actor_abs a)\<lparr>sp_owners := sp_owned (sp_owners (actor_abs a)) act (v, d, h) p\<rparr>"
  by (auto simp: store_update_def actor_abs_def subscribed_def sp_owned_def fun_eq_iff split: action.split)

lemma store_update_routes:
  "actor_wf a \<Longrightarrow> rt_abs (a_routes (store_update p act v d h a)) = apply_action act (v, d, h) (rt_abs (a_routes a))"
  by (auto simp: store_update_def actor_wf_def add_next_hop_abs remove_next_hop_exists split: action.split)

lemma handle_update_store:
  "handle_update p act v d h (a, chans) =
     (case distribute_update p (MsgUpdate act v d h) (a_peers a) (hm_or_default [] (a_subs a) v) (chans, [])
      of (chans', slow) \<Rightarrow> (fold drop_slow_consumer slow (store_update p act v d h a), chans'))"
  by (cases act; cases "hm_get (a_subs a) v")
     (simp_all add: handle_update_def store_update_def hm_or_default_def)

lemma actor_wf_subs: "actor_wf a \<Longrightarrow> distinct (hm_or_default [] (a_subs a) v)"
  by (auto simp: actor_wf_def hm_or_default_def split: option.splits)

lemma chans_pushed_delivered:
  assumes "\<And>p. hm_get (a_peers a) p \<noteq> None \<Longrightarrow> msgs p = (if p \<in> P then [m] else [])"
    and "peers_inj (a_peers a)"
  shows "sp_delivered msgs (actor_abs a) chans (chans_pushed m (a_peers a) P chans)"
    and "full_peers (a_peers a) P chans = sp_slow msgs (actor_abs a) chans"
  using assms
  by (auto simp: sp_delivered_def chans_pushed_def actor_abs_def ran_def full_peers_def sp_slow_def
      dest: peers_injD split: if_splits)

theorem handle_update_refines:
  assumes "actor_wf a" and "peers_inj (a_peers a)"
    and r: "handle_update p act v d h (a, chans) = (a', chans')"
  defines "S \<equiv> actor_abs a" and "k \<equiv> (v, d, h)"
  defines "msgs \<equiv> sp_update_msgs p act k S"
  shows "actor_wf a'" and "rt_abs (a_routes a') = apply_action act k (rt_abs (a_routes a))"
    and "actor_abs a' = sp_evict (sp_slow msgs S chans) (S\<lparr>sp_owners := sp_owned (sp_owners S) act k p\<rparr>)"
    and "sp_delivered msgs S chans chans'"
proof -
  let ?subs = "hm_or_default [] (a_subs a) v" and ?m = "MsgUpdate act v d h"
  let ?a1 = "store_update p act v d h a"
  obtain slow where slow: "distribute_update p ?m (a_peers a) ?subs (chans, []) = (chans', slow)"
    and a': "a' = fold drop_slow_consumer slow ?a1"
    using r by (auto simp: handle_update_store split: prod.splits)
  have msgs: "msgs q = (if q \<in> set ?subs - {p} then [?m] else [])" for q
    by (simp add: msgs_def sp_update_msgs_def S_def k_def actor_abs_def subscribed_def key_message_def)
  have "chans' = chans_pushed ?m (a_peers a) (set ?subs - {p}) chans"
    and "set slow = full_peers (a_peers a) (set ?subs - {p}) chans"
    using distribute_update_outcome [OF assms(2) actor_wf_subs [OF assms(1)], of p ?m v chans "[]"] slow
    by simp_all
  then have del: "sp_delivered msgs S chans chans'" and slow_set: "set slow = sp_slow msgs S chans"
    using chans_pushed_delivered [of a msgs "set ?subs - {p}" ?m chans] msgs assms(2) by (simp_all add: S_def)
  note dropped = drop_slow_consumers [OF store_update_wf [OF assms(1)], of slow p act v d h]
  show "actor_wf a'" using dropped by (simp add: a')
  show "rt_abs (a_routes a') = apply_action act k (rt_abs (a_routes a))"
    using dropped store_update_routes [OF assms(1)] by (simp add: a' k_def)
  show "actor_abs a' = sp_evict (sp_slow msgs S chans) (S\<lparr>sp_owners := sp_owned (sp_owners S) act k p\<rparr>)"
    using dropped slow_set by (simp add: a' store_update_abs S_def k_def)
  show "sp_delivered msgs S chans chans'" by (rule del)
qed

section \<open>The loss of a peer\<close>

lemma sp_delivered_trans:
  assumes "sp_delivered ms1 S chans chans1" and "sp_delivered ms2 S chans1 chans2"
  shows "sp_delivered (\<lambda>p. ms1 p @ ms2 p) S chans chans2"
    and "sp_slow (\<lambda>p. ms1 p @ ms2 p) S chans = sp_slow ms1 S chans \<union> sp_slow ms2 S chans1"
  using assms by (auto simp: sp_delivered_def sp_slow_def push_all_append overflows_append)

text \<open>Owners and routes play no part in delivery.\<close>

lemma sp_owners_irrelevant [simp]:
  "sp_delivered msgs (S\<lparr>sp_owners := f\<rparr>) = sp_delivered msgs S"
  "sp_slow msgs (S\<lparr>sp_owners := f\<rparr>) = sp_slow msgs S"
  "sp_withdraw_msgs ks (S\<lparr>sp_owners := f\<rparr>) = sp_withdraw_msgs ks S"
  by (simp_all add: sp_delivered_def sp_slow_def sp_withdraw_msgs_def fun_eq_iff)

lemma sp_withdraw_msgs_Cons:
  "sp_withdraw_msgs (k # ks) S = (\<lambda>p. sp_withdraw_msgs [k] S p @ sp_withdraw_msgs ks S p)"
  by (simp add: sp_withdraw_msgs_def fun_eq_iff)

lemma withdraw_owned_step:
  "withdraw_owned ((v, d, h) # ks) (a, chans, slow) =
     (let a1 = store_update p Remove v d h a;
          (chans', slow') = distribute_withdrawal (MsgUpdate Remove v d h) (a_peers a)
             (hm_or_default [] (a_subs a) v) (chans, slow)
      in withdraw_owned ks (a1, chans', slow'))"
  by (cases "hm_get (a_subs a) v") (simp_all add: store_update_def hm_or_default_def)

definition sp_disown :: "route_key set \<Rightarrow> (route_key \<Rightarrow> socket_addr option) \<Rightarrow> route_key \<Rightarrow> socket_addr option" where
  "sp_disown K ow = (\<lambda>k. if k \<in> K then None else ow k)"

lemma withdraw_owned_outcome:
  assumes "actor_wf a" and "peers_inj (a_peers a)"
    and "withdraw_owned ks (a, chans, slow) = (a', chans', slow')"
  shows "actor_wf a' \<and> rt_abs (a_routes a') = rt_abs (a_routes a) - set ks \<and>
    actor_abs a' = (actor_abs a)\<lparr>sp_owners := sp_disown (set ks) (sp_owners (actor_abs a))\<rparr> \<and>
    sp_delivered (sp_withdraw_msgs ks (actor_abs a)) (actor_abs a) chans chans' \<and>
    set slow' = set slow \<union> sp_slow (sp_withdraw_msgs ks (actor_abs a)) (actor_abs a) chans"
  using assms
proof (induction ks arbitrary: a chans slow)
  case Nil
  then show ?case
    by (auto simp: sp_delivered_def sp_slow_def sp_withdraw_msgs_def sp_disown_def)
next
  case (Cons k ks)
  obtain v d h where k: "k = (v, d, h)" by (cases k)
  let ?S = "actor_abs a" and ?m = "MsgUpdate Remove v d h" and ?subs = "hm_or_default [] (a_subs a) v"
  define a1 where "a1 = store_update undefined Remove v d h a"
  obtain chans1 slow1 where dw: "distribute_withdrawal ?m (a_peers a) ?subs (chans, slow) = (chans1, slow1)"
    by fastforce
  have "chans1 = chans_pushed ?m (a_peers a) (set ?subs) chans"
    and "set slow1 = set slow \<union> full_peers (a_peers a) (set ?subs) chans"
    using distribute_withdrawal_outcome [OF Cons.prems(2) actor_wf_subs [OF Cons.prems(1)], of ?m v chans slow] dw
    by simp_all
  moreover have "sp_withdraw_msgs [k] ?S q = (if q \<in> set ?subs then [?m] else [])" for q
    by (simp add: sp_withdraw_msgs_def k actor_abs_def subscribed_def key_message_def)
  ultimately have one: "sp_delivered (sp_withdraw_msgs [k] ?S) ?S chans chans1"
    and slow1: "set slow1 = set slow \<union> sp_slow (sp_withdraw_msgs [k] ?S) ?S chans"
    using chans_pushed_delivered [of a "sp_withdraw_msgs [k] ?S" "set ?subs" ?m chans] Cons.prems(2) by simp_all
  have abs1: "actor_abs a1 = ?S\<lparr>sp_owners := sp_owned (sp_owners ?S) Remove k undefined\<rparr>"
    by (simp add: a1_def store_update_abs k)
  have "withdraw_owned ks (a1, chans1, slow1) = (a', chans', slow')"
    using Cons.prems(3) dw by (simp add: k withdraw_owned_step [of _ _ _ _ _ _ _ undefined] a1_def
        del: withdraw_owned.simps)
  from Cons.IH [OF _ _ this] store_update_wf [OF Cons.prems(1)] Cons.prems(2)
  have rest: "actor_wf a' \<and> rt_abs (a_routes a') = rt_abs (a_routes a1) - set ks \<and>
    actor_abs a' = (actor_abs a1)\<lparr>sp_owners := sp_disown (set ks) (sp_owners (actor_abs a1))\<rparr> \<and>
    sp_delivered (sp_withdraw_msgs ks ?S) ?S chans1 chans' \<and>
    set slow' = set slow1 \<union> sp_slow (sp_withdraw_msgs ks ?S) ?S chans1"
    by (simp add: a1_def store_update_abs)
  moreover have "rt_abs (a_routes a1) = rt_abs (a_routes a) - {k}"
    using store_update_routes [OF Cons.prems(1)] by (simp add: a1_def k)
  moreover have "sp_disown (set ks) (sp_owned (sp_owners ?S) Remove k undefined) =
      sp_disown (set (k # ks)) (sp_owners ?S)"
    by (auto simp: sp_disown_def sp_owned_def fun_eq_iff)
  moreover note sp_delivered_trans [OF one, of "sp_withdraw_msgs ks ?S" chans']
  ultimately show ?case
    using slow1 abs1 by (auto simp: sp_withdraw_msgs_Cons [of k ks])
qed

text \<open>The first part of the clean-up is the abstract eviction of the lost peer.\<close>

definition forget_peer :: "socket_addr \<Rightarrow> actor \<Rightarrow> actor" where
  "forget_peer p a = a\<lparr>a_peers := hm_remove p (a_peers a),
     a_subs := hm_retain (\<lambda>_ peers. peers \<noteq> []) (hm_map_values (hs_remove p) (a_subs a))\<rparr>"

lemma forget_peer_subs:
  "actor_wf a \<Longrightarrow> hm_get (a_subs (forget_peer p a)) v =
     (case hm_get (a_subs a) v of None \<Rightarrow> None
      | Some ps \<Rightarrow> if hs_remove p ps = [] then None else Some (hs_remove p ps))"
  by (auto simp: forget_peer_def actor_wf_def hm_get_retain split: option.splits)

lemma forget_peer_wf: "actor_wf a \<Longrightarrow> actor_wf (forget_peer p a)"
  using forget_peer_subs [of a p]
  by (auto simp: actor_wf_def forget_peer_def split: option.splits if_splits)

lemma forget_peer_abs: "actor_wf a \<Longrightarrow> actor_abs (forget_peer p a) = sp_evict {p} (actor_abs a)"
proof -
  assume a: "actor_wf a"
  have "subscribed q v (forget_peer p a) \<longleftrightarrow> subscribed q v a \<and> q \<noteq> p" for q v
    by (auto simp: subscribed_iff forget_peer_subs [OF a] split: option.splits)
      (metis empty_iff empty_set insert_Diff_single insert_iff set_hs_remove)+
  then show ?thesis by (simp add: actor_abs_def sp_evict_def forget_peer_def fun_eq_iff)
qed

lemma forget_peer_inj: "peers_inj (a_peers a) \<Longrightarrow> peers_inj (a_peers (forget_peer p a))"
  by (auto simp: peers_inj_def forget_peer_def split: if_splits)

text \<open>The routes of the lost peer, in the iteration order of the owner map.\<close>

definition owned_keys :: "socket_addr \<Rightarrow> actor \<Rightarrow> route_key list" where
  "owned_keys p a = map fst (filter (\<lambda>(key, owner). owner = p) (a_owners a))"

lemma set_owned_keys: "actor_wf a \<Longrightarrow> set (owned_keys p a) = {k. sp_owners (actor_abs a) k = Some p}"
  by (auto simp: owned_keys_def actor_abs_def actor_wf_def hm_get_iff image_iff)

lemma distinct_owned_keys: "actor_wf a \<Longrightarrow> distinct (owned_keys p a)"
  by (simp add: owned_keys_def actor_wf_def hm_wf_def distinct_map_filter)

lemma handle_peer_disconnected_forget:
  "handle_peer_disconnected p (a, chans) =
     (case withdraw_owned (owned_keys p a) (forget_peer p a, chans, []) of (a2, chans', slow) \<Rightarrow>
        (fold drop_slow_consumer slow a2, chans'))"
  by (simp add: handle_peer_disconnected_def forget_peer_def owned_keys_def)

theorem handle_peer_disconnected_refines:
  assumes "actor_wf a" and "peers_inj (a_peers a)"
    and r: "handle_peer_disconnected p (a, chans) = (a', chans')"
  defines "S1 \<equiv> sp_evict {p} (actor_abs a)" and "ks \<equiv> owned_keys p a"
  defines "msgs \<equiv> sp_withdraw_msgs ks S1"
  shows "actor_wf a'" and "rt_abs (a_routes a') = rt_abs (a_routes a) - set ks"
    and "actor_abs a' = sp_evict (sp_slow msgs S1 chans)
           (S1\<lparr>sp_owners := sp_disown (set ks) (sp_owners (actor_abs a))\<rparr>)"
    and "sp_delivered msgs S1 chans chans'"
proof -
  obtain a2 slow where w: "withdraw_owned ks (forget_peer p a, chans, []) = (a2, chans', slow)"
    and a': "a' = fold drop_slow_consumer slow a2"
    using r by (auto simp: handle_peer_disconnected_forget ks_def split: prod.splits)
  note out = withdraw_owned_outcome [OF forget_peer_wf [OF assms(1)] forget_peer_inj [OF assms(2)] w,
      unfolded forget_peer_abs [OF assms(1)], folded S1_def, folded msgs_def]
  have owners: "sp_owners S1 = sp_owners (actor_abs a)" by (simp add: S1_def sp_evict_def)
  have routes: "a_routes (forget_peer p a) = a_routes a" by (simp add: forget_peer_def)
  note dropped = drop_slow_consumers [of a2 slow]
  show "actor_wf a'" using out dropped by (simp add: a')
  show "rt_abs (a_routes a') = rt_abs (a_routes a) - set ks" using out dropped routes by (simp add: a')
  show "actor_abs a' = sp_evict (sp_slow msgs S1 chans)
           (S1\<lparr>sp_owners := sp_disown (set ks) (sp_owners (actor_abs a))\<rparr>)"
    using out dropped owners by (simp add: a')
  show "sp_delivered msgs S1 chans chans'" using out by simp
qed

section \<open>The specification of a command\<close>

text \<open>
  One command on the abstract state: the reply, the new state and the channels. The order
  in which the routes of a lost peer are withdrawn is left open.
\<close>

definition sp_routes_of :: "vni \<Rightarrow> actor_spec \<Rightarrow> (destination \<times> next_hop) set" where
  "sp_routes_of v S = {(d, h). sp_owners S (v, d, h) \<noteq> None}"

fun sp_step :: "routing_command \<Rightarrow> actor_spec \<times> channels \<Rightarrow> routing_reply \<Rightarrow> actor_spec \<times> channels \<Rightarrow> bool" where
  "sp_step (PeerConnected p tx) (S, chans) reply (S', chans') \<longleftrightarrow>
     reply = NoReply \<and> S' = S\<lparr>sp_peers := (sp_peers S)(p \<mapsto> tx)\<rparr> \<and> chans' = chans"
| "sp_step (PeerDisconnected p) (S, chans) reply (S', chans') \<longleftrightarrow>
     reply = NoReply \<and>
     (\<exists>ks. distinct ks \<and> set ks = {k. sp_owners S k = Some p} \<and>
        (let S1 = sp_evict {p} S; msgs = sp_withdraw_msgs ks S1 in
         S' = sp_evict (sp_slow msgs S1 chans) (S1\<lparr>sp_owners := sp_disown (set ks) (sp_owners S)\<rparr>) \<and>
         sp_delivered msgs S1 chans chans'))"
| "sp_step (CmdSubscribe p v) (S, chans) reply (S', chans') \<longleftrightarrow>
     (\<exists>rs. reply = RoutesReply rs \<and> distinct rs \<and> set rs = sp_routes_of v S) \<and>
     S' = S\<lparr>sp_subs := insert (p, v) (sp_subs S)\<rparr> \<and> chans' = chans"
| "sp_step (CmdUnsubscribe p v) (S, chans) reply (S', chans') \<longleftrightarrow>
     reply = NoReply \<and> S' = S\<lparr>sp_subs := sp_subs S - {(p, v)}\<rparr> \<and> chans' = chans"
| "sp_step (CmdUpdate p act v d h) (S, chans) reply (S', chans') \<longleftrightarrow>
     reply = NoReply \<and>
     (let msgs = sp_update_msgs p act (v, d, h) S in
      S' = sp_evict (sp_slow msgs S chans) (S\<lparr>sp_owners := sp_owned (sp_owners S) act (v, d, h) p\<rparr>) \<and>
      sp_delivered msgs S chans chans')"
| "sp_step GetStats (S, chans) reply (S', chans') \<longleftrightarrow>
     reply = StatsReply (card (dom (sp_owners S))) (card (dom (sp_owners S)))
       (card (dom (sp_peers S))) (card (sp_subs S)) \<and> S' = S \<and> chans' = chans"

lemma handle_subscribe_wf: "actor_wf a \<Longrightarrow> actor_wf (snd (handle_subscribe p v a))"
  by (auto simp: handle_subscribe_def actor_wf_def hm_or_default_def Let_def split: option.splits)

lemma handle_subscribe_abs:
  "actor_abs (snd (handle_subscribe p v a)) = (actor_abs a)\<lparr>sp_subs := insert (p, v) (sp_subs (actor_abs a))\<rparr>"
  by (auto simp: handle_subscribe_def actor_abs_def subscribed_def hm_or_default_def Let_def split: option.splits)

lemma handle_subscribe_reply:
  "fst (handle_subscribe p v a) = vni_entries v (a_routes a)"
proof -
  have "concat (map (\<lambda>(dest, hops). map (\<lambda>hop. (dest, hop)) hops) m) = hm_pairs m" for m :: vni_routes
    by (simp add: hm_pairs_def)
  then show ?thesis
    by (simp add: handle_subscribe_def Let_def get_destinations_by_vni_entries)
qed

lemma actor_wf_routes: "actor_wf a \<Longrightarrow> rt_abs (a_routes a) = dom (sp_owners (actor_abs a))"
  by (auto simp: actor_wf_def actor_abs_def dom_def)

lemma actor_wf_rt: "actor_wf a \<Longrightarrow> rt_wf (a_routes a)"
  by (simp add: actor_wf_def)

lemma handle_subscribe_lists:
  assumes "actor_wf a"
  shows "distinct (fst (handle_subscribe p v a)) \<and>
    set (fst (handle_subscribe p v a)) = sp_routes_of v (actor_abs a)"
proof -
  have "(d, h) \<in> set (vni_entries v (a_routes a)) \<longleftrightarrow> (d, h) \<in> sp_routes_of v (actor_abs a)" for d h
    using set_vni_entries [OF actor_wf_rt [OF assms]] actor_wf_routes [OF assms]
    by (auto simp: sp_routes_of_def dom_def simp del: rt_abs_iff)
  then show ?thesis
    using distinct_vni_entries [OF actor_wf_rt [OF assms]] by (auto simp: handle_subscribe_reply)
qed

lemma handle_unsubscribe_wf: "actor_wf a \<Longrightarrow> actor_wf (handle_unsubscribe p v a)"
  by (auto simp: handle_unsubscribe_def actor_wf_def Let_def split: option.splits)

lemma handle_unsubscribe_abs:
  "actor_abs (handle_unsubscribe p v a) = (actor_abs a)\<lparr>sp_subs := sp_subs (actor_abs a) - {(p, v)}\<rparr>"
proof -
  have "subscribed q w (handle_unsubscribe p v a) \<longleftrightarrow> subscribed q w a \<and> (q, w) \<noteq> (p, v)" for q w
    by (auto simp: handle_unsubscribe_def subscribed_iff Let_def hs_remove_empty_iff split: option.splits)
  moreover have "hm_get (a_owners (handle_unsubscribe p v a)) = hm_get (a_owners a)"
    "hm_get (a_peers (handle_unsubscribe p v a)) = hm_get (a_peers a)"
    by (simp_all add: handle_unsubscribe_def Let_def split: option.splits)
  ultimately show ?thesis by (auto simp: actor_abs_def)
qed

lemma length_hash_map: "hm_wf m \<Longrightarrow> length m = card (dom (hm_get m))"
  using hm.length_keys [of m] by (simp add: hm_keys_def dom_def)

lemma subscription_count:
  assumes "actor_wf a"
  shows "sum_list (map (\<lambda>(v, s). length s) (a_subs a)) = card {(p, v). subscribed p v a}"
proof -
  have wf: "hm_wf (a_subs a)" using assms by (simp add: actor_wf_def)
  have "distinct (hm_pairs (a_subs a))"
    using assms wf by (auto simp: actor_wf_def hm_get_iff intro!: distinct_hm_pairs)
  then have "length (hm_pairs (a_subs a)) = card (set (hm_pairs (a_subs a)))" by (simp add: distinct_card)
  also have "set (hm_pairs (a_subs a)) = prod.swap ` {(p, v). subscribed p v a}"
    using wf by (force simp: set_hm_pairs subscribed_iff)
  also have "card (prod.swap ` {(p, v). subscribed p v a}) = card {(p, v). subscribed p v a}"
    by (rule card_image) (auto simp: inj_on_def)
  finally show ?thesis by (simp add: length_hm_pairs)
qed

lemma actor_stats_abs:
  assumes "actor_wf a"
  shows "actor_stats a = (card (dom (sp_owners (actor_abs a))), card (dom (sp_owners (actor_abs a))),
           card (dom (sp_peers (actor_abs a))), card (sp_subs (actor_abs a)))"
  using assms rt_len_card [OF actor_wf_rt [OF assms]] actor_wf_routes [OF assms]
  by (simp add: actor_stats_def subscription_count length_hash_map actor_wf_def actor_abs_def)

lemma connect_abs:
  "actor_abs (a\<lparr>a_peers := hm_insert p tx (a_peers a)\<rparr>) =
     (actor_abs a)\<lparr>sp_peers := (sp_peers (actor_abs a))(p \<mapsto> tx)\<rparr>"
  by (auto simp: actor_abs_def subscribed_def fun_eq_iff)

section \<open>The actor implements the specification\<close>

lemma actor_handle_refines:
  assumes "actor_wf a" and "peers_inj (a_peers a)"
    and "actor_handle cmd (a, chans) = (reply, a', chans')"
  shows "sp_step cmd (actor_abs a, chans) reply (actor_abs a', chans')"
proof (cases cmd)
  case (PeerConnected p tx)
  with assms show ?thesis by (auto simp: connect_abs)
next
  case (PeerDisconnected p)
  then have r: "handle_peer_disconnected p (a, chans) = (a', chans')" "reply = NoReply"
    using assms(3) by auto
  from handle_peer_disconnected_refines [OF assms(1,2) r(1)] PeerDisconnected r(2) show ?thesis
    using set_owned_keys [OF assms(1), of p] distinct_owned_keys [OF assms(1), of p]
    by (auto simp: Let_def intro!: exI [of _ "owned_keys p a"])
next
  case (CmdSubscribe p v)
  with assms handle_subscribe_lists [OF assms(1), of p v] handle_subscribe_abs [of p v a] show ?thesis
    by (auto split: prod.splits)
next
  case (CmdUnsubscribe p v)
  with assms handle_unsubscribe_abs [of p v a] show ?thesis by auto
next
  case (CmdUpdate p act v d h)
  then have r: "handle_update p act v d h (a, chans) = (a', chans')" "reply = NoReply"
    using assms(3) by auto
  from handle_update_refines [OF assms(1,2) r(1)] CmdUpdate r(2) show ?thesis by (simp add: Let_def)
next
  case GetStats
  with assms actor_stats_abs [OF assms(1)] show ?thesis by (auto split: prod.splits)
qed

lemma actor_handle_wf:
  assumes "actor_wf a" and "peers_inj (a_peers a)"
    and "actor_handle cmd (a, chans) = (reply, a', chans')"
  shows "actor_wf a'"
proof (cases cmd)
  case (PeerConnected p tx)
  with assms show ?thesis by (auto simp: actor_wf_def)
next
  case (PeerDisconnected p)
  with assms handle_peer_disconnected_refines(1) [of a p chans a' chans'] show ?thesis by auto
next
  case (CmdSubscribe p v)
  with assms handle_subscribe_wf [OF assms(1), of p v] show ?thesis by (auto split: prod.splits)
next
  case (CmdUnsubscribe p v)
  with assms handle_unsubscribe_wf [OF assms(1), of p v] show ?thesis by auto
next
  case (CmdUpdate p act v d h)
  with assms handle_update_refines(1) [of a p act v d h chans a' chans'] show ?thesis by auto
next
  case GetStats
  with assms show ?thesis by (auto split: prod.splits)
qed

text \<open>Channels of peers stay apart, as a new connection has a channel of its own.\<close>

lemma sp_step_peers:
  assumes "sp_step cmd (S, chans) reply (S', chans')" and "sp_peers S' p = Some c"
  shows "sp_peers S p = Some c \<or> cmd = PeerConnected p c"
  using assms by (cases cmd) (auto simp: sp_evict_def Let_def split: if_splits)

lemma actor_handle_inj:
  assumes "actor_wf a" and "peers_inj (a_peers a)"
    and "actor_handle cmd (a, chans) = (reply, a', chans')"
    and fresh: "\<And>p tx. cmd = PeerConnected p tx \<Longrightarrow> tx \<notin> ran (hm_get (a_peers a))"
  shows "peers_inj (a_peers a')"
proof -
  have old: "hm_get (a_peers a) p = Some c \<or> cmd = PeerConnected p c"
    if "hm_get (a_peers a') p = Some c" for p c
    using sp_step_peers [OF actor_handle_refines [OF assms(1-3)], of p c] that by (simp add: actor_abs_def)
  show ?thesis
    unfolding peers_inj_def
  proof (intro allI impI)
    fix p q c
    assume "hm_get (a_peers a') p = Some c" and "hm_get (a_peers a') q = Some c"
    with old [of p c] old [of q c] fresh [of p c] fresh [of q c] assms(2) show "p = q"
      by (auto simp: ran_def dest: peers_injD)
  qed
qed

end
