(* ===== verification/Actor_System.thy ===== *)
theory Actor_System
  imports Actor_Spec
begin

text \<open>
  The routing actor among the connection handlers: commands arrive in any order from any
  peers, handlers take messages off their channels, a handler that ends drops its receiver,
  and the hash maps may be iterated in any order. What holds of every such run: the
  invariant, and that a subscriber which keeps up mirrors the server's routes of a VNI.
\<close>

section \<open>Runs\<close>

datatype sys_event =
    SysCmd routing_command routing_reply
  | SysTake chan_id message
  | SysClose chan_id
  | SysRehash

text \<open>
  A new connection comes with a channel no one has used (\<open>mpsc::channel\<close> in
  \<open>handle_peer\<close>); its handler may be gone already when the actor hears of it. A closed
  channel loses what is queued in it.
\<close>

fun fresh_channel :: "routing_command \<Rightarrow> actor \<times> channels \<Rightarrow> bool" where
  "fresh_channel (PeerConnected p tx) (a, chans) \<longleftrightarrow>
     (\<forall>q. hm_get (a_peers a) q \<noteq> Some tx) \<and> ch_history (chans tx) = []"
| "fresh_channel _ _ \<longleftrightarrow> True"

inductive sys_step :: "actor \<times> channels \<Rightarrow> sys_event \<Rightarrow> actor \<times> channels \<Rightarrow> bool" where
  sys_cmd: "fresh_channel cmd s \<Longrightarrow> actor_handle cmd s = (reply, s') \<Longrightarrow> sys_step s (SysCmd cmd reply) s'"
| sys_take: "ch_queue (chans c) = m # q \<Longrightarrow>
    sys_step (a, chans) (SysTake c m)
      (a, chans(c := (chans c)\<lparr>ch_queue := q, ch_taken := ch_taken (chans c) @ [m]\<rparr>))"
| sys_close: "sys_step (a, chans) (SysClose c) (a, chans(c := (chans c)\<lparr>ch_queue := [], ch_open := False\<rparr>))"
| sys_rehash: "actor_wf a' \<Longrightarrow> actor_abs a' = actor_abs a \<Longrightarrow> sys_step (a, chans) SysRehash (a', chans)"

inductive sys_run :: "actor \<times> channels \<Rightarrow> sys_event list \<Rightarrow> actor \<times> channels \<Rightarrow> bool" where
  run_nil: "sys_run s [] s"
| run_cons: "sys_step s e s' \<Longrightarrow> sys_run s' es s'' \<Longrightarrow> sys_run s (e # es) s''"

inductive_cases sys_step_elims:
  "sys_step s (SysCmd cmd reply) s'" "sys_step s (SysTake c m) s'"
  "sys_step s (SysClose c) s'" "sys_step s SysRehash s'"

inductive_cases sys_run_Cons: "sys_run s (e # es) s'"
inductive_simps sys_run_Nil [simp]: "sys_run s [] s'"

definition sys_init :: "actor \<times> channels" where
  "sys_init = (actor_new, \<lambda>_. new_channel)"

definition sys_inv :: "actor \<times> channels \<Rightarrow> bool" where
  "sys_inv s \<longleftrightarrow> actor_wf (fst s) \<and> peers_inj (a_peers (fst s)) \<and>
     (\<forall>c. length (ch_queue (snd s c)) \<le> MAX_PENDING_MESSAGES)"

lemma sys_init_inv: "sys_inv sys_init"
  using actor_new_wf by (simp add: sys_inv_def sys_init_def actor_new_def peers_inj_def new_channel_def)

text \<open>What a step means on the abstract state.\<close>

lemma sys_cmd_spec:
  assumes "sys_inv (a, chans)" and "actor_handle cmd (a, chans) = (reply, a', chans')"
  shows "sp_step cmd (actor_abs a, chans) reply (actor_abs a', chans')"
  using assms by (auto simp: sys_inv_def intro: actor_handle_refines)

lemma sp_delivered_bound:
  assumes "sp_delivered msgs S chans chans'" and "length (ch_queue (chans c)) \<le> MAX_PENDING_MESSAGES"
  shows "length (ch_queue (chans' c)) \<le> MAX_PENDING_MESSAGES"
  using assms by (cases "c \<in> ran (sp_peers S)") (auto simp: sp_delivered_def ran_def push_all_bound)

lemma sp_step_bound:
  assumes "sp_step cmd (S, chans) reply (S', chans')" and "length (ch_queue (chans c)) \<le> MAX_PENDING_MESSAGES"
  shows "length (ch_queue (chans' c)) \<le> MAX_PENDING_MESSAGES"
  using assms by (cases cmd) (auto simp: Let_def intro: sp_delivered_bound)

lemma sys_step_inv:
  assumes "sys_step s e s'" and "sys_inv s"
  shows "sys_inv s'"
  using assms
proof (cases rule: sys_step.cases)
  case (sys_cmd cmd reply)
  obtain a chans a' chans' where s: "s = (a, chans)" "s' = (a', chans')" by (cases s, cases s')
  have inv: "sys_inv (a, chans)" using assms(2) s by simp
  have r: "actor_handle cmd (a, chans) = (reply, a', chans')" using sys_cmd s by simp
  have fresh: "tx \<notin> ran (hm_get (a_peers a))" if "cmd = PeerConnected p tx" for p tx
    using sys_cmd(2) that s by (auto simp: ran_def)
  from inv r fresh have "actor_wf a'" "peers_inj (a_peers a')"
    unfolding sys_inv_def by (auto intro: actor_handle_wf actor_handle_inj)
  then show ?thesis
    using inv sp_step_bound [OF sys_cmd_spec [OF inv r]] s by (simp add: sys_inv_def)
next
  case (sys_rehash a' a chans)
  moreover have "hm_get (a_peers a') = hm_get (a_peers a)"
    using sys_rehash(5) by (simp add: actor_abs_def)
  ultimately show ?thesis using assms(2) by (auto simp: sys_inv_def peers_inj_def)
next
  case (sys_take chans c m q a)
  then show ?thesis using assms(2) by (auto simp: sys_inv_def dest: spec [of _ c])
qed (auto simp: sys_inv_def)

lemma sys_run_inv: "sys_run s es s' \<Longrightarrow> sys_inv s \<Longrightarrow> sys_inv s'"
  by (induction rule: sys_run.induct) (auto intro: sys_step_inv)

section \<open>A subscriber mirrors the server\<close>

text \<open>The updates of one VNI among the messages of a channel.\<close>

fun update_of :: "vni \<Rightarrow> message \<Rightarrow> (action \<times> (destination \<times> next_hop)) option" where
  "update_of v (MsgUpdate act w d h) = (if w = v then Some (act, (d, h)) else None)"
| "update_of v _ = None"

fun chan_log :: "vni \<Rightarrow> message list \<Rightarrow> (action \<times> (destination \<times> next_hop)) list" where
  "chan_log v [] = []"
| "chan_log v (m # ms) = (case update_of v m of None \<Rightarrow> chan_log v ms | Some u \<Rightarrow> u # chan_log v ms)"

lemma chan_log_append [simp]: "chan_log v (xs @ ys) = chan_log v xs @ chan_log v ys"
  by (induction xs) (auto split: option.splits)

lemma history_push_all:
  "ch_open ch \<Longrightarrow> \<not> overflows ms ch \<Longrightarrow> ch_history (push_all ms ch) = ch_history ch @ ms"
  by (simp add: push_all_no_overflow ch_history_def)

text \<open>
  The subscriber \<open>p\<close> of \<open>v\<close> on channel \<open>c\<close>, handed the routes \<open>base\<close> when its channel had
  seen \<open>n\<close> messages, is either gone or up to date: the routes it was handed, changed by
  the messages sent since, are the server's.
\<close>

definition mirrors :: "socket_addr \<Rightarrow> vni \<Rightarrow> chan_id \<Rightarrow> nat \<Rightarrow> (destination \<times> next_hop) set \<Rightarrow>
    actor_spec \<times> channels \<Rightarrow> bool" where
  "mirrors p v c n base s \<longleftrightarrow>
     (sp_peers (fst s) p = Some c \<longrightarrow>
        (p, v) \<in> sp_subs (fst s) \<and> ch_open (snd s c) \<and> n \<le> length (ch_history (snd s c)) \<and>
        apply_log (chan_log v (drop n (ch_history (snd s c)))) base = sp_routes_of v (fst s))"

text \<open>Events that break the mirror: of the peer itself, or of its connection.\<close>

fun leaves_mirror :: "socket_addr \<Rightarrow> vni \<Rightarrow> chan_id \<Rightarrow> sys_event \<Rightarrow> bool" where
  "leaves_mirror p v c (SysCmd (PeerConnected q tx) _) \<longleftrightarrow> q = p \<and> tx = c"
| "leaves_mirror p v c (SysCmd (CmdUnsubscribe q w) _) \<longleftrightarrow> q = p \<and> w = v"
| "leaves_mirror p v c (SysCmd (CmdUpdate q act w d h) _) \<longleftrightarrow> q = p \<and> w = v"
| "leaves_mirror p v c (SysClose c') \<longleftrightarrow> c' = c"
| "leaves_mirror p v c _ \<longleftrightarrow> False"

lemma update_msgs_log:
  assumes "(p, v) \<in> sp_subs S" and "w = v \<longrightarrow> q \<noteq> p"
  shows "apply_log (chan_log v (sp_update_msgs q act (w, d, h) S p)) (sp_routes_of v S) =
    sp_routes_of v (S\<lparr>sp_owners := sp_owned (sp_owners S) act (w, d, h) q\<rparr>)"
  using assms
  by (cases act) (auto simp: sp_update_msgs_def key_message_def sp_routes_of_def sp_owned_def)

lemma withdraw_msgs_chan_log:
  "(p, v) \<in> sp_subs S \<Longrightarrow>
     chan_log v (sp_withdraw_msgs ks S p) = map (Pair Remove) (map snd (filter (\<lambda>k. fst k = v) ks))"
  by (induction ks) (auto simp: sp_withdraw_msgs_def key_message_def)

lemma withdraw_msgs_log:
  assumes "(p, v) \<in> sp_subs S"
  shows "apply_log (chan_log v (sp_withdraw_msgs ks S p)) (sp_routes_of v S) =
    sp_routes_of v (S\<lparr>sp_owners := sp_disown (set ks) (sp_owners S)\<rparr>)"
  unfolding withdraw_msgs_chan_log [OF assms] apply_log_removes
  by (force simp: sp_routes_of_def sp_disown_def)

lemma sp_evict_fields [simp]:
  "sp_owners (sp_evict P S) = sp_owners S"
  "sp_peers (sp_evict P S) p = (if p \<in> P then None else sp_peers S p)"
  "(p, v) \<in> sp_subs (sp_evict P S) \<longleftrightarrow> (p, v) \<in> sp_subs S \<and> p \<notin> P"
  by (simp_all add: sp_evict_def)

lemma sp_routes_of_evict [simp]: "sp_routes_of v (sp_evict P S) = sp_routes_of v S"
  by (simp add: sp_routes_of_def)

lemma mirrors_delivered:
  assumes m: "mirrors p v c n base (S, chans)" and del: "sp_delivered msgs S chans chans'"
    and log: "(p, v) \<in> sp_subs S \<Longrightarrow>
      apply_log (chan_log v (msgs p)) (sp_routes_of v S) = sp_routes_of v (S\<lparr>sp_owners := ow\<rparr>)"
  shows "mirrors p v c n base (sp_evict (sp_slow msgs S chans) (S\<lparr>sp_owners := ow\<rparr>), chans')"
proof (cases "sp_peers S p = Some c \<and> p \<notin> sp_slow msgs S chans")
  case True
  then have "\<not> overflows (msgs p) (chans c)" by (auto simp: sp_slow_def)
  moreover have "ch_open (chans c)" using m True by (simp add: mirrors_def)
  ultimately have hist: "ch_history (chans' c) = ch_history (chans c) @ msgs p" "ch_open (chans' c)"
    using sp_deliveredD [OF del, of p c] True by (simp_all add: history_push_all)
  then show ?thesis using m True log by (simp add: mirrors_def)
qed (auto simp: mirrors_def)

lemma cmd_mirrors:
  assumes sp: "sp_step cmd (S, chans) reply (S', chans')"
    and m: "mirrors p v c n base (S, chans)"
    and stay: "\<not> leaves_mirror p v c (SysCmd cmd reply)"
  shows "mirrors p v c n base (S', chans')"
proof (cases cmd)
  case (PeerConnected q tx)
  with sp m stay show ?thesis by (auto simp: mirrors_def sp_routes_of_def)
next
  case (PeerDisconnected q)
  show ?thesis
  proof (cases "q = p")
    case True
    with PeerDisconnected sp have "sp_peers S' p = None" by (auto simp: Let_def)
    then show ?thesis by (simp add: mirrors_def)
  next
    case False
    obtain ks where S': "S' = sp_evict (sp_slow (sp_withdraw_msgs ks (sp_evict {q} S)) (sp_evict {q} S) chans)
         ((sp_evict {q} S)\<lparr>sp_owners := sp_disown (set ks) (sp_owners S)\<rparr>)"
      and del: "sp_delivered (sp_withdraw_msgs ks (sp_evict {q} S)) (sp_evict {q} S) chans chans'"
      using sp PeerDisconnected by (auto simp: Let_def)
    have "mirrors p v c n base (sp_evict {q} S, chans)"
      using m False by (auto simp: mirrors_def)
    from mirrors_delivered [OF this del] withdraw_msgs_log [of p v "sp_evict {q} S" ks] S'
    show ?thesis by simp
  qed
next
  case (CmdSubscribe q w)
  with sp m show ?thesis by (auto simp: mirrors_def sp_routes_of_def)
next
  case (CmdUnsubscribe q w)
  with sp m stay show ?thesis by (auto simp: mirrors_def sp_routes_of_def)
next
  case (CmdUpdate q act w d h)
  then have S': "S' = sp_evict (sp_slow (sp_update_msgs q act (w, d, h) S) S chans)
       (S\<lparr>sp_owners := sp_owned (sp_owners S) act (w, d, h) q\<rparr>)"
    and del: "sp_delivered (sp_update_msgs q act (w, d, h) S) S chans chans'"
    using sp by (simp_all add: Let_def)
  have "w = v \<longrightarrow> q \<noteq> p" using stay CmdUpdate by auto
  from mirrors_delivered [OF m del] update_msgs_log [OF _ this] S' show ?thesis by simp
next
  case GetStats
  with sp m show ?thesis by simp
qed

abbreviation sys_abs :: "actor \<times> channels \<Rightarrow> actor_spec \<times> channels" where
  "sys_abs s \<equiv> (actor_abs (fst s), snd s)"

text \<open>Taking a message off a queue changes neither the history nor the state of the channel.\<close>

lemma take_history:
  assumes "ch_queue (chans c) = m # q"
  shows "ch_history ((chans(c := (chans c)\<lparr>ch_queue := q, ch_taken := ch_taken (chans c) @ [m]\<rparr>)) c') =
      ch_history (chans c')"
    and "ch_open ((chans(c := (chans c)\<lparr>ch_queue := q, ch_taken := ch_taken (chans c) @ [m]\<rparr>)) c') =
      ch_open (chans c')"
  using assms by (simp_all add: ch_history_def)

lemma step_mirrors:
  assumes "sys_step s e s'" and "sys_inv s" and m: "mirrors p v c n base (sys_abs s)"
    and stay: "\<not> leaves_mirror p v c e"
  shows "mirrors p v c n base (sys_abs s')"
  using assms(1)
proof (cases rule: sys_step.cases)
  case (sys_cmd cmd reply)
  obtain a chans a' chans' where s: "s = (a, chans)" "s' = (a', chans')" by (cases s, cases s')
  have sp: "sp_step cmd (actor_abs a, chans) reply (actor_abs a', chans')"
    by (rule sys_cmd_spec) (use sys_cmd(3) assms(2) s in simp_all)
  have "mirrors p v c n base (actor_abs a', chans')"
    by (rule cmd_mirrors [OF sp]) (use m stay sys_cmd(1) s in simp_all)
  then show ?thesis by (simp add: s)
next
  case (sys_take chans c' m' q a)
  show ?thesis
    using m unfolding sys_take(1,3) fst_conv snd_conv mirrors_def take_history [where chans = chans, OF sys_take(4)] .
next
  case (sys_close a chans c')
  then show ?thesis using m stay by (auto simp: mirrors_def)
next
  case (sys_rehash a' a chans)
  then show ?thesis using m by simp
qed

lemma run_mirrors:
  "sys_run s es s' \<Longrightarrow> sys_inv s \<Longrightarrow> mirrors p v c n base (sys_abs s) \<Longrightarrow>
     \<forall>e \<in> set es. \<not> leaves_mirror p v c e \<Longrightarrow> mirrors p v c n base (sys_abs s')"
  by (induction rule: sys_run.induct) (auto dest: step_mirrors sys_step_inv)

lemma subscribe_mirrors:
  assumes "sys_inv (a, chans)" and "hm_get (a_peers a) p = Some c \<Longrightarrow> ch_open (chans c)"
    and r: "actor_handle (CmdSubscribe p v) (a, chans) = (RoutesReply rs, a', chans')"
  shows "mirrors p v c (length (ch_history (chans c))) (set rs) (actor_abs a', chans')"
  using sys_cmd_spec [OF assms(1) r] assms(2) by (auto simp: mirrors_def sp_routes_of_def actor_abs_def)

section \<open>An evicted subscriber is left behind\<close>

text \<open>
  Once the actor holds no reference to a used channel it never writes to it again; nor does
  it close it, as the handler and the table of peers hold senders of their own.
\<close>

definition left_behind :: "chan_id \<Rightarrow> message list \<Rightarrow> actor_spec \<times> channels \<Rightarrow> bool" where
  "left_behind c hist s \<longleftrightarrow> c \<notin> ran (sp_peers (fst s)) \<and> ch_history (snd s c) = hist \<and> ch_open (snd s c)"

lemma sp_delivered_other:
  "sp_delivered msgs S chans chans' \<Longrightarrow> c \<notin> ran (sp_peers S) \<Longrightarrow> chans' c = chans c"
  by (simp add: sp_delivered_def)

lemma ran_sp_evict: "c \<notin> ran (sp_peers S) \<Longrightarrow> c \<notin> ran (sp_peers (sp_evict P S))"
  by (auto simp: ran_def split: if_splits)

lemma cmd_left_behind:
  assumes sp: "sp_step cmd (S, chans) reply (S', chans')" and l: "left_behind c hist (S, chans)"
    and "\<And>p. cmd \<noteq> PeerConnected p c"
  shows "left_behind c hist (S', chans')"
proof -
  have c: "c \<notin> ran (sp_peers S)" using l by (simp add: left_behind_def)
  have "chans' c = chans c"
    using sp by (cases cmd) (auto simp: Let_def dest: sp_delivered_other [OF _ c]
        sp_delivered_other [OF _ ran_sp_evict [OF c]])
  then show ?thesis
    using l assms(3) sp_step_peers [OF sp, of _ c] by (auto simp: left_behind_def ran_def)
qed

lemma step_left_behind:
  assumes "sys_step s e s'" and "sys_inv s" and l: "left_behind c hist (sys_abs s)" "hist \<noteq> []"
    and "e \<noteq> SysClose c"
  shows "left_behind c hist (sys_abs s')"
  using assms(1)
proof (cases rule: sys_step.cases)
  case (sys_cmd cmd reply)
  obtain a chans a' chans' where s: "s = (a, chans)" "s' = (a', chans')" by (cases s, cases s')
  have sp: "sp_step cmd (actor_abs a, chans) reply (actor_abs a', chans')"
    by (rule sys_cmd_spec) (use sys_cmd(3) assms(2) s in simp_all)
  have "cmd \<noteq> PeerConnected p c" for p
    using sys_cmd(2) l s by (auto simp: left_behind_def new_channel_def ch_history_def)
  from cmd_left_behind [OF sp _ this] l s show ?thesis by simp
qed (use l assms(5) in \<open>auto simp: left_behind_def ch_history_def\<close>)

lemma run_left_behind:
  "sys_run s es s' \<Longrightarrow> sys_inv s \<Longrightarrow> left_behind c hist (sys_abs s) \<Longrightarrow> hist \<noteq> [] \<Longrightarrow>
     SysClose c \<notin> set es \<Longrightarrow> left_behind c hist (sys_abs s')"
  by (induction rule: sys_run.induct) (auto dest: step_left_behind sys_step_inv)

section \<open>What was sent stays sent\<close>

lemma push_all_history: "prefix (ch_history ch) (ch_history (push_all ms ch))"
proof (induction ms arbitrary: ch)
  case Nil
  then show ?case by simp
next
  case (Cons m ms)
  have "prefix (ch_history ch) (ch_history (ch_push m ch))" by (simp add: ch_push_history)
  with Cons [of "ch_push m ch"] show ?case by (auto intro: prefix_order.trans)
qed

lemma sp_delivered_history:
  "sp_delivered msgs S chans chans' \<Longrightarrow> prefix (ch_history (chans c)) (ch_history (chans' c))"
  by (cases "c \<in> ran (sp_peers S)") (auto simp: sp_delivered_def ran_def push_all_history)

lemma cmd_history:
  "sp_step cmd (S, chans) reply (S', chans') \<Longrightarrow> prefix (ch_history (chans c)) (ch_history (chans' c))"
  by (cases cmd) (auto simp: Let_def dest: sp_delivered_history)

lemma step_history:
  assumes "sys_step s e s'" and "sys_inv s" and "e \<noteq> SysClose c"
  shows "prefix (ch_history (snd s c)) (ch_history (snd s' c))"
  using assms(1)
proof (cases rule: sys_step.cases)
  case (sys_cmd cmd reply)
  obtain a chans a' chans' where s: "s = (a, chans)" "s' = (a', chans')" by (cases s, cases s')
  have "sp_step cmd (actor_abs a, chans) reply (actor_abs a', chans')"
    by (rule sys_cmd_spec) (use sys_cmd(3) assms(2) s in simp_all)
  from cmd_history [OF this] s show ?thesis by simp
next
  case (sys_take chans c' m q a)
  show ?thesis unfolding sys_take(1,3) snd_conv take_history(1) [where chans = chans, OF sys_take(4)] by simp
next
  case (sys_close a chans c')
  with assms(3) show ?thesis by simp
next
  case (sys_rehash a' a chans)
  then show ?thesis by simp
qed

lemma run_history:
  "sys_run s es s' \<Longrightarrow> sys_inv s \<Longrightarrow> SysClose c \<notin> set es \<Longrightarrow>
     prefix (ch_history (snd s c)) (ch_history (snd s' c))"
proof (induction rule: sys_run.induct)
  case (run_nil s)
  show ?case by simp
next
  case (run_cons s e s' es s'')
  have "prefix (ch_history (snd s c)) (ch_history (snd s' c))"
    by (rule step_history [OF run_cons.hyps(1)]) (use run_cons.prems in auto)
  moreover have "prefix (ch_history (snd s' c)) (ch_history (snd s'' c))"
    by (rule run_cons.IH) (use run_cons.prems sys_step_inv [OF run_cons.hyps(1)] in auto)
  ultimately show ?case by (rule prefix_order.trans)
qed

end
