(* ===== verification/Server_Conn.thy ===== *)
theory Server_Conn
  imports Transport Actor_System
begin

text \<open>
  The server's side of a connection (\<open>handle_peer\<close> and the functions it calls in
  \<open>src/src/server.rs\<close>): the handshake, the main loop, the clean-up. Like the peer task of
  the client it is a state machine with a phase for each place where the task waits.

  The routing actor is reached through a function \<open>ask\<close> that takes a command and the state
  of the routing side to the reply and the next state; the interface \<open>routing_service\<close>
  says what the handler relies on, and the actor provides it.
\<close>

section \<open>State\<close>

record server_config =
  cfg_keepalive_interval :: u32

definition server_config_default :: server_config where
  "server_config_default = \<lparr>cfg_keepalive_interval = DEFAULT_KEEPALIVE_INTERVAL\<rparr>"

record peer_handle =
  ph_tx :: chan_id
  ph_state :: connection_state

text \<open>
  The phases: waiting for the HELLO, waiting for the KEEPALIVE with the negotiated interval,
  the main loop (with the interval, the time data last came, the time the current round of
  the loop began, and the message buffer), and ended with a result.
\<close>

datatype server_phase =
    SHello
  | SKeepalive u32
  | SLoop u32 nat nat "u8 list"
  | SDone "error + unit"

record 'r server_conn =
  sc_routing :: 'r
  sc_peers :: "(socket_addr, peer_handle) hash_map"
  sc_stream :: tcp_stream
  sc_phase :: server_phase

type_synonym 'r ask = "routing_command \<Rightarrow> 'r \<Rightarrow> routing_reply \<times> 'r"

section \<open>Messages from the peer\<close>

text \<open>The answer to a SUBSCRIBE: the routes the actor has, each in a message of its own.\<close>

definition snapshot_messages :: "vni \<Rightarrow> routing_reply \<Rightarrow> message list" where
  "snapshot_messages vni reply =
     (case reply of
        RoutesReply routes \<Rightarrow> map (\<lambda>(dest, next_hop). MsgUpdate Add vni dest next_hop) routes
      | _ \<Rightarrow> [])"

fun server_handle_message ::
    "externals \<Rightarrow> 'r ask \<Rightarrow> socket_addr \<Rightarrow> message \<Rightarrow> tcp_stream \<times> 'r \<Rightarrow> (error + unit) \<times> tcp_stream \<times> 'r" where
  "server_handle_message x ask addr (MsgHello k s) (st, r) = (Inr (), st, r)"
| "server_handle_message x ask addr MsgKeepalive (st, r) =
     (case send_message x MsgKeepalive st of (res, st') \<Rightarrow> (res, st', r))"
| "server_handle_message x ask addr (MsgSubscribe vni) (st, r) =
     (case ask (CmdSubscribe addr vni) r of
        (reply, r') \<Rightarrow>
          (case send_all x (snapshot_messages vni reply) st of (res, st') \<Rightarrow> (res, st', r')))"
| "server_handle_message x ask addr (MsgUnsubscribe vni) (st, r) =
     (Inr (), st, snd (ask (CmdUnsubscribe addr vni) r))"
| "server_handle_message x ask addr (MsgUpdate action vni destination next_hop) (st, r) =
     (Inr (), st, snd (ask (CmdUpdate addr action vni destination next_hop) r))"

text \<open>The loop over the buffer. An error in handling a message is only logged.\<close>

function server_process_buffer ::
    "externals \<Rightarrow> 'r ask \<Rightarrow> socket_addr \<Rightarrow> u8 list \<Rightarrow> tcp_stream \<times> 'r \<Rightarrow>
     error option \<times> u8 list \<times> tcp_stream \<times> 'r" where
  "server_process_buffer x ask addr msg_buf s =
     (if msg_buf = [] then (None, [], s)
      else case message_decode x msg_buf of
        Inr (msg, consumed) \<Rightarrow>
          server_process_buffer x ask addr (drop consumed msg_buf) (snd (server_handle_message x ask addr msg s))
      | Inl e \<Rightarrow> (if need_more_data e then None else Some e, msg_buf, s))"
  by pat_completeness auto
termination
  by (relation "measure (\<lambda>(x, ask, addr, buf, s). length buf)") (auto dest: message_decode_consumed)

declare server_process_buffer.simps [simp del]

section \<open>The connection\<close>

text \<open>Leaving the main loop: forget the peer and tell the actor.\<close>

definition server_cleanup :: "'r ask \<Rightarrow> socket_addr \<Rightarrow> error + unit \<Rightarrow> 'r server_conn \<Rightarrow> 'r server_conn" where
  "server_cleanup ask addr result c =
     c\<lparr>sc_peers := hm_remove addr (sc_peers c),
       sc_routing := snd (ask (PeerDisconnected addr) (sc_routing c)), sc_phase := SDone result\<rparr>"

definition server_hello :: "externals \<Rightarrow> server_config \<Rightarrow> error + u8 list \<Rightarrow> 'r server_conn \<Rightarrow> 'r server_conn" where
  "server_hello x cfg read c =
     (case receive_hello x read of
        Inl e \<Rightarrow> c\<lparr>sc_phase := SDone (Inl e)\<rparr>
      | Inr None \<Rightarrow> c\<lparr>sc_phase := SDone (Inl (EProtocol ''expected HELLO''))\<rparr>
      | Inr (Some (client_keepalive, _)) \<Rightarrow>
          (case send_message x (MsgHello (cfg_keepalive_interval cfg) True) (sc_stream c) of
             (Inl e, st) \<Rightarrow> c\<lparr>sc_stream := st, sc_phase := SDone (Inl e)\<rparr>
           | (Inr _, st) \<Rightarrow>
               c\<lparr>sc_stream := st,
                 sc_phase := SKeepalive (negotiated_keepalive (cfg_keepalive_interval cfg) client_keepalive)\<rparr>))"

definition server_keepalive ::
    "externals \<Rightarrow> 'r ask \<Rightarrow> socket_addr \<Rightarrow> chan_id \<Rightarrow> u32 \<Rightarrow> (error + u8 list) option \<Rightarrow> nat \<Rightarrow>
     'r server_conn \<Rightarrow> 'r server_conn" where
  "server_keepalive x ask addr tx negotiated read now c =
     (case receive_message_with_timeout x read of
        Inl e \<Rightarrow> c\<lparr>sc_phase := SDone (Inl e)\<rparr>
      | Inr msg \<Rightarrow>
          if msg \<noteq> MsgKeepalive then c\<lparr>sc_phase := SDone (Inl (EProtocol ''expected KEEPALIVE''))\<rparr>
          else
            (case send_message x MsgKeepalive (sc_stream c) of
               (Inl e, st) \<Rightarrow> c\<lparr>sc_stream := st, sc_phase := SDone (Inl e)\<rparr>
             | (Inr _, st) \<Rightarrow>
                 c\<lparr>sc_stream := st,
                   sc_routing := snd (ask (PeerConnected addr tx) (sc_routing c)),
                   sc_peers := hm_insert addr \<lparr>ph_tx = tx, ph_state = Established\<rparr> (sc_peers c),
                   sc_phase := SLoop negotiated now now []\<rparr>))"

definition server_data ::
    "externals \<Rightarrow> 'r ask \<Rightarrow> socket_addr \<Rightarrow> u32 \<Rightarrow> u8 list \<Rightarrow> error + u8 list \<Rightarrow> nat \<Rightarrow> 'r server_conn \<Rightarrow> 'r server_conn" where
  "server_data x ask addr negotiated msg_buf read now c =
     (case read of
        Inl e \<Rightarrow> server_cleanup ask addr (Inl e) c
      | Inr buf \<Rightarrow>
          if buf = [] then server_cleanup ask addr (Inr ()) c
          else
            (case server_process_buffer x ask addr (msg_buf @ buf) (sc_stream c, sc_routing c) of
               (None, rest, st, r) \<Rightarrow>
                 c\<lparr>sc_stream := st, sc_routing := r, sc_phase := SLoop negotiated now now rest\<rparr>
             | (Some e, rest, st, r) \<Rightarrow>
                 server_cleanup ask addr (Inl e) (c\<lparr>sc_stream := st, sc_routing := r\<rparr>)))"

definition BATCH_LIMIT :: nat where "BATCH_LIMIT = 1000"

text \<open>A batch of messages from the peer's channel, written at once.\<close>

definition batch_bytes :: "externals \<Rightarrow> message list \<Rightarrow> u8 list" where
  "batch_bytes x batch = concat (map (\<lambda>m. case message_encode x m of Inr encoded \<Rightarrow> encoded | Inl _ \<Rightarrow> []) batch)"

definition server_batch ::
    "externals \<Rightarrow> 'r ask \<Rightarrow> socket_addr \<Rightarrow> u32 \<Rightarrow> nat \<Rightarrow> u8 list \<Rightarrow> message list \<Rightarrow> nat \<Rightarrow>
     'r server_conn \<Rightarrow> 'r server_conn" where
  "server_batch x ask addr negotiated last_received msg_buf batch now c =
     (case write_all (batch_bytes x batch) (sc_stream c) of
        (Inl e, st) \<Rightarrow> server_cleanup ask addr (Inl e) (c\<lparr>sc_stream := st\<rparr>)
      | (Inr _, st) \<Rightarrow> c\<lparr>sc_stream := st, sc_phase := SLoop negotiated last_received now msg_buf\<rparr>)"

datatype server_event =
    SHelloRead "error + u8 list"
  | SKeepaliveRead "(error + u8 list) option" nat
  | SShutdown
  | STimer nat
  | SDataRead "error + u8 list" nat
  | SBatch "message list" nat

text \<open>
  One step; \<open>None\<close> where the handler does not wait for such an event. The timer of a round
  is started anew when the round begins, so it fires only if nothing else happened for the
  whole timeout.
\<close>

definition server_step ::
    "externals \<Rightarrow> 'r ask \<Rightarrow> server_config \<Rightarrow> socket_addr \<Rightarrow> chan_id \<Rightarrow> server_event \<Rightarrow> 'r server_conn \<Rightarrow>
     'r server_conn option" where
  "server_step x ask cfg addr tx ev c =
     (case sc_phase c of
        SHello \<Rightarrow> (case ev of SHelloRead read \<Rightarrow> Some (server_hello x cfg read c) | _ \<Rightarrow> None)
      | SKeepalive negotiated \<Rightarrow>
          (case ev of
             SKeepaliveRead read now \<Rightarrow> Some (server_keepalive x ask addr tx negotiated read now c)
           | _ \<Rightarrow> None)
      | SLoop negotiated last_received round_start msg_buf \<Rightarrow>
          (case ev of
             SShutdown \<Rightarrow> Some (server_cleanup ask addr (Inr ()) c)
           | STimer now \<Rightarrow>
               if now < round_start + keepalive_timeout negotiated then None
               else if now - last_received > keepalive_timeout negotiated
               then Some (server_cleanup ask addr (Inl ETimeout) c)
               else Some (c\<lparr>sc_phase := SLoop negotiated last_received now msg_buf\<rparr>)
           | SDataRead read now \<Rightarrow> Some (server_data x ask addr negotiated msg_buf read now c)
           | SBatch batch now \<Rightarrow>
               if batch = [] \<or> BATCH_LIMIT < length batch then None
               else Some (server_batch x ask addr negotiated last_received msg_buf batch now c)
           | _ \<Rightarrow> None)
      | SDone result \<Rightarrow> None)"

fun server_run ::
    "externals \<Rightarrow> 'r ask \<Rightarrow> server_config \<Rightarrow> socket_addr \<Rightarrow> chan_id \<Rightarrow> server_event list \<Rightarrow> 'r server_conn \<Rightarrow>
     'r server_conn option" where
  "server_run x ask cfg addr tx [] c = Some c"
| "server_run x ask cfg addr tx (e # es) c =
     Option.bind (server_step x ask cfg addr tx e c) (server_run x ask cfg addr tx es)"

definition server_accept :: "'r \<Rightarrow> (socket_addr, peer_handle) hash_map \<Rightarrow> nat \<Rightarrow> 'r server_conn" where
  "server_accept r peers budget =
     \<lparr>sc_routing = r, sc_peers = peers, sc_stream = \<lparr>ts_written = [], ts_budget = budget\<rparr>, sc_phase = SHello\<rparr>"

section \<open>Statistics\<close>

definition peer_count :: "'r server_conn \<Rightarrow> nat" where
  "peer_count c = length (sc_peers c)"

definition route_stats :: "'r ask \<Rightarrow> 'r \<Rightarrow> nat \<times> nat" where
  "route_stats ask r =
     (case fst (ask GetStats r) of StatsReply routes owners _ _ \<Rightarrow> (routes, owners) | _ \<Rightarrow> (0, 0))"

definition server_route_count :: "'r ask \<Rightarrow> 'r \<Rightarrow> nat" where
  "server_route_count ask r = fst (route_stats ask r)"

definition server_stats :: "'r ask \<Rightarrow> 'r server_conn \<Rightarrow> nat \<times> nat \<times> nat" where
  "server_stats ask c =
     (case fst (ask GetStats (sc_routing c)) of
        StatsReply routes _ _ subs \<Rightarrow> (peer_count c, routes, subs)
      | _ \<Rightarrow> (peer_count c, 0, 0))"

end
