(* ===== verification/Actor_Properties.thy ===== *)
theory Actor_Properties
  imports Actor_System
begin

text \<open>The properties of the routing actor, alone and among its connection handlers.\<close>

abbreviation peer1 :: socket_addr where "peer1 \<equiv> SocketAddrV4 0x7F000001 1001"
abbreviation peer2 :: socket_addr where "peer2 \<equiv> SocketAddrV4 0x7F000001 1002"

text \<open>C6: every command the actor handles does to its state, its reply and the channels of the
  peers what the specification says, whatever the iteration order of its hash maps, and
  keeps its tables consistent: the owner map covers exactly the stored routes.\<close>

theorem actor_implements_spec:
  assumes "actor_wf a" and "peers_inj (a_peers a)"
    and "actor_handle cmd (a, chans) = (reply, a', chans')"
  shows "sp_step cmd (actor_abs a, chans) reply (actor_abs a', chans') \<and> actor_wf a' \<and>
    rt_abs (a_routes a') = dom (sp_owners (actor_abs a'))"
  using actor_handle_refines [OF assms] actor_handle_wf [OF assms] actor_wf_routes by blast

lemma actor_new_inj: "peers_inj (a_peers actor_new)"
  by (simp add: actor_new_def peers_inj_def)

theorem actor_implements_spec_witness:
  "\<exists>a'. actor_handle (CmdUpdate peer1 Add vni100 net24 hop1) sys_init = (NoReply, a', snd sys_init) \<and>
     rt_abs (a_routes a') = {(vni100, net24, hop1)}"
proof -
  obtain a' chans' where r: "actor_handle (CmdUpdate peer1 Add vni100 net24 hop1) (actor_new, \<lambda>_. new_channel) =
      (NoReply, a', chans')"
    by (cases "handle_update peer1 Add vni100 net24 hop1 (actor_new, \<lambda>_. new_channel)") simp
  from actor_implements_spec [OF actor_new_wf actor_new_inj r] have
    "sp_delivered (sp_update_msgs peer1 Add (vni100, net24, hop1) (actor_abs actor_new)) (actor_abs actor_new)
       (\<lambda>_. new_channel) chans'"
    and "rt_abs (a_routes a') = dom (sp_owned (sp_owners (actor_abs actor_new)) Add (vni100, net24, hop1) peer1)"
    by (simp_all add: Let_def)
  then have "chans' = (\<lambda>_. new_channel)" and "rt_abs (a_routes a') = {(vni100, net24, hop1)}"
    by (auto simp: sp_delivered_def actor_abs_def actor_new_def sp_owned_def dom_def fun_eq_iff ran_def split: if_splits)
  with r show ?thesis by (simp add: sys_init_def)
qed

text \<open>C15: in every state the server reaches, with connections coming and going and handlers taking
  messages at any speed, the actor's tables are consistent, no two peers share a channel
  and no channel holds more than 50000 messages.\<close>

theorem reachable_invariant:
  assumes "sys_run sys_init es (a, chans)"
  shows "actor_wf a \<and> rt_abs (a_routes a) = dom (hm_get (a_owners a)) \<and> peers_inj (a_peers a) \<and>
    (\<forall>c. length (ch_queue (chans c)) \<le> MAX_PENDING_MESSAGES)"
  using sys_run_inv [OF assms sys_init_inv] actor_wf_routes [of a]
  by (simp add: sys_inv_def actor_abs_def)

lemma run_connect:
  "sys_run sys_init [SysCmd (PeerConnected peer1 0) NoReply] (actor_new\<lparr>a_peers := [(peer1, 0)]\<rparr>, \<lambda>_. new_channel)"
proof -
  have "fresh_channel (PeerConnected peer1 0) sys_init" by (simp add: sys_init_def actor_new_def)
  moreover have "actor_handle (PeerConnected peer1 0) sys_init =
      (NoReply, actor_new\<lparr>a_peers := [(peer1, 0)]\<rparr>, \<lambda>_. new_channel)"
    by (simp add: sys_init_def actor_new_def hm_insert_def)
  ultimately show ?thesis by (auto intro!: run_cons [OF sys_cmd] run_nil)
qed

theorem reachable_invariant_witness:
  "peers_inj [(peer1, 0::nat)] \<and> actor_wf (actor_new\<lparr>a_peers := [(peer1, 0)]\<rparr>)"
  using reachable_invariant [OF run_connect] by simp

text \<open>A peer that subscribes to a VNI, sends no updates for it itself and keeps up with its
  channel mirrors the server: the routes its subscription was answered with, changed by the
  updates put on its channel since, in order, are at every moment the routes the server
  stores for that VNI, whatever other peers announce, withdraw or lose.\<close>

theorem subscriber_mirrors_server:
  assumes "sys_run sys_init es0 (a0, chans0)"
    and "hm_get (a_peers a0) p = Some c" and "ch_open (chans0 c)"
    and "actor_handle (CmdSubscribe p v) (a0, chans0) = (RoutesReply rs, s1)"
    and "sys_run s1 es (a, chans)" and "\<forall>e \<in> set es. \<not> leaves_mirror p v c e"
    and "hm_get (a_peers a) p = Some c"
  shows "apply_log (chan_log v (drop (length (ch_history (chans0 c))) (ch_history (chans c)))) (set rs) =
    {(d, h). (v, d, h) \<in> rt_abs (a_routes a)}"
proof -
  obtain a1 chans1 where s1: "s1 = (a1, chans1)" by (cases s1)
  have inv: "sys_inv (a0, chans0)" by (rule sys_run_inv [OF assms(1) sys_init_inv])
  have r: "actor_handle (CmdSubscribe p v) (a0, chans0) = (RoutesReply rs, a1, chans1)"
    using assms(4) s1 by simp
  have inv1: "sys_inv s1"
    using sys_step_inv [OF sys_cmd inv, of "CmdSubscribe p v" "RoutesReply rs" s1] assms(4) by simp
  have "mirrors p v c (length (ch_history (chans0 c))) (set rs) (sys_abs s1)"
    using subscribe_mirrors [OF inv _ r] assms(3) s1 by simp
  then have "mirrors p v c (length (ch_history (chans0 c))) (set rs) (actor_abs a, chans)"
    using run_mirrors [OF assms(5) inv1 _ assms(6)] by simp
  moreover have "actor_wf a" using sys_run_inv [OF assms(5) inv1] by (simp add: sys_inv_def)
  from actor_wf_routes [OF this] have "sp_routes_of v (actor_abs a) = {(d, h). (v, d, h) \<in> rt_abs (a_routes a)}"
    by (auto simp: sp_routes_of_def dom_def simp del: rt_abs_iff)
  ultimately show ?thesis using assms(7) by (simp add: mirrors_def actor_abs_def)
qed

text \<open>A subscription, then an update by another peer.\<close>

lemma example_subscription:
  obtains s1 a chans where
    "actor_handle (CmdSubscribe peer1 vni100) (actor_new\<lparr>a_peers := [(peer1, 0)]\<rparr>, \<lambda>_. new_channel) = (RoutesReply [], s1)"
    and "sys_run s1 [SysCmd (CmdUpdate peer2 Add vni100 net24 hop1) NoReply] (a, chans)"
    and "ch_history (chans 0) = [MsgUpdate Add vni100 net24 hop1]"
    and "hm_get (a_peers a) peer1 = Some 0"
proof -
  let ?s0 = "(actor_new\<lparr>a_peers := [(peer1, 0)]\<rparr>, \<lambda>_. new_channel)"
  let ?s1 = "(actor_new\<lparr>a_peers := [(peer1, 0)], a_subs := [(vni100, [peer1])]\<rparr>, \<lambda>_. new_channel)"
  have sub: "actor_handle (CmdSubscribe peer1 vni100) ?s0 = (RoutesReply [], ?s1)"
    by (simp add: handle_subscribe_def Let_def actor_new_def hm_or_default_def hm_insert_def hs_insert_def
        get_destinations_by_vni_def rt_new_def)
  define a where "a = store_update peer2 Add vni100 net24 hop1 (fst ?s1)"
  define chans :: "message \<Rightarrow> channels" where "chans m = (\<lambda>_. new_channel)(0 := ch_push m new_channel)" for m
  let ?m = "MsgUpdate Add vni100 net24 hop1"
  have "handle_update peer2 Add vni100 net24 hop1 ?s1 = (a, chans ?m)"
    by (simp add: handle_update_store a_def chans_def hm_or_default_def hm_get_def actor_new_def try_send_def
        new_channel_def ch_push_def ch_accepts_def MAX_PENDING_MESSAGES_def)
  then have run: "sys_run ?s1 [SysCmd (CmdUpdate peer2 Add vni100 net24 hop1) NoReply] (a, chans ?m)"
    by (intro run_cons [OF sys_cmd] run_nil) simp_all
  have hist: "ch_history (chans ?m 0) = [?m]"
    by (simp add: chans_def new_channel_def ch_push_def ch_accepts_def MAX_PENDING_MESSAGES_def ch_history_def)
  show ?thesis by (rule that [OF sub run hist]) (simp add: a_def actor_new_def hm_get_def)
qed

theorem subscriber_mirrors_server_witness:
  "\<exists>s1 a chans. sys_run s1 [SysCmd (CmdUpdate peer2 Add vni100 net24 hop1) NoReply] (a, chans) \<and>
     ch_history (chans 0) = [MsgUpdate Add vni100 net24 hop1] \<and>
     {(d, h). (vni100, d, h) \<in> rt_abs (a_routes a)} = {(net24, hop1)}"
proof -
  obtain s1 a chans where sub: "actor_handle (CmdSubscribe peer1 vni100)
      (actor_new\<lparr>a_peers := [(peer1, 0)]\<rparr>, \<lambda>_. new_channel) = (RoutesReply [], s1)"
    and run: "sys_run s1 [SysCmd (CmdUpdate peer2 Add vni100 net24 hop1) NoReply] (a, chans)"
    and hist: "ch_history (chans 0) = [MsgUpdate Add vni100 net24 hop1]"
    and peer: "hm_get (a_peers a) peer1 = Some 0"
    by (rule example_subscription)
  have "apply_log (chan_log vni100 (drop 0 (ch_history (chans 0)))) (set []) =
      {(d, h). (vni100, d, h) \<in> rt_abs (a_routes a)}"
    using subscriber_mirrors_server [OF run_connect _ _ sub run _ peer]
    by (simp add: hm_get_def new_channel_def ch_history_def)
  then have "{(d, h). (vni100, d, h) \<in> rt_abs (a_routes a)} = {(net24, hop1)}"
    by (simp add: hist)
  with run hist show ?thesis by blast
qed



text \<open>A route is owned by the last peer that announced it: when two peers announce the same
  route and the second is lost, the route is withdrawn although the first is still
  connected and never withdrew it.\<close>

theorem last_announcer_takes_route:
  assumes "actor_wf a" and "peers_inj (a_peers a)" and "q \<noteq> r"
    and "handle_update q Add v d h (a, chans) = s1"
    and "handle_update r Add v d h s1 = s2"
    and "handle_peer_disconnected r s2 = (a3, chans3)"
  shows "(v, d, h) \<in> rt_abs (a_routes (fst s1)) \<and> (v, d, h) \<in> rt_abs (a_routes (fst s2)) \<and>
    (v, d, h) \<notin> rt_abs (a_routes a3)"
proof -
  obtain a1 chans1 a2 chans2 where s: "s1 = (a1, chans1)" "s2 = (a2, chans2)" by (cases s1, cases s2)
  note one = handle_update_refines [OF assms(1,2) assms(4) [unfolded s]]
  have inj: "peers_inj (a_peers x)"
    if "actor_abs x = sp_evict P (y\<lparr>sp_owners := ow\<rparr>)" and "sp_peers y = hm_get (a_peers z)"
      and "peers_inj (a_peers z)" for x y z P ow
  proof -
    have "hm_get (a_peers x) = sp_peers (actor_abs x)" by (simp add: actor_abs_def)
    then have "hm_get (a_peers x) p = (if p \<in> P then None else hm_get (a_peers z) p)" for p
      using that by simp
    then show ?thesis using that(3) by (auto simp: peers_inj_def split: if_splits)
  qed
  have inj1: "peers_inj (a_peers a1)" by (rule inj [OF one(3) _ assms(2)]) (simp add: actor_abs_def)
  note two = handle_update_refines [OF one(1) inj1 assms(5) [unfolded s]]
  have inj2: "peers_inj (a_peers a2)" by (rule inj [OF two(3) _ inj1]) (simp add: actor_abs_def)
  note three = handle_peer_disconnected_refines [OF two(1) inj2 assms(6) [unfolded s]]
  have "sp_owners (actor_abs a2) (v, d, h) = Some r" unfolding two(3) by (simp add: sp_owned_def)
  then have "(v, d, h) \<in> set (owned_keys r a2)" using set_owned_keys [OF two(1), of r] by simp
  then show ?thesis using one(2) two(2) three(2) s by simp
qed

lemma update_new_state:
  "handle_update p Add v d h (actor_new, \<lambda>_. new_channel) = (store_update p Add v d h actor_new, \<lambda>_. new_channel)"
  by (simp add: handle_update_store actor_new_def hm_or_default_def)

theorem last_announcer_takes_route_witness:
  "\<exists>s2 a3 chans3. handle_update peer2 Add vni100 net24 hop1
       (store_update peer1 Add vni100 net24 hop1 actor_new, \<lambda>_. new_channel) = s2 \<and>
     handle_peer_disconnected peer2 s2 = (a3, chans3) \<and> (vni100, net24, hop1) \<notin> rt_abs (a_routes a3)"
proof -
  obtain a3 chans3 where d: "handle_peer_disconnected peer2 (handle_update peer2 Add vni100 net24 hop1
      (store_update peer1 Add vni100 net24 hop1 actor_new, \<lambda>_. new_channel)) = (a3, chans3)"
    by fastforce
  have "peer1 \<noteq> peer2" by simp
  from last_announcer_takes_route [OF actor_new_wf actor_new_inj this update_new_state refl d] d show ?thesis
    by blast
qed



text \<open>A peer that announces a route and subscribes to its VNI is handed its own route, but is
  never told when it withdraws it: what it was handed is no longer what the server has.\<close>

theorem own_withdrawal_not_echoed:
  assumes "actor_wf a" and "peers_inj (a_peers a)" and "hm_get (a_peers a) p = Some c"
    and "(v, d, h) \<in> rt_abs (a_routes a)"
    and "actor_handle (CmdSubscribe p v) (a, chans) = (RoutesReply rs, a1, chans1)"
    and "actor_handle (CmdUpdate p Remove v d h) (a1, chans1) = (reply, a2, chans2)"
  shows "(d, h) \<in> set rs \<and> (v, d, h) \<notin> rt_abs (a_routes a2) \<and> chans2 c = chans c"
proof -
  note one = actor_handle_refines [OF assms(1,2,5)]
  have wf1: "actor_wf a1" by (rule actor_handle_wf [OF assms(1,2,5)])
  have inj1: "peers_inj (a_peers a1)" by (rule actor_handle_inj [OF assms(1,2,5)]) simp
  have "(d, h) \<in> set rs"
    using one assms(4) actor_wf_routes [OF assms(1)] by (auto simp: sp_routes_of_def dom_def simp del: rt_abs_iff)
  moreover have u: "handle_update p Remove v d h (a1, chans1) = (a2, chans2)" using assms(6) by simp
  have "(v, d, h) \<notin> rt_abs (a_routes a2)"
    using handle_update_refines(2) [OF wf1 inj1 u] by simp
  moreover have "sp_peers (actor_abs a1) p = Some c" and "chans1 = chans"
    using one assms(3) by (simp_all add: actor_abs_def)
  with sp_deliveredD [OF handle_update_refines(4) [OF wf1 inj1 u], of p c]
  have "chans2 c = chans c" by (simp add: sp_update_msgs_def)
  ultimately show ?thesis by blast
qed

theorem own_withdrawal_not_echoed_witness:
  "\<exists>rs s1 reply a2. actor_handle (CmdSubscribe peer1 vni100)
       (store_update peer1 Add vni100 net24 hop1 (actor_new\<lparr>a_peers := [(peer1, 0)]\<rparr>), \<lambda>_. new_channel) =
     (RoutesReply rs, s1) \<and>
     actor_handle (CmdUpdate peer1 Remove vni100 net24 hop1) s1 = (reply, a2) \<and>
     (net24, hop1) \<in> set rs \<and> (vni100, net24, hop1) \<notin> rt_abs (a_routes (fst a2))"
proof -
  let ?start = "actor_new\<lparr>a_peers := [(peer1, 0)]\<rparr>"
  let ?a = "store_update peer1 Add vni100 net24 hop1 ?start"
  have wf0: "actor_wf ?start" "peers_inj (a_peers ?start)"
    using sys_run_inv [OF run_connect sys_init_inv] by (simp_all add: sys_inv_def)
  have wf: "actor_wf ?a" by (rule store_update_wf [OF wf0(1)])
  obtain rs a1 chans1 where s: "actor_handle (CmdSubscribe peer1 vni100) (?a, \<lambda>_. new_channel) =
      (RoutesReply rs, a1, chans1)"
    by (cases "handle_subscribe peer1 vni100 ?a") simp
  obtain reply a2 chans2 where u: "actor_handle (CmdUpdate peer1 Remove vni100 net24 hop1) (a1, chans1) =
      (reply, a2, chans2)"
    by (metis prod_cases3)
  have "(net24, hop1) \<in> set rs \<and> (vni100, net24, hop1) \<notin> rt_abs (a_routes a2) \<and> chans2 0 = new_channel"
    by (rule own_withdrawal_not_echoed [OF wf _ _ _ s u])
       (use wf0(2) store_update_routes [OF wf0(1)] in \<open>simp_all add: hm_get_def del: rt_abs_iff\<close>)
  with s u show ?thesis by fastforce
qed

end
