(* ===== verification/Server_Properties.thy ===== *)
theory Server_Properties
  imports Server_Conn Actor_Properties Proto3_Reference
begin

text \<open>The properties of the server's side of a connection.\<close>

section \<open>The message loop\<close>

lemma server_process_buffer_frames:
  "server_process_buffer x ask addr buf s =
     (case frames (message_decode x) need_more_data buf of
        (ms, rest, e) \<Rightarrow> (e, rest, fold (\<lambda>m s. snd (server_handle_message x ask addr m s)) ms s))"
proof (induction x ask addr buf s rule: server_process_buffer.induct)
  case (1 x ask addr buf s)
  show ?case
  proof (cases "buf = []")
    case True
    then show ?thesis by (simp add: server_process_buffer.simps [of x ask addr "[]"] wire_frames.frames_Nil)
  next
    case False
    show ?thesis
    proof (cases "message_decode x buf")
      case (Inl e)
      with False show ?thesis
        by (simp add: server_process_buffer.simps [of x ask addr buf] wire_frames.frames_stop)
    next
      case (Inr mn)
      then obtain m n where mn: "message_decode x buf = Inr (m, n)" by (cases mn) auto
      from 1 [OF False mn refl] False mn show ?thesis
        by (simp add: server_process_buffer.simps [of x ask addr buf] wire_frames.frames_msg [OF mn] split: prod.splits)
    qed
  qed
qed

section \<open>The routing side\<close>

text \<open>The routes a message announces or withdraws.\<close>

fun message_log :: "message list \<Rightarrow> (action \<times> route_key) list" where
  "message_log [] = []"
| "message_log (MsgUpdate a v d h # ms) = (a, (v, d, h)) # message_log ms"
| "message_log (_ # ms) = message_log ms"

text \<open>What the handler relies on, for the commands of a connected peer.\<close>

locale routing_service =
  fixes ask :: "'r ask"
    and stored :: "'r \<Rightarrow> route_key set"
    and ok :: "'r \<Rightarrow> bool"
  assumes subscribe_reply: "ok r \<Longrightarrow> ask (CmdSubscribe p v) r = (reply, r') \<Longrightarrow>
      ok r' \<and> stored r' = stored r \<and>
      (\<exists>rs. reply = RoutesReply rs \<and> distinct rs \<and> set rs = {(d, h). (v, d, h) \<in> stored r})"
    and unsubscribe_keeps: "ok r \<Longrightarrow> ask (CmdUnsubscribe p v) r = (reply, r') \<Longrightarrow> ok r' \<and> stored r' = stored r"
    and update_applies: "ok r \<Longrightarrow> ask (CmdUpdate p a v d h) r = (reply, r') \<Longrightarrow>
      ok r' \<and> stored r' = apply_action a (v, d, h) (stored r)"
    and disconnect_only_removes: "ok r \<Longrightarrow> ask (PeerDisconnected p) r = (reply, r') \<Longrightarrow>
      ok r' \<and> stored r' \<subseteq> stored r"
begin

lemma handle_message_stored:
  assumes "ok (snd s)"
  shows "ok (snd (snd (server_handle_message x ask addr m s))) \<and>
    stored (snd (snd (server_handle_message x ask addr m s))) = apply_log (message_log [m]) (stored (snd s))"
proof (cases m)
  case (MsgSubscribe v)
  obtain st r where s: "s = (st, r)" by (cases s)
  obtain reply r' where a: "ask (CmdSubscribe addr v) r = (reply, r')" by fastforce
  with subscribe_reply [OF _ a] assms s MsgSubscribe show ?thesis by (simp split: prod.split)
next
  case (MsgUnsubscribe v)
  obtain st r where s: "s = (st, r)" by (cases s)
  with unsubscribe_keeps [OF _ prod.collapse [symmetric], of r addr v] assms MsgUnsubscribe show ?thesis by simp
next
  case (MsgUpdate a v d h)
  obtain st r where s: "s = (st, r)" by (cases s)
  with update_applies [OF _ prod.collapse [symmetric], of r addr a v d h] assms MsgUpdate show ?thesis by simp
qed (use assms in \<open>cases s; simp split: prod.split\<close>)+

lemma handle_messages_stored:
  "ok (snd s) \<Longrightarrow>
     ok (snd (fold (\<lambda>m s. snd (server_handle_message x ask addr m s)) ms s)) \<and>
     stored (snd (fold (\<lambda>m s. snd (server_handle_message x ask addr m s)) ms s)) =
       apply_log (message_log ms) (stored (snd s))"
proof (induction ms arbitrary: s)
  case Nil
  then show ?case by simp
next
  case (Cons m ms)
  have "message_log (m # ms) = message_log [m] @ message_log ms" by (cases m) simp_all
  then show ?case
    using Cons.IH [of "snd (server_handle_message x ask addr m s)"] handle_message_stored [OF Cons.prems, of x addr m]
    by simp
qed

end

interpretation actor_service: routing_service actor_handle "\<lambda>s. rt_abs (a_routes (fst s))" sys_inv
proof unfold_locales
  fix r r' :: "actor \<times> channels" and p v reply
  assume inv: "sys_inv r" and a: "actor_handle (CmdSubscribe p v) r = (reply, r')"
  obtain ac ch ac' ch' where s: "r = (ac, ch)" "r' = (ac', ch')" by (cases r, cases r')
  have wf: "actor_wf ac" "actor_wf ac'"
    using inv sys_step_inv [OF sys_cmd [OF _ a] inv] s by (simp_all add: sys_inv_def)
  have "sp_step (CmdSubscribe p v) (actor_abs ac, ch) reply (actor_abs ac', ch')"
    by (rule sys_cmd_spec [OF inv [unfolded s] a [unfolded s]])
  then show "sys_inv r' \<and> rt_abs (a_routes (fst r')) = rt_abs (a_routes (fst r)) \<and>
      (\<exists>rs. reply = RoutesReply rs \<and> distinct rs \<and> set rs = {(d, h). (v, d, h) \<in> rt_abs (a_routes (fst r))})"
    using sys_step_inv [OF sys_cmd [OF _ a] inv] s actor_wf_routes [OF wf(1)] actor_wf_routes [OF wf(2)]
    by (auto simp: sp_routes_of_def dom_def simp del: rt_abs_iff)
next
  fix r r' :: "actor \<times> channels" and p v reply
  assume inv: "sys_inv r" and a: "actor_handle (CmdUnsubscribe p v) r = (reply, r')"
  moreover have "a_routes (fst r') = a_routes (fst r)"
    using a by (cases r) (auto simp: handle_unsubscribe_def Let_def split: option.split)
  ultimately show "sys_inv r' \<and> rt_abs (a_routes (fst r')) = rt_abs (a_routes (fst r))"
    using sys_step_inv [OF sys_cmd [OF _ a] inv] by simp
next
  fix r r' :: "actor \<times> channels" and p act v d h reply
  assume inv: "sys_inv r" and a: "actor_handle (CmdUpdate p act v d h) r = (reply, r')"
  obtain ac ch ac' ch' where s: "r = (ac, ch)" "r' = (ac', ch')" by (cases r, cases r')
  then have "handle_update p act v d h (ac, ch) = (ac', ch')" using a by simp
  from handle_update_refines(2) [OF _ _ this]
  show "sys_inv r' \<and> rt_abs (a_routes (fst r')) = apply_action act (v, d, h) (rt_abs (a_routes (fst r)))"
    using sys_step_inv [OF sys_cmd [OF _ a] inv] inv s by (simp add: sys_inv_def)
next
  fix r r' :: "actor \<times> channels" and p reply
  assume inv: "sys_inv r" and a: "actor_handle (PeerDisconnected p) r = (reply, r')"
  obtain ac ch ac' ch' where s: "r = (ac, ch)" "r' = (ac', ch')" by (cases r, cases r')
  then have "handle_peer_disconnected p (ac, ch) = (ac', ch')" using a by simp
  from handle_peer_disconnected_refines(2) [OF _ _ this]
  show "sys_inv r' \<and> rt_abs (a_routes (fst r')) \<subseteq> rt_abs (a_routes (fst r))"
    using sys_step_inv [OF sys_cmd [OF _ a] inv] inv s by (simp add: sys_inv_def del: rt_abs_iff)
qed

section \<open>Properties\<close>

text \<open>Handling the bytes of a read message by message is cutting them into messages and handling
  these in order, whatever errors the handling of a message meets.\<close>

theorem server_process_buffer_is_framing:
  "server_process_buffer x ask addr buf s =
     (case frames (message_decode x) need_more_data buf of
        (ms, rest, e) \<Rightarrow> (e, rest, fold (\<lambda>m s. snd (server_handle_message x ask addr m s)) ms s))"
  by (rule server_process_buffer_frames)



text \<open>A SUBSCRIBE is answered, when the connection takes the writes, with one announcement for
  each route the server stores for the VNI and no other message, before anything else is
  handled; the stored routes do not change.\<close>

theorem subscribe_sends_snapshot:
  assumes "externals_ok x" and "sys_inv r"
    and "server_handle_message x actor_handle addr (MsgSubscribe v) (st, r) = (result, st', r')"
    and "card {(d, h). (v, d, h) \<in> rt_abs (a_routes (fst r))} \<le> ts_budget st"
  shows "\<exists>rs. distinct rs \<and> set rs = {(d, h). (v, d, h) \<in> rt_abs (a_routes (fst r))} \<and>
    ts_written st' = ts_written st @ wire_bytes x (map (\<lambda>(d, h). MsgUpdate Add v d h) rs) \<and>
    result = Inr () \<and> rt_abs (a_routes (fst r')) = rt_abs (a_routes (fst r))"
proof -
  obtain reply r1 where a: "actor_handle (CmdSubscribe addr v) r = (reply, r1)"
    using prod.exhaust by blast
  obtain rs where rs: "reply = RoutesReply rs" "distinct rs"
    "set rs = {(d, h). (v, d, h) \<in> rt_abs (a_routes (fst r))}"
    and "rt_abs (a_routes (fst r1)) = rt_abs (a_routes (fst r))"
    using actor_service.subscribe_reply [OF assms(2) a] by blast
  moreover have "length rs \<le> ts_budget st" using assms(4) rs distinct_card [OF rs(2)] by simp
  ultimately show ?thesis
    using assms(3) a
    by (intro exI [of _ rs])
      (auto simp: snapshot_messages_def externals_ok.send_all_ok [OF assms(1)] not_less
        simp del: actor_handle.simps split: prod.splits)
qed

theorem subscribe_sends_snapshot_witness:
  "ts_written (fst (snd (server_handle_message reference_externals actor_handle peer1 (MsgSubscribe vni100)
     (\<lparr>ts_written = [], ts_budget = 0\<rparr>, sys_init)))) = []"
  using subscribe_sends_snapshot [OF reference.externals_ok_axioms sys_init_inv, of peer1 vni100 "\<lparr>ts_written = [], ts_budget = 0\<rparr>"]
  by (cases "server_handle_message reference_externals actor_handle peer1 (MsgSubscribe vni100)
     (\<lparr>ts_written = [], ts_budget = 0\<rparr>, sys_init)") (simp add: sys_init_def actor_new_def)

section \<open>The life of a connection\<close>

text \<open>
  A routing side that answers in any way, depending on all commands so far, and keeps the
  commands: what other connections do shows in the answers.
\<close>

definition logging_ask :: "(routing_command list \<Rightarrow> routing_reply) \<Rightarrow> routing_command list ask" where
  "logging_ask replies cmd log = (replies (log @ [cmd]), log @ [cmd])"

fun command_of :: "socket_addr \<Rightarrow> routing_command \<Rightarrow> bool" where
  "command_of addr (CmdSubscribe p v) \<longleftrightarrow> p = addr"
| "command_of addr (CmdUnsubscribe p v) \<longleftrightarrow> p = addr"
| "command_of addr (CmdUpdate p a v d h) \<longleftrightarrow> p = addr"
| "command_of addr _ \<longleftrightarrow> False"

definition session_open :: "socket_addr \<Rightarrow> chan_id \<Rightarrow> routing_command list \<Rightarrow> bool" where
  "session_open addr tx log \<longleftrightarrow> (\<exists>mid. log = PeerConnected addr tx # mid \<and> list_all (command_of addr) mid)"

definition session_closed :: "socket_addr \<Rightarrow> chan_id \<Rightarrow> routing_command list \<Rightarrow> bool" where
  "session_closed addr tx log \<longleftrightarrow> (\<exists>opened. session_open addr tx opened \<and> log = opened @ [PeerDisconnected addr])"

definition conn_log_inv :: "socket_addr \<Rightarrow> chan_id \<Rightarrow> routing_command list server_conn \<Rightarrow> bool" where
  "conn_log_inv addr tx c \<longleftrightarrow>
     (case sc_phase c of
        SHello \<Rightarrow> sc_routing c = []
      | SKeepalive n \<Rightarrow> sc_routing c = []
      | SLoop n last_received round_start buf \<Rightarrow>
          session_open addr tx (sc_routing c) \<and>
          hm_get (sc_peers c) addr = Some \<lparr>ph_tx = tx, ph_state = Established\<rparr>
      | SDone result \<Rightarrow>
          sc_routing c = [] \<or> session_closed addr tx (sc_routing c) \<and> hm_get (sc_peers c) addr = None)"

lemma session_message:
  "session_open addr tx log \<Longrightarrow>
     session_open addr tx (snd (snd (server_handle_message x (logging_ask replies) addr m (st, log))))"
  by (cases m) (auto simp: session_open_def logging_ask_def split: prod.split)

lemma session_messages:
  "session_open addr tx (snd s) \<Longrightarrow>
     session_open addr tx (snd (fold (\<lambda>m s. snd (server_handle_message x (logging_ask replies) addr m s)) ms s))"
proof (induction ms arbitrary: s)
  case Nil
  then show ?case by simp
next
  case (Cons m ms)
  then show ?case using session_message [of addr tx "snd s" x replies m "fst s"] by simp
qed

lemma cleanup_log_inv:
  "session_open addr tx (sc_routing c) \<Longrightarrow> conn_log_inv addr tx (server_cleanup (logging_ask replies) addr result c)"
  by (auto simp: server_cleanup_def conn_log_inv_def session_closed_def logging_ask_def)

lemma data_log_inv:
  assumes "session_open addr tx (sc_routing c)"
    and "hm_get (sc_peers c) addr = Some \<lparr>ph_tx = tx, ph_state = Established\<rparr>"
  shows "conn_log_inv addr tx (server_data x (logging_ask replies) addr n buf read now c)"
proof (cases read)
  case (Inl e)
  with assms show ?thesis by (simp add: server_data_def cleanup_log_inv)
next
  case (Inr data)
  obtain ms rest e where f: "frames (message_decode x) need_more_data (buf @ data) = (ms, rest, e)"
    by (metis prod_cases3)
  obtain st log where s: "fold (\<lambda>m s. snd (server_handle_message x (logging_ask replies) addr m s)) ms
      (sc_stream c, sc_routing c) = (st, log)" by fastforce
  have log: "session_open addr tx log"
    using session_messages [of addr tx "(sc_stream c, sc_routing c)" x replies ms] assms(1) s by simp
  show ?thesis
  proof (cases "data = []")
    case True
    with Inr assms show ?thesis by (simp add: server_data_def cleanup_log_inv)
  next
    case False
    have p: "server_process_buffer x (logging_ask replies) addr (buf @ data) (sc_stream c, sc_routing c) = (e, rest, st, log)"
      by (simp add: server_process_buffer_frames f s)
    show ?thesis
    proof (cases e)
      case None
      with Inr False p log assms(2) show ?thesis by (simp add: server_data_def conn_log_inv_def)
    next
      case (Some err)
      have "conn_log_inv addr tx (server_cleanup (logging_ask replies) addr (Inl err) (c\<lparr>sc_stream := st, sc_routing := log\<rparr>))"
        by (rule cleanup_log_inv) (simp add: log)
      with Inr False p Some show ?thesis by (simp add: server_data_def)
    qed
  qed
qed

lemma batch_log_inv:
  assumes "session_open addr tx (sc_routing c)"
    and "hm_get (sc_peers c) addr = Some \<lparr>ph_tx = tx, ph_state = Established\<rparr>"
  shows "conn_log_inv addr tx (server_batch x (logging_ask replies) addr n last_received buf batch now c)"
proof -
  have "conn_log_inv addr tx (server_cleanup (logging_ask replies) addr result (c\<lparr>sc_stream := st\<rparr>))" for result st
    by (rule cleanup_log_inv) (simp add: assms(1))
  with assms show ?thesis
    by (auto simp: server_batch_def conn_log_inv_def split: prod.split sum.split)
qed

lemma server_step_log_inv:
  assumes inv: "conn_log_inv addr tx c" and step: "server_step x (logging_ask replies) cfg addr tx ev c = Some c'"
  shows "conn_log_inv addr tx c'"
proof (cases "sc_phase c")
  case SHello
  with assms show ?thesis
    by (auto simp: server_step_def server_hello_def conn_log_inv_def
        split: server_event.splits sum.splits option.splits prod.splits)
next
  case (SKeepalive n)
  with assms show ?thesis
    by (auto simp: server_step_def server_keepalive_def conn_log_inv_def logging_ask_def session_open_def
        split: server_event.splits sum.splits prod.splits if_splits)
next
  case (SLoop n last_received round_start buf)
  then have c: "session_open addr tx (sc_routing c)"
    "hm_get (sc_peers c) addr = Some \<lparr>ph_tx = tx, ph_state = Established\<rparr>"
    using inv by (simp_all add: conn_log_inv_def)
  then have "conn_log_inv addr tx (c\<lparr>sc_phase := SLoop n last_received now buf\<rparr>)" for now
    by (simp add: conn_log_inv_def)
  with step SLoop cleanup_log_inv [OF c(1)] data_log_inv [OF c] batch_log_inv [OF c] show ?thesis
    by (auto simp: server_step_def split: server_event.splits if_splits)
next
  case (SDone result)
  with step show ?thesis by (simp add: server_step_def)
qed

lemma server_run_log_inv:
  "conn_log_inv addr tx c \<Longrightarrow> server_run x (logging_ask replies) cfg addr tx es c = Some c' \<Longrightarrow>
     conn_log_inv addr tx c'"
  by (induction es arbitrary: c) (auto split: bind_splits dest: server_step_log_inv)

text \<open>C16: a connection that ends, for whatever reason and whatever the routing side answered, has
  either failed in its handshake and told the actor nothing, or has told it of the peer
  first, then of commands of this peer only, and last, once, of its loss; the peer is then
  in no table.\<close>

theorem connection_session:
  assumes "server_run x (logging_ask replies) cfg addr tx es (server_accept [] peers budget) = Some c"
    and "sc_phase c = SDone result"
  shows "sc_routing c = [] \<or>
    (\<exists>mid. sc_routing c = PeerConnected addr tx # mid @ [PeerDisconnected addr] \<and>
       (\<forall>cmd \<in> set mid. command_of addr cmd) \<and> hm_get (sc_peers c) addr = None)"
proof -
  have "conn_log_inv addr tx (server_accept [] peers budget)" by (simp add: conn_log_inv_def server_accept_def)
  from server_run_log_inv [OF this assms(1)] assms(2) show ?thesis
    by (auto simp: conn_log_inv_def session_closed_def session_open_def list_all_iff)
qed

theorem connection_session_witness:
  "\<exists>c. server_run reference_externals (logging_ask (\<lambda>_. NoReply)) server_config_default peer1 0 [SHelloRead (Inr [])]
     (server_accept [] [] 0) = Some c \<and> sc_routing c = []"
proof -
  have r: "server_run reference_externals (logging_ask (\<lambda>_. NoReply)) server_config_default peer1 0 [SHelloRead (Inr [])]
     (server_accept [] [] 0) = Some ((server_accept [] [] 0)\<lparr>sc_phase := SDone (Inl (EProtocol ''expected HELLO''))\<rparr>)"
    by (simp add: server_step_def server_accept_def server_hello_def receive_hello_def)
  from connection_session [OF r] show ?thesis using r by (simp add: server_accept_def)
qed

text \<open>Batches sent at most a timeout apart.\<close>

fun paced :: "nat \<Rightarrow> nat \<Rightarrow> server_event list \<Rightarrow> bool" where
  "paced timeout now [] = True"
| "paced timeout now (SBatch batch t # es) =
     (batch \<noteq> [] \<and> length batch \<le> BATCH_LIMIT \<and> now \<le> t \<and> t < now + timeout \<and> paced timeout t es)"
| "paced timeout now (e # es) = False"

text \<open>The keepalive timer of the handler is started anew in every round of its loop: as long as
  there is something to send to the peer at least once in every timeout, the connection is
  kept for ever without a single byte from the peer.\<close>

theorem timeout_starved_by_traffic:
  assumes "sc_phase c = SLoop n last_received round_start buf"
    and "paced (keepalive_timeout n) round_start es" and "length es \<le> ts_budget (sc_stream c)"
  shows "\<exists>c' round_start'. server_run x ask cfg addr tx es c = Some c' \<and>
    sc_phase c' = SLoop n last_received round_start' buf"
  using assms
proof (induction es arbitrary: c round_start)
  case Nil
  then show ?case by simp
next
  case (Cons e es)
  obtain batch now where e: "e = SBatch batch now" "batch \<noteq> []" "length batch \<le> BATCH_LIMIT"
    and rest: "paced (keepalive_timeout n) now es"
    using Cons.prems(2) by (cases e) auto
  let ?c1 = "c\<lparr>sc_stream := (sc_stream c)\<lparr>ts_written := ts_written (sc_stream c) @ batch_bytes x batch,
      ts_budget := ts_budget (sc_stream c) - 1\<rparr>, sc_phase := SLoop n last_received now buf\<rparr>"
  have "server_step x ask cfg addr tx e c = Some ?c1"
    using e Cons.prems(1,3) by (simp add: server_step_def server_batch_def write_all_def)
  moreover have "length es \<le> ts_budget (sc_stream c) - 1" using Cons.prems(3) by simp
  then obtain c' round_start' where "server_run x ask cfg addr tx es ?c1 = Some c'"
    "sc_phase c' = SLoop n last_received round_start' buf"
    using Cons.IH [of ?c1 now] rest by auto
  ultimately show ?case by simp
qed

theorem timeout_starved_by_traffic_witness:
  "\<exists>c' t. server_run reference_externals (logging_ask (\<lambda>_. NoReply)) server_config_default peer1 0
     [SBatch [MsgKeepalive] 12000, SBatch [MsgKeepalive] 24000, SBatch [MsgKeepalive] 36000]
     ((server_accept [] [] 3)\<lparr>sc_phase := SLoop 5 0 0 []\<rparr>) = Some c' \<and> sc_phase c' = SLoop 5 0 t []"
  by (rule timeout_starved_by_traffic [of _ 5 0 0 "[]"])
    (simp_all add: server_accept_def keepalive_timeout_ms BATCH_LIMIT_def)

end
