(* ===== verification/Stream_Reads.thy ===== *)
theory Stream_Reads
  imports Peer_Properties Server_Properties
begin

text \<open>
  What a peer task makes of the bytes it reads: the routes it holds of a VNI are those built by
  the updates in the bytes read so far, however these were split into reads and whatever else
  the task did meanwhile.
\<close>

section \<open>Logs of updates\<close>

lemma message_log_simps [simp]:
  "message_log (xs @ ys) = message_log xs @ message_log ys"
  "message_log (map (\<lambda>(d, h). MsgUpdate Add v d h) rs) = map (\<lambda>(d, h). (Add, (v, d, h))) rs"
  "message_log (map MsgSubscribe vs) = []"
proof -
  show "message_log (xs @ ys) = message_log xs @ message_log ys"
    by (induction xs rule: message_log.induct) simp_all
  show "message_log (map (\<lambda>(d, h). MsgUpdate Add v d h) rs) = map (\<lambda>(d, h). (Add, (v, d, h))) rs"
    by (induction rs) auto
  show "message_log (map MsgSubscribe vs) = []" by (induction vs) simp_all
qed

lemma handle_message_received:
  assumes "rt_wf rt"
  shows "rt_wf (fst (peer_handle_message h m (rt, w))) \<and>
    rt_abs (fst (peer_handle_message h m (rt, w))) = apply_log (message_log [m]) (rt_abs rt)"
proof (cases m)
  case (MsgUpdate a v d n)
  show ?thesis
  proof (cases a)
    case Add
    then have "fst (peer_handle_message h m (rt, w)) = snd (add_next_hop v d n rt)"
      by (simp add: MsgUpdate split: prod.split)
    then show ?thesis
      using add_next_hop_wf [OF assms, of v d n] add_next_hop_abs [of v d n rt]
      by (simp add: MsgUpdate Add del: rt_abs_iff)
  next
    case Remove
    then have "fst (peer_handle_message h m (rt, w)) = snd (remove_next_hop v d n rt)"
      by (simp add: MsgUpdate split: prod.split)
    then show ?thesis
      using remove_next_hop_wf [OF assms, of v d n] remove_next_hop_abs [OF assms, of v d n]
      by (simp add: MsgUpdate Remove del: rt_abs_iff)
  qed
qed (use assms in simp_all)

text \<open>The routes a peer task holds after a list of messages.\<close>

lemma handle_messages_received:
  "rt_wf rt \<Longrightarrow>
     rt_wf (fst (fold (peer_handle_message h) ms (rt, w))) \<and>
     rt_abs (fst (fold (peer_handle_message h) ms (rt, w))) = apply_log (message_log ms) (rt_abs rt)"
proof (induction ms arbitrary: rt w)
  case Nil
  then show ?case by simp
next
  case (Cons m ms)
  obtain rt' w' where m: "peer_handle_message h m (rt, w) = (rt', w')" by fastforce
  have "message_log (m # ms) = message_log [m] @ message_log ms" by (cases m) simp_all
  with Cons.IH [of rt' w'] handle_message_received [OF Cons.prems, of h m w] m show ?case by simp
qed

text \<open>A log of updates seen from one VNI.\<close>

lemma log_of_vni:
  "{b. (v, b) \<in> apply_log (message_log ms) S} = apply_log (chan_log v ms) {b. (v, b) \<in> S}"
proof (induction ms arbitrary: S)
  case Nil
  then show ?case by simp
next
  case (Cons m ms)
  show ?case
  proof (cases m)
    case (MsgUpdate a w d h)
    have "{b. (v, b) \<in> apply_action a (w, d, h) S} =
        (if w = v then apply_action a (d, h) {b. (v, b) \<in> S} else {b. (v, b) \<in> S})"
      by (cases a) auto
    with Cons.IH [of "apply_action a (w, d, h) S"] MsgUpdate show ?thesis by simp
  qed (use Cons.IH in simp_all)
qed

lemma chan_log_snapshot: "chan_log v (map (\<lambda>(d, h). MsgUpdate Add v d h) rs) = map (Pair Add) rs"
  by (induction rs) auto

text \<open>Reading writes nothing.\<close>

lemma conn_data_stream [simp]: "pt_stream (conn_data x h n buf read now t) = pt_stream t"
  by (simp add: conn_data_def connection_ended_def split: sum.splits prod.splits option.splits)

text \<open>One read that brings whole messages, in a connection with nothing left over.\<close>

lemma conn_data_messages:
  assumes "externals_ok x" and "ms \<noteq> []" and "\<forall>m \<in> set ms. message_valid m \<and> message_canon m = m"
    and "rt_wf (pt_received t)"
  shows "rt_abs (pt_received (conn_data x h n [] (Inr (wire_bytes x ms)) now t)) =
      apply_log (message_log ms) (rt_abs (pt_received t)) \<and>
    pt_phase (conn_data x h n [] (Inr (wire_bytes x ms)) now t) = AtLoop n now []"
proof -
  have canon: "map message_canon ms = ms" using assms(3) by (simp add: map_idI)
  have f: "frames (message_decode x) need_more_data (wire_bytes x ms) = (ms, [], None)"
    using externals_ok.frames_wire_bytes [OF assms(1), of ms] assms(3) by (simp add: canon)
  have "wire_bytes x ms \<noteq> []"
  proof
    assume "wire_bytes x ms = []"
    with f assms(2) show False by (simp add: wire_frames.frames_Nil)
  qed
  moreover obtain rt w where s: "fold (peer_handle_message h) ms (pt_received t, pt_world t) = (rt, w)" by fastforce
  ultimately show ?thesis
    using handle_messages_received [OF assms(4), of h ms "pt_world t"] f
    by (simp add: conn_data_def process_buffer_frames)
qed

section \<open>Reading on\<close>

text \<open>The bytes the events of a task bring.\<close>

fun bytes_read :: "peer_event list \<Rightarrow> u8 list" where
  "bytes_read [] = []"
| "bytes_read (DataRead (Inr data) now # es) = data @ bytes_read es"
| "bytes_read (_ # es) = bytes_read es"

lemma bytes_read_append: "bytes_read (es @ es') = bytes_read es @ bytes_read es'"
  by (induction es rule: bytes_read.induct) simp_all

text \<open>
  A task that is connected, has read \<open>bs\<close> since it held the routes \<open>base\<close> of the VNI, and has
  followed them.
\<close>

definition reads_log :: "externals \<Rightarrow> vni \<Rightarrow> (destination \<times> next_hop) set \<Rightarrow> u8 list \<Rightarrow> 'w peer_task \<Rightarrow> bool" where
  "reads_log x v base bs t \<longleftrightarrow> rt_wf (pt_received t) \<and>
     (\<exists>n last_received buf ms. pt_phase t = AtLoop n last_received buf \<and>
        frames (message_decode x) need_more_data bs = (ms, buf, None) \<and>
        {b. (v, b) \<in> rt_abs (pt_received t)} = apply_log (chan_log v ms) base)"

definition offline :: "'w peer_task \<Rightarrow> bool" where
  "offline t \<longleftrightarrow> pt_phase t \<in> {AtConnect, AtRetry, AtEnd, AtPanic}"

lemma offline_ended [simp]: "offline (connection_ended h t)"
  by (simp add: offline_def connection_ended_def)

lemma offline_step:
  assumes "peer_step x h e t = Some t'" and "offline t" and "\<And>budget. e \<noteq> ConnectOk budget"
  shows "offline t'"
proof (cases e)
  case (PeerCommand cmd)
  with assms(1,2) show ?thesis by (cases cmd) (auto simp: offline_def peer_step_def)
qed (use assms in \<open>auto simp: offline_def peer_step_def\<close>)

lemma conn_send_kept:
  assumes "conn_send x h msgs go_on t = t'" and "\<And>st. kept (go_on (t\<lparr>pt_stream := st\<rparr>))"
  shows "kept t' \<or> offline t'"
  using assms(2) unfolding assms(1) [symmetric] conn_send_def by (auto split: prod.split sum.split)

lemma reads_log_stream [simp]: "reads_log x v base bs (t\<lparr>pt_stream := st\<rparr>) = reads_log x v base bs t"
  by (simp add: reads_log_def)

lemma reads_log_subs [simp]: "reads_log x v base bs (t\<lparr>pt_subs := vs\<rparr>) = reads_log x v base bs t"
  by (simp add: reads_log_def)

lemma conn_data_reads:
  assumes reads: "reads_log x v base bs t" and phase: "pt_phase t = AtLoop n last_received buf"
    and t': "t' = conn_data x h n buf (Inr data) now t"
  shows "reads_log x v base (bs @ data) t' \<or> offline t'"
proof (cases "data = []")
  case True
  then show ?thesis by (simp add: t' conn_data_def)
next
  case False
  obtain ms where wf: "rt_wf (pt_received t)" and ms: "frames (message_decode x) need_more_data bs = (ms, buf, None)"
    and held: "{b. (v, b) \<in> rt_abs (pt_received t)} = apply_log (chan_log v ms) base"
    using reads phase by (auto simp: reads_log_def)
  obtain ms' rest e where f: "frames (message_decode x) need_more_data (buf @ data) = (ms', rest, e)" by (metis prod_cases3)
  obtain rt w where s: "fold (peer_handle_message h) ms' (pt_received t, pt_world t) = (rt, w)" by fastforce
  show ?thesis
  proof (cases e)
    case None
    with False f s have t'': "t' = t\<lparr>pt_received := rt, pt_world := w, pt_phase := AtLoop n now rest\<rparr>"
      by (simp add: t' conn_data_def process_buffer_frames)
    have "rt_wf rt" "rt_abs rt = apply_log (message_log ms') (rt_abs (pt_received t))"
      using handle_messages_received [OF wf, of h ms' "pt_world t"] s by simp_all
    moreover from this have "{b. (v, b) \<in> rt_abs rt} = apply_log (chan_log v (ms @ ms')) base"
      by (simp only: log_of_vni held) simp
    moreover have "frames (message_decode x) need_more_data (bs @ data) = (ms @ ms', rest, None)"
      using wire_frames.frames_append [OF ms, of data] f None by simp
    ultimately show ?thesis by (simp add: reads_log_def t'' del: rt_abs_iff)
  next
    case (Some err)
    with False f s show ?thesis by (simp add: t' conn_data_def process_buffer_frames)
  qed
qed

lemma reads_log_step:
  assumes step: "peer_step x h e t = Some t'" and reads: "reads_log x v base bs t"
    and keeps: "e \<noteq> PeerCommand (PeerUnsubscribe v)"
  shows "reads_log x v base (bs @ bytes_read [e]) t' \<or> offline t'"
proof -
  obtain n last_received buf where phase: "pt_phase t = AtLoop n last_received buf"
    using reads by (auto simp: reads_log_def)
  have sent: "reads_log x v base bs t' \<or> offline t'"
    if "conn_send x h msgs go_on t = t'" "\<And>st. reads_log x v base bs (go_on (t\<lparr>pt_stream := st\<rparr>))" for msgs go_on
    using conn_send_kept [where kept = "reads_log x v base bs", OF that(1)] that(2) by blast
  show ?thesis
  proof (cases e)
    case (Tick now)
    then have "t' = conn_tick x h n last_received now t" using step phase by (simp add: peer_step_def)
    with sent [of "[MsgKeepalive]" "\<lambda>t. t"] reads Tick show ?thesis by (auto simp: conn_tick_def)
  next
    case (DataRead read now)
    then have t': "t' = conn_data x h n buf read now t" using step phase by (simp add: peer_step_def)
    show ?thesis
    proof (cases read)
      case (Inl err)
      then show ?thesis by (simp add: t' conn_data_def)
    next
      case (Inr data)
      with conn_data_reads [OF reads phase] t' DataRead show ?thesis by simp
    qed
  next
    case (PeerCommand cmd)
    then have t': "t' = conn_command x h cmd t" using step phase by (simp add: peer_step_def)
    show ?thesis
    proof (cases cmd)
      case (PeerUnsubscribe u)
      obtain rs rt where rt: "remove_vni u (pt_received t) = (rs, rt)" by fastforce
      have "u \<noteq> v" using keeps PeerCommand PeerUnsubscribe by simp
      moreover have "rt_wf (pt_received t)" using reads by (simp add: reads_log_def)
      ultimately have "rt_wf rt" "{b. (v, b) \<in> rt_abs rt} = {b. (v, b) \<in> rt_abs (pt_received t)}"
        using remove_vni_abs [of u "pt_received t"] remove_vni_wf [of "pt_received t" u] rt
        by (auto simp del: rt_abs_iff)
      with reads have "reads_log x v base bs (t\<lparr>pt_stream := st, pt_subs := vs, pt_received := rt, pt_world := w\<rparr>)" for st vs w
        by (simp add: reads_log_def del: rt_abs_iff)
      with sent [of "[MsgUnsubscribe u]"] PeerCommand PeerUnsubscribe show ?thesis by (auto simp: t' rt)
    qed (use sent reads PeerCommand in \<open>auto simp: t'\<close>)
  qed (use step phase in \<open>simp_all add: peer_step_def\<close>)
qed

lemma peer_run_reads:
  "peer_run x h es t = Some t' \<Longrightarrow> reads_log x v base bs t \<or> offline t \<Longrightarrow>
     PeerCommand (PeerUnsubscribe v) \<notin> set es \<Longrightarrow> \<forall>budget. ConnectOk budget \<notin> set es \<Longrightarrow>
     reads_log x v base (bs @ bytes_read es) t' \<or> offline t'"
proof (induction es arbitrary: t bs)
  case Nil
  then show ?case by simp
next
  case (Cons e es)
  obtain t1 where t1: "peer_step x h e t = Some t1" and run: "peer_run x h es t1 = Some t'"
    using Cons.prems(1) by (cases "peer_step x h e t") auto
  have "reads_log x v base (bs @ bytes_read [e]) t1 \<or> offline t1"
    using reads_log_step [OF t1] offline_step [OF t1] Cons.prems(2-4) by auto
  from Cons.IH [OF run this] Cons.prems(3,4) show ?case
    using bytes_read_append [of "[e]" es] by simp
qed

section \<open>A task that is not connected holds nothing\<close>

definition held :: "'w peer_task \<Rightarrow> bool" where
  "held t \<longleftrightarrow> rt_wf (pt_received t) \<and> (holds_routes (pt_phase t) \<or> rt_abs (pt_received t) = {})"

lemma held_new: "held (peer_new w)"
  using rt_new_wf rt_new_abs by (simp add: held_def peer_new_def del: rt_abs_iff)

lemma held_ended: "rt_wf (pt_received t) \<Longrightarrow> held (connection_ended h t)"
  by (simp add: held_def connection_ended_def)

lemma held_send: "rt_wf (pt_received t) \<Longrightarrow> (\<And>st. held (go_on (t\<lparr>pt_stream := st\<rparr>))) \<Longrightarrow> held (conn_send x h ms go_on t)"
  by (auto simp: conn_send_def intro!: held_ended split: prod.split sum.split)

lemma held_data:
  assumes "held t"
  shows "held (conn_data x h n buf read now t)"
proof (cases read)
  case (Inl e)
  moreover have "rt_wf (pt_received t)" using assms by (simp add: held_def)
  ultimately show ?thesis by (simp add: conn_data_def held_ended)
next
  case (Inr data)
  obtain ms rest e where f: "frames (message_decode x) need_more_data (buf @ data) = (ms, rest, e)" by (metis prod_cases3)
  obtain rt w where s: "fold (peer_handle_message h) ms (pt_received t, pt_world t) = (rt, w)" by fastforce
  have "rt_wf rt" using handle_messages_received [of "pt_received t" h ms "pt_world t"] s assms by (simp add: held_def)
  with Inr f s assms show ?thesis
    by (cases e) (auto simp: conn_data_def process_buffer_frames held_def intro!: held_ended [unfolded held_def])
qed

lemma held_command:
  assumes "held t" and "holds_routes (pt_phase t)"
  shows "held (conn_command x h cmd t)"
proof (cases cmd)
  case (PeerUnsubscribe u)
  have "rt_wf (snd (remove_vni u (pt_received t)))" using assms(1) by (simp add: remove_vni_wf held_def)
  then show ?thesis
    unfolding PeerUnsubscribe conn_command.simps
    by (intro held_send) (use assms in \<open>auto simp: held_def split: prod.split\<close>)
qed (use assms in \<open>auto simp: held_def intro!: held_send [unfolded held_def] held_ended [unfolded held_def]\<close>)

lemma held_step:
  assumes "held t" and "peer_step x h e t = Some t'"
  shows "held t'"
proof -
  have wf: "rt_wf (pt_received t)" using assms(1) by (simp add: held_def)
  have start: "held (conn_start x h (t\<lparr>pt_stream := st\<rparr>))" if "pt_phase t = AtConnect" for st
    unfolding conn_start_def by (rule held_send) (use assms(1) that wf in \<open>simp_all add: held_def\<close>)
  have hello: "held (conn_hello x h read t)" if "pt_phase t = AtHello" for read
    unfolding conn_hello_def
    by (auto intro!: held_ended held_send split: sum.split option.split) (use assms(1) that wf in \<open>auto simp: held_def\<close>)
  have keepalive: "held (conn_keepalive x h n read announced now t)" if "pt_phase t = AtKeepalive n" for n read announced now
    unfolding conn_keepalive_def
    by (auto intro!: held_ended held_send split: sum.split message.split) (use assms(1) that wf in \<open>auto simp: held_def\<close>)
  have tick: "held (conn_tick x h n last_received now t)" if "pt_phase t = AtLoop n last_received buf" for n last_received now buf
    unfolding conn_tick_def
    by (auto intro!: held_ended held_send) (use assms(1) that wf in \<open>auto simp: held_def\<close>)
  have waits: "held (t\<lparr>pt_state := st, pt_phase := ph\<rparr>)" if "pt_phase t = AtConnect \<or> pt_phase t = AtRetry" for st ph
    using assms(1) that by (auto simp: held_def simp del: rt_abs_iff)
  show ?thesis
    using assms(2) start hello keepalive tick waits held_data [OF assms(1)] held_command [OF assms(1)]
    by (auto simp: peer_step_def split: peer_phase.splits peer_event.splits peer_command.splits)
qed

lemma held_run: "peer_run x h es t = Some t' \<Longrightarrow> held t \<Longrightarrow> held t'"
  by (induction es arbitrary: t) (auto split: bind_splits dest: held_step)

text \<open>A task that connects for the first time or again begins with nothing of any VNI.\<close>

lemma connected_reads:
  assumes run: "peer_run x h (ces0 @ ConnectOk budget # HelloRead hello # KeepaliveRead keepalive announced now # ces) (peer_new w) = Some t"
    and phase: "pt_phase t = AtLoop n last_received buf"
    and ces: "PeerCommand (PeerUnsubscribe v) \<notin> set ces" "\<forall>budget. ConnectOk budget \<notin> set ces"
  shows "reads_log x v {} (bytes_read ces) t"
proof -
  obtain t0 t1 t2 t3 where t0: "peer_run x h ces0 (peer_new w) = Some t0"
    and steps: "peer_step x h (ConnectOk budget) t0 = Some t1" "peer_step x h (HelloRead hello) t1 = Some t2"
      "peer_step x h (KeepaliveRead keepalive announced now) t2 = Some t3"
    and rest: "peer_run x h ces t3 = Some t"
    using run by (auto simp: peer_run_append bind_eq_Some_conv)
  have "pt_phase t0 = AtConnect" using steps(1) by (simp add: peer_step_def split: peer_phase.splits)
  then have wf: "rt_wf (pt_received t0)" and empty: "rt_abs (pt_received t0) = {}"
    using held_run [OF t0 held_new] by (simp_all add: held_def)
  have t1: "offline t1 \<or> pt_received t1 = pt_received t0"
    using steps(1) by (auto simp: peer_step_def conn_start_def conn_send_def split: peer_phase.splits prod.splits sum.splits)
  have t2: "offline t2 \<or> pt_received t2 = pt_received t1"
    using steps(2)
    by (auto simp: peer_step_def conn_hello_def conn_send_def split: peer_phase.splits prod.splits sum.splits option.splits)
  have t3: "offline t3 \<or> pt_received t3 = pt_received t2 \<and> (\<exists>n. pt_phase t3 = AtLoop n now [])"
    using steps(3) by (auto simp: peer_step_def conn_keepalive_def conn_send_def offline_def [of "pt_phase_update _ _"]
        split: peer_phase.splits prod.splits sum.splits message.splits if_splits)
  have "offline t3 \<or> pt_received t3 = pt_received t0 \<and> (\<exists>n. pt_phase t3 = AtLoop n now [])"
    using t1 t2 t3 offline_step [OF steps(2)] offline_step [OF steps(3)] by auto
  then have "reads_log x v {} [] t3 \<or> offline t3"
    using wf empty by (auto simp: reads_log_def wire_frames.frames_Nil simp del: rt_abs_iff)
  from peer_run_reads [OF rest this ces] show ?thesis using phase by (auto simp: offline_def)
qed

section \<open>Subscribing again\<close>



end
