(* ===== verification/Server_System.thy ===== *)
theory Server_System
  imports Server_Properties
begin

text \<open>
  The whole server (\<open>MetalBondServer\<close> in \<open>src/src/server.rs\<close>): the accept loop, a connection
  handler for each connection, and the routing actor behind its bounded command queue. Any
  task may move at any time. A handler works through a read message by message, puts
  commands into the queue (and waits while it is full), and after a SUBSCRIBE waits for the
  answer; meanwhile the actor handles what other connections have sent.

  A handler is the one of \<open>Server_Conn\<close>, with a routing side that only puts a command into
  the queue. The connection's number is also the name of its channel.
\<close>

section \<open>State\<close>

type_synonym command_queue = "(chan_id \<times> routing_command) list"

text \<open>
  Between two events a handler waits for the network (\<open>HWait\<close>), is in the message loop with
  what is left of the buffer, waits for the routes of a VNI, or has returned.
\<close>

datatype handler_phase =
    HWait server_phase
  | HHandle u32 nat "u8 list"
  | HSubscribe u32 nat "u8 list" vni
  | HEnded

text \<open>\<open>hd_reply\<close> is the one-shot channel of a SUBSCRIBE, \<open>hd_signalled\<close> the broadcast of the shutdown.\<close>

record handler =
  hd_addr :: socket_addr
  hd_stream :: tcp_stream
  hd_phase :: handler_phase
  hd_reply :: "routing_reply option"
  hd_signalled :: bool

text \<open>
  \<open>sv_owner\<close>: the user still holds the server and with it the senders of both shutdown
  signals; \<open>sv_stop\<close>: the accept loop was told to stop; \<open>sv_accepting\<close>: it still runs.
\<close>

record server =
  sv_config :: server_config
  sv_actor :: actor
  sv_chans :: channels
  sv_queue :: command_queue
  sv_peers :: "(socket_addr, peer_handle) hash_map"
  sv_conns :: "handler list"
  sv_owner :: bool
  sv_stop :: bool
  sv_accepting :: bool

definition ROUTING_QUEUE :: nat where "ROUTING_QUEUE = 8192"

text \<open>\<open>start\<close>, given the outcome of binding the listener.\<close>

definition server_init :: "server_config \<Rightarrow> server" where
  "server_init config =
     \<lparr>sv_config = config, sv_actor = actor_new, sv_chans = \<lambda>_. new_channel, sv_queue = [], sv_peers = [],
      sv_conns = [], sv_owner = True, sv_stop = False, sv_accepting = True\<rparr>"

definition server_start :: "error + unit \<Rightarrow> server_config \<Rightarrow> error + server" where
  "server_start bind config = and_then bind (\<lambda>_. Inr (server_init config))"

section \<open>The accept loop and the shutdown\<close>

definition new_handler :: "socket_addr \<Rightarrow> nat \<Rightarrow> handler" where
  "new_handler addr budget =
     \<lparr>hd_addr = addr, hd_stream = \<lparr>ts_written = [], ts_budget = budget\<rparr>, hd_phase = HWait SHello,
      hd_reply = None, hd_signalled = False\<rparr>"

text \<open>
  A connection has an address of its own: TCP does not hand out a second one from the same
  address as long as the handler of the first has not let go of its stream.
\<close>

definition addr_free :: "socket_addr \<Rightarrow> server \<Rightarrow> bool" where
  "addr_free addr s \<longleftrightarrow> list_all (\<lambda>h. hd_phase h = HEnded \<or> hd_addr h \<noteq> addr) (sv_conns s)"

definition accept_conn :: "socket_addr \<Rightarrow> nat \<Rightarrow> server \<Rightarrow> server" where
  "accept_conn addr budget s = s\<lparr>sv_conns := sv_conns s @ [new_handler addr budget]\<rparr>"

text \<open>\<open>shutdown\<close>: signal the handlers there are, then the accept loop; the server is consumed.\<close>

definition server_shutdown :: "server \<Rightarrow> server" where
  "server_shutdown s =
     s\<lparr>sv_conns := map (\<lambda>h. h\<lparr>hd_signalled := True\<rparr>) (sv_conns s), sv_stop := True, sv_owner := False\<rparr>"

text \<open>
  A handler sees the signal, or that nobody is left who could send one; the accept loop holds
  a sender as well.
\<close>

definition sees_shutdown :: "server \<Rightarrow> handler \<Rightarrow> bool" where
  "sees_shutdown s h \<longleftrightarrow> hd_signalled h \<or> \<not> sv_owner s \<and> \<not> sv_accepting s"

section \<open>The handlers\<close>

text \<open>Sending a command to the actor.\<close>

definition enqueue :: "chan_id \<Rightarrow> command_queue ask" where
  "enqueue cid cmd q = (NoReply, q @ [(cid, cmd)])"

text \<open>A handler as a connection of \<open>Server_Conn\<close>, and the state after a step of it.\<close>

definition conn_view :: "server \<Rightarrow> handler \<Rightarrow> server_phase \<Rightarrow> command_queue server_conn" where
  "conn_view s h ph = \<lparr>sc_routing = sv_queue s, sc_peers = sv_peers s, sc_stream = hd_stream h, sc_phase = ph\<rparr>"

definition set_conn :: "chan_id \<Rightarrow> handler \<Rightarrow> server \<Rightarrow> server" where
  "set_conn cid h s = s\<lparr>sv_conns := (sv_conns s)[cid := h]\<rparr>"

definition put_conn :: "chan_id \<Rightarrow> handler \<Rightarrow> command_queue server_conn \<Rightarrow> server \<Rightarrow> server" where
  "put_conn cid h c s =
     (set_conn cid (h\<lparr>hd_stream := sc_stream c, hd_phase := HWait (sc_phase c)\<rparr>) s)
       \<lparr>sv_queue := sc_routing c, sv_peers := sc_peers c\<rparr>"

text \<open>Taking a batch off the channel.\<close>

definition take_batch :: "message list \<Rightarrow> channel \<Rightarrow> channel" where
  "take_batch batch ch =
     ch\<lparr>ch_queue := drop (length batch) (ch_queue ch), ch_taken := ch_taken ch @ batch\<rparr>"

text \<open>
  An event a handler waits for. Data starts the message loop. A batch is what the handler
  takes off its channel before it writes, at least one message and at most the limit; the
  actor may push more while it does, so it need not be all there is.
\<close>

definition conn_event :: "externals \<Rightarrow> chan_id \<Rightarrow> server_event \<Rightarrow> server \<Rightarrow> server option" where
  "conn_event x cid ev s =
     (if cid < length (sv_conns s) then
        let h = sv_conns s ! cid in
        case hd_phase h of
          HWait ph \<Rightarrow>
            let step = map_option (\<lambda>c. put_conn cid h c s)
              (server_step x (enqueue cid) (sv_config s) (hd_addr h) cid ev (conn_view s h ph))
            in (case ev of
                  SDataRead (Inr (b # data)) now \<Rightarrow>
                    (case ph of
                       SLoop n last_received round_start buf \<Rightarrow>
                         Some (set_conn cid (h\<lparr>hd_phase := HHandle n now (buf @ b # data)\<rparr>) s)
                     | _ \<Rightarrow> None)
                | SShutdown \<Rightarrow> if sees_shutdown s h then step else None
                | SBatch batch now \<Rightarrow>
                    if prefix batch (ch_queue (sv_chans s cid))
                    then map_option
                      (\<lambda>s'. s'\<lparr>sv_chans := (sv_chans s')(cid := take_batch batch (sv_chans s' cid))\<rparr>) step
                    else None
                | _ \<Rightarrow> step)
        | _ \<Rightarrow> None
      else None)"

text \<open>
  A step of the message loop: the next message, the end of what is complete, or a message that
  cannot be decoded, which ends the connection; and, after a SUBSCRIBE, writing the answer.
  \<open>t\<close> is the time at which the next round begins.
\<close>

definition handle_step :: "externals \<Rightarrow> chan_id \<Rightarrow> nat \<Rightarrow> server \<Rightarrow> server option" where
  "handle_step x cid t s =
     (if cid < length (sv_conns s) then
        let h = sv_conns s ! cid in
        case hd_phase h of
          HHandle n now buf \<Rightarrow>
            if buf = [] then Some (set_conn cid (h\<lparr>hd_phase := HWait (SLoop n now t [])\<rparr>) s)
            else
              (case message_decode x buf of
                 Inl e \<Rightarrow>
                   if need_more_data e then Some (set_conn cid (h\<lparr>hd_phase := HWait (SLoop n now t buf)\<rparr>) s)
                   else Some (put_conn cid h
                     (server_cleanup (enqueue cid) (hd_addr h) (Inl e) (conn_view s h (SLoop n now t buf))) s)
               | Inr (MsgSubscribe v, consumed) \<Rightarrow>
                   Some ((set_conn cid (h\<lparr>hd_phase := HSubscribe n now (drop consumed buf) v, hd_reply := None\<rparr>) s)
                     \<lparr>sv_queue := snd (enqueue cid (CmdSubscribe (hd_addr h) v) (sv_queue s))\<rparr>)
               | Inr (msg, consumed) \<Rightarrow>
                   (case server_handle_message x (enqueue cid) (hd_addr h) msg (hd_stream h, sv_queue s) of
                      (_, st, q) \<Rightarrow>
                        Some ((set_conn cid (h\<lparr>hd_stream := st, hd_phase := HHandle n now (drop consumed buf)\<rparr>) s)
                          \<lparr>sv_queue := q\<rparr>)))
        | HSubscribe n now buf v \<Rightarrow>
            (case hd_reply h of
               None \<Rightarrow> None
             | Some reply \<Rightarrow>
                 Some (set_conn cid
                   (h\<lparr>hd_stream := snd (send_all x (snapshot_messages v reply) (hd_stream h)),
                      hd_phase := HHandle n now buf, hd_reply := None\<rparr>) s))
        | _ \<Rightarrow> None
      else None)"

text \<open>The handler returns: its stream and the receiver of its channel are gone.\<close>

definition handler_return :: "chan_id \<Rightarrow> server \<Rightarrow> server option" where
  "handler_return cid s =
     (if cid < length (sv_conns s) then
        let h = sv_conns s ! cid in
        case hd_phase h of
          HWait (SDone result) \<Rightarrow>
            Some ((set_conn cid (h\<lparr>hd_phase := HEnded\<rparr>) s)
              \<lparr>sv_chans := (sv_chans s)(cid := (sv_chans s cid)\<lparr>ch_queue := [], ch_open := False\<rparr>)\<rparr>)
        | _ \<Rightarrow> None
      else None)"

text \<open>The actor handles the next command and answers a subscription.\<close>

definition actor_step :: "server \<Rightarrow> server option" where
  "actor_step s =
     (case sv_queue s of
        [] \<Rightarrow> None
      | (cid, cmd) # q \<Rightarrow>
          (case actor_handle cmd (sv_actor s, sv_chans s) of
             (reply, a, chans) \<Rightarrow>
               let s' = s\<lparr>sv_queue := q, sv_actor := a, sv_chans := chans\<rparr> in
               Some (case reply of
                       RoutesReply rs \<Rightarrow> set_conn cid ((sv_conns s ! cid)\<lparr>hd_reply := Some reply\<rparr>) s'
                     | _ \<Rightarrow> s')))"

section \<open>The system\<close>

datatype system_event =
    Accept socket_addr nat
  | ConnEvent chan_id server_event
  | Handle chan_id nat
  | Return chan_id
  | ActorStep
  | Rehash
  | Shutdown
  | DropServer
  | AcceptEnd

inductive sv_step :: "externals \<Rightarrow> server \<Rightarrow> system_event \<Rightarrow> server \<Rightarrow> bool" for x where
  sv_accept: "sv_accepting s \<Longrightarrow> addr_free addr s \<Longrightarrow>
    sv_step x s (Accept addr budget) (accept_conn addr budget s)"
| sv_conn: "conn_event x cid ev s = Some s' \<Longrightarrow> length (sv_queue s') \<le> ROUTING_QUEUE \<Longrightarrow>
    sv_step x s (ConnEvent cid ev) s'"
| sv_handle: "handle_step x cid t s = Some s' \<Longrightarrow> length (sv_queue s') \<le> ROUTING_QUEUE \<Longrightarrow>
    sv_step x s (Handle cid t) s'"
| sv_return: "handler_return cid s = Some s' \<Longrightarrow> sv_step x s (Return cid) s'"
| sv_actor: "actor_step s = Some s' \<Longrightarrow> sv_step x s ActorStep s'"
| sv_rehash: "actor_wf a \<Longrightarrow> actor_abs a = actor_abs (sv_actor s) \<Longrightarrow> sv_step x s Rehash (s\<lparr>sv_actor := a\<rparr>)"
| sv_shutdown: "sv_owner s \<Longrightarrow> sv_step x s Shutdown (server_shutdown s)"
| sv_drop: "sv_owner s \<Longrightarrow> sv_step x s DropServer (s\<lparr>sv_owner := False\<rparr>)"
| sv_accept_end: "sv_accepting s \<Longrightarrow> sv_stop s \<or> \<not> sv_owner s \<Longrightarrow>
    sv_step x s AcceptEnd (s\<lparr>sv_accepting := False\<rparr>)"

text \<open>What a step is for the routing side: the events of \<open>Actor_System\<close> it stands for.\<close>

fun routing_events :: "server \<Rightarrow> system_event \<Rightarrow> sys_event list" where
  "routing_events s ActorStep =
     (case sv_queue s of
        [] \<Rightarrow> []
      | (cid, cmd) # q \<Rightarrow> [SysCmd cmd (fst (actor_handle cmd (sv_actor s, sv_chans s)))])"
| "routing_events s (ConnEvent cid (SBatch batch now)) = map (SysTake cid) batch"
| "routing_events s (Return cid) = [SysClose cid]"
| "routing_events s Rehash = [SysRehash]"
| "routing_events s _ = []"

text \<open>A run, with the events of the system and those of the routing side.\<close>

inductive sv_run :: "externals \<Rightarrow> server \<Rightarrow> system_event list \<Rightarrow> sys_event list \<Rightarrow> server \<Rightarrow> bool" for x where
  sv_nil: "sv_run x s [] [] s"
| sv_cons: "sv_step x s e s' \<Longrightarrow> sv_run x s' es rs s'' \<Longrightarrow> sv_run x s (e # es) (routing_events s e @ rs) s''"

inductive_cases sv_step_elims:
  "sv_step x s (Accept addr budget) s'" "sv_step x s (ConnEvent cid ev) s'" "sv_step x s (Handle cid t) s'"
  "sv_step x s (Return cid) s'" "sv_step x s ActorStep s'" "sv_step x s Rehash s'" "sv_step x s Shutdown s'"
  "sv_step x s DropServer s'" "sv_step x s AcceptEnd s'"

inductive_cases sv_run_Cons: "sv_run x s (e # es) rs s'"
inductive_simps sv_run_Nil [simp]: "sv_run x s [] rs s'"

end
