(* ===== verification/Server_Runs.thy ===== *)
theory Server_Runs
  imports Server_System
begin

text \<open>
  The runs of the whole server. Every run is, for the routing side, a run of the actor among
  its channels, so that what \<open>Actor_System\<close> shows holds of the server; each connection talks
  to the actor in a session of its own; and nothing stays behind of a connection that ended.
\<close>

section \<open>Sessions\<close>

text \<open>Where a handler is in its session with the actor.\<close>

datatype stage = Before | During | After

fun stage_of :: "handler_phase \<Rightarrow> stage" where
  "stage_of (HWait SHello) = Before"
| "stage_of (HWait (SKeepalive n)) = Before"
| "stage_of (HWait (SLoop n last_received round_start buf)) = During"
| "stage_of (HHandle n now buf) = During"
| "stage_of (HSubscribe n now buf v) = During"
| "stage_of (HWait (SDone result)) = After"
| "stage_of HEnded = After"

text \<open>What a step of a handler sends to the actor, and what it does to the table of peers.\<close>

inductive session_move :: "chan_id \<Rightarrow> socket_addr \<Rightarrow> stage \<Rightarrow> stage \<Rightarrow> command_queue \<Rightarrow>
    (socket_addr, peer_handle) hash_map \<Rightarrow> (socket_addr, peer_handle) hash_map \<Rightarrow> bool" for cid addr where
  stay: "session_move cid addr st st [] ps ps"
| fail: "session_move cid addr Before After [] ps ps"
| open_session: "session_move cid addr Before During [(cid, PeerConnected addr cid)] ps
    (hm_insert addr \<lparr>ph_tx = cid, ph_state = Established\<rparr> ps)"
| talk: "command_of addr cmd \<Longrightarrow> session_move cid addr During During [(cid, cmd)] ps ps"
| close_session: "session_move cid addr During After [(cid, PeerDisconnected addr)] ps (hm_remove addr ps)"

declare stay [simp, intro]

lemma server_step_move:
  assumes "server_step x (enqueue cid) cfg addr cid ev c = Some c'"
    and "\<And>data now. ev = SDataRead (Inr data) now \<Longrightarrow> data = []"
  shows "\<exists>new. sc_routing c' = sc_routing c @ new \<and>
    session_move cid addr (stage_of (HWait (sc_phase c))) (stage_of (HWait (sc_phase c'))) new (sc_peers c) (sc_peers c')"
proof (cases "sc_phase c")
  case SHello
  with assms show ?thesis
    by (auto simp: server_step_def server_hello_def intro: fail
        split: server_event.splits sum.splits option.splits prod.splits)
next
  case (SKeepalive n)
  with assms show ?thesis
    by (auto simp: server_step_def server_keepalive_def enqueue_def intro: fail open_session
        split: server_event.splits sum.splits prod.splits if_splits)
next
  case (SLoop n last_received round_start buf)
  with assms show ?thesis
    by (auto simp: server_step_def server_cleanup_def server_data_def server_batch_def enqueue_def intro: close_session
        split: server_event.splits sum.splits prod.splits if_splits)
next
  case (SDone result)
  with assms(1) show ?thesis by (simp add: server_step_def)
qed

text \<open>A step of a handler changes its own entry, the queue, the table of peers and its own channel.\<close>

definition handler_moves :: "chan_id \<Rightarrow> server \<Rightarrow> server \<Rightarrow> bool" where
  "handler_moves cid s s' \<longleftrightarrow>
     cid < length (sv_conns s) \<and> hd_phase (sv_conns s ! cid) \<noteq> HEnded \<and>
     (\<exists>h' new ch.
        s' = s\<lparr>sv_conns := (sv_conns s)[cid := h'], sv_queue := sv_queue s @ new, sv_peers := sv_peers s',
               sv_chans := (sv_chans s)(cid := ch)\<rparr> \<and>
        (if hd_phase h' = HEnded then ch = (sv_chans s cid)\<lparr>ch_queue := [], ch_open := False\<rparr>
         else ch_history ch = ch_history (sv_chans s cid) \<and> ch_open ch = ch_open (sv_chans s cid)) \<and>
        hd_addr h' = hd_addr (sv_conns s ! cid) \<and>
        session_move cid (hd_addr (sv_conns s ! cid)) (stage_of (hd_phase (sv_conns s ! cid))) (stage_of (hd_phase h'))
          new (sv_peers s) (sv_peers s'))"

lemma handler_movesE:
  assumes "handler_moves cid s s'"
  obtains h' new ch where "cid < length (sv_conns s)" and "sv_conns s' = (sv_conns s)[cid := h']"
    and "sv_queue s' = sv_queue s @ new" and "sv_chans s' = (sv_chans s)(cid := ch)"
    and "if hd_phase h' = HEnded then ch = (sv_chans s cid)\<lparr>ch_queue := [], ch_open := False\<rparr>
         else ch_history ch = ch_history (sv_chans s cid) \<and> ch_open ch = ch_open (sv_chans s cid)"
    and "hd_addr h' = hd_addr (sv_conns s ! cid)"
    and "session_move cid (hd_addr (sv_conns s ! cid)) (stage_of (hd_phase (sv_conns s ! cid))) (stage_of (hd_phase h'))
          new (sv_peers s) (sv_peers s')"
    and "sv_actor s' = sv_actor s" and "sv_accepting s' = sv_accepting s" and "sv_owner s' = sv_owner s"
    and "hd_phase (sv_conns s ! cid) \<noteq> HEnded"
proof -
  obtain h' new ch where cid: "cid < length (sv_conns s)" and live: "hd_phase (sv_conns s ! cid) \<noteq> HEnded"
    and s': "s' = s\<lparr>sv_conns := (sv_conns s)[cid := h'], sv_queue := sv_queue s @ new, sv_peers := sv_peers s',
               sv_chans := (sv_chans s)(cid := ch)\<rparr>"
    and rest: "if hd_phase h' = HEnded then ch = (sv_chans s cid)\<lparr>ch_queue := [], ch_open := False\<rparr>
         else ch_history ch = ch_history (sv_chans s cid) \<and> ch_open ch = ch_open (sv_chans s cid)"
      "hd_addr h' = hd_addr (sv_conns s ! cid)"
      "session_move cid (hd_addr (sv_conns s ! cid)) (stage_of (hd_phase (sv_conns s ! cid))) (stage_of (hd_phase h'))
          new (sv_peers s) (sv_peers s')"
    using assms unfolding handler_moves_def by blast
  show ?thesis by (rule that [OF cid _ _ _ rest _ _ _ live]) (subst s', simp)+
qed

lemma put_conn_fields [simp]:
  "sv_queue (put_conn cid h c s) = sc_routing c" "sv_peers (put_conn cid h c s) = sc_peers c"
  "sv_chans (put_conn cid h c s) = sv_chans s" "sv_actor (put_conn cid h c s) = sv_actor s"
  "sv_conns (put_conn cid h c s) = (sv_conns s)[cid := h\<lparr>hd_stream := sc_stream c, hd_phase := HWait (sc_phase c)\<rparr>]"
  by (simp_all add: put_conn_def set_conn_def)

lemma conn_view_fields [simp]:
  "sc_routing (conn_view s h ph) = sv_queue s" "sc_peers (conn_view s h ph) = sv_peers s"
  "sc_stream (conn_view s h ph) = hd_stream h" "sc_phase (conn_view s h ph) = ph"
  by (simp_all add: conn_view_def)

lemma take_batch_history [simp]: "prefix batch (ch_queue ch) \<Longrightarrow> ch_history (take_batch batch ch) = ch_history ch"
  by (auto simp: take_batch_def ch_history_def prefix_def)

lemma take_batch_open [simp]: "ch_open (take_batch batch ch) = ch_open ch"
  by (simp add: take_batch_def)

lemma put_conn_moves:
  assumes "cid < length (sv_conns s)" and "sv_conns s ! cid = h" and "hd_phase h \<noteq> HEnded"
    and "sc_routing c = sv_queue s @ new"
    and "session_move cid (hd_addr h) (stage_of (hd_phase h)) (stage_of (HWait (sc_phase c))) new (sv_peers s) (sc_peers c)"
    and "ch_history ch = ch_history (sv_chans s cid)" and "ch_open ch = ch_open (sv_chans s cid)"
  shows "handler_moves cid s ((put_conn cid h c s)\<lparr>sv_chans := (sv_chans s)(cid := ch)\<rparr>)"
  unfolding handler_moves_def
  by (intro conjI exI [of _ "h\<lparr>hd_stream := sc_stream c, hd_phase := HWait (sc_phase c)\<rparr>"] exI [of _ new] exI [of _ ch])
    (use assms in \<open>simp_all add: put_conn_def set_conn_def\<close>)

lemma set_conn_moves:
  assumes "cid < length (sv_conns s)" and "hd_addr h' = hd_addr (sv_conns s ! cid)"
    and "hd_phase h' \<noteq> HEnded" and "hd_phase (sv_conns s ! cid) \<noteq> HEnded"
    and "session_move cid (hd_addr h') (stage_of (hd_phase (sv_conns s ! cid))) (stage_of (hd_phase h'))
      new (sv_peers s) (sv_peers s)"
  shows "handler_moves cid s ((set_conn cid h' s)\<lparr>sv_queue := sv_queue s @ new\<rparr>)"
  unfolding handler_moves_def
  by (intro conjI exI [of _ h'] exI [of _ new] exI [of _ "sv_chans s cid"])
    (use assms in \<open>simp_all add: set_conn_def\<close>)

lemma set_conn_moves_quiet:
  assumes "cid < length (sv_conns s)" and "hd_addr h' = hd_addr (sv_conns s ! cid)"
    and "hd_phase h' \<noteq> HEnded" and "hd_phase (sv_conns s ! cid) \<noteq> HEnded"
    and "stage_of (hd_phase h') = stage_of (hd_phase (sv_conns s ! cid))"
  shows "handler_moves cid s (set_conn cid h' s)"
proof -
  have "handler_moves cid s ((set_conn cid h' s)\<lparr>sv_queue := sv_queue s @ []\<rparr>)"
    by (rule set_conn_moves) (use assms in simp_all)
  then show ?thesis by (simp add: set_conn_def)
qed

lemma conn_event_moves:
  assumes "conn_event x cid ev s = Some s'"
  shows "handler_moves cid s s'"
proof -
  define h where "h = sv_conns s ! cid"
  have cid: "cid < length (sv_conns s)" using assms by (simp add: conn_event_def split: if_splits)
  obtain ph where ph: "hd_phase h = HWait ph"
    using assms cid by (auto simp: conn_event_def h_def [symmetric] split: handler_phase.splits)
  show ?thesis
  proof (cases "\<exists>b data now. ev = SDataRead (Inr (b # data)) now")
    case True
    with assms cid ph show ?thesis
      by (auto simp: conn_event_def h_def [symmetric] Let_def split: server_phase.splits
          intro!: set_conn_moves_quiet)
  next
    case False
    let ?step = "server_step x (enqueue cid) (sv_config s) (hd_addr h) cid ev (conn_view s h ph)"
    obtain c where c: "?step = Some c"
      and s': "s' = put_conn cid h c s \<and> (\<forall>batch now. ev \<noteq> SBatch batch now) \<or>
        (\<exists>batch now. ev = SBatch batch now \<and> prefix batch (ch_queue (sv_chans s cid)) \<and>
          s' = (put_conn cid h c s)\<lparr>sv_chans := (sv_chans s)(cid := take_batch batch (sv_chans s cid))\<rparr>)"
      using assms cid ph False
      by (auto simp: conn_event_def h_def [symmetric] Let_def
          split: server_event.splits sum.splits list.splits if_splits)
    have nodata: "data = []" if "ev = SDataRead (Inr data) now" for data now
      using False that by (metis list.exhaust)
    have "\<exists>new. sc_routing c = sc_routing (conn_view s h ph) @ new \<and>
      session_move cid (hd_addr h) (stage_of (HWait (sc_phase (conn_view s h ph)))) (stage_of (HWait (sc_phase c)))
        new (sc_peers (conn_view s h ph)) (sc_peers c)"
      by (rule server_step_move [OF c]) (use nodata in blast)
    then obtain new where new: "sc_routing c = sv_queue s @ new"
      "session_move cid (hd_addr h) (stage_of (HWait ph)) (stage_of (HWait (sc_phase c))) new (sv_peers s) (sc_peers c)"
      by auto
    have move: "handler_moves cid s ((put_conn cid h c s)\<lparr>sv_chans := (sv_chans s)(cid := ch)\<rparr>)"
      if "ch_history ch = ch_history (sv_chans s cid)" "ch_open ch = ch_open (sv_chans s cid)" for ch
      by (rule put_conn_moves [OF cid _ _ new(1)]) (use new(2) that ph in \<open>simp_all add: h_def\<close>)
    from s' show ?thesis
    proof
      assume "s' = put_conn cid h c s \<and> (\<forall>batch now. ev \<noteq> SBatch batch now)"
      then have "s' = (put_conn cid h c s)\<lparr>sv_chans := (sv_chans s)(cid := sv_chans s cid)\<rparr>"
        by (simp add: put_conn_def set_conn_def)
      with move [of "sv_chans s cid"] show ?thesis by simp
    qed (auto intro: move)
  qed
qed

lemma handle_step_moves:
  assumes "handle_step x cid t s = Some s'"
  shows "handler_moves cid s s'"
proof -
  define h where "h = sv_conns s ! cid"
  have cid: "cid < length (sv_conns s)" using assms by (simp add: handle_step_def split: if_splits)
  show ?thesis
  proof (cases "hd_phase h")
    case (HHandle n now buf)
    show ?thesis
    proof (cases "buf = []")
      case True
      with assms cid HHandle show ?thesis
        by (auto simp: handle_step_def h_def [symmetric] intro!: set_conn_moves_quiet)
    next
      case False
      show ?thesis
      proof (cases "message_decode x buf")
        case (Inl e)
        have "handler_moves cid s ((put_conn cid h (server_cleanup (enqueue cid) (hd_addr h) (Inl e)
            (conn_view s h (SLoop n now t buf))) s)\<lparr>sv_chans := (sv_chans s)(cid := sv_chans s cid)\<rparr>)"
          by (rule put_conn_moves [OF cid, where new = "[(cid, PeerDisconnected (hd_addr h))]"])
            (use HHandle in \<open>simp_all add: h_def server_cleanup_def enqueue_def close_session\<close>)
        then have "handler_moves cid s (put_conn cid h (server_cleanup (enqueue cid) (hd_addr h) (Inl e)
            (conn_view s h (SLoop n now t buf))) s)"
          by (simp add: put_conn_def set_conn_def)
        with assms cid HHandle False Inl show ?thesis
          by (auto simp: handle_step_def h_def [symmetric] split: if_splits intro!: set_conn_moves_quiet)
      next
        case (Inr mk)
        obtain m k where mk: "mk = (m, k)" by (cases mk)
        have move: "handler_moves cid s ((set_conn cid h' s)\<lparr>sv_queue := sv_queue s @ new\<rparr>)"
          if "hd_addr h' = hd_addr h" "stage_of (hd_phase h') = During"
            "new = [] \<or> (\<exists>cmd. command_of (hd_addr h) cmd \<and> new = [(cid, cmd)])" for h' new
          by (rule set_conn_moves [OF cid])
            (use that HHandle in \<open>auto simp: h_def intro: talk\<close>)
        show ?thesis
          using assms cid HHandle False Inr mk move [where new = "[]"]
          by (cases m) (auto simp: handle_step_def h_def [symmetric] enqueue_def intro!: move
              split: prod.splits)
      qed
    qed
  next
    case (HSubscribe n now buf v)
    with assms cid show ?thesis
      by (auto simp: handle_step_def h_def [symmetric] split: option.splits intro!: set_conn_moves_quiet)
  qed (use assms cid in \<open>simp_all add: handle_step_def h_def [symmetric]\<close>)
qed

lemma handler_return_moves:
  assumes "handler_return cid s = Some s'"
  shows "handler_moves cid s s'"
proof -
  let ?ch = "(sv_chans s cid)\<lparr>ch_queue := [], ch_open := False\<rparr>"
  obtain result where "cid < length (sv_conns s)" "hd_phase (sv_conns s ! cid) = HWait (SDone result)"
    "s' = (set_conn cid ((sv_conns s ! cid)\<lparr>hd_phase := HEnded\<rparr>) s)\<lparr>sv_chans := (sv_chans s)(cid := ?ch)\<rparr>"
    using assms by (auto simp: handler_return_def Let_def split: if_splits handler_phase.splits server_phase.splits)
  then show ?thesis
    unfolding handler_moves_def
    by (intro conjI exI [of _ "(sv_conns s ! cid)\<lparr>hd_phase := HEnded\<rparr>"] exI [of _ "[]"] exI [of _ ?ch])
      (simp_all add: set_conn_def)
qed

section \<open>The routing side of a run\<close>

text \<open>A channel that the actor does not hold and nothing was ever sent on.\<close>

definition unused :: "chan_id \<Rightarrow> actor \<times> channels \<Rightarrow> bool" where
  "unused tx r \<longleftrightarrow> (\<forall>p. hm_get (a_peers (fst r)) p \<noteq> Some tx) \<and> ch_history (snd r tx) = []"

lemma unused_init: "unused tx sys_init"
  by (simp add: unused_def sys_init_def actor_new_def)

lemma cmd_unused:
  assumes sp: "sp_step cmd (S, chans) reply (S', chans')" and "c \<notin> ran (sp_peers S)" and "\<And>p. cmd \<noteq> PeerConnected p c"
  shows "chans' c = chans c \<and> c \<notin> ran (sp_peers S')"
proof
  show "chans' c = chans c"
    using sp by (cases cmd) (auto simp: Let_def dest: sp_delivered_other [OF _ assms(2)]
        sp_delivered_other [OF _ ran_sp_evict [OF assms(2)]])
  show "c \<notin> ran (sp_peers S')"
    using sp_step_peers [OF sp, of _ c] assms(2,3) by (auto simp: ran_def)
qed

lemma step_unused:
  assumes "sys_step r e r'" and "sys_inv r" and "unused tx r" and "\<And>p reply. e \<noteq> SysCmd (PeerConnected p tx) reply"
  shows "unused tx r'"
  using assms(1)
proof (cases rule: sys_step.cases)
  case (sys_cmd cmd reply)
  obtain a chans a' chans' where r: "r = (a, chans)" "r' = (a', chans')" by (cases r, cases r')
  have sp: "sp_step cmd (actor_abs a, chans) reply (actor_abs a', chans')"
    by (rule sys_cmd_spec) (use sys_cmd(3) assms(2) r in simp_all)
  have "tx \<notin> ran (sp_peers (actor_abs a))" using assms(3) r by (auto simp: unused_def actor_abs_def ran_def)
  moreover have "cmd \<noteq> PeerConnected p tx" for p using assms(4) sys_cmd(1) by auto
  ultimately show ?thesis using cmd_unused [OF sp] assms(3) r
    by (auto simp: unused_def actor_abs_def ran_def)
next
  case (sys_rehash a' a chans)
  moreover have "hm_get (a_peers a') = hm_get (a_peers a)"
    using sys_rehash(5) by (simp add: actor_abs_def)
  ultimately show ?thesis using assms(3) by (simp add: unused_def)
qed (use assms(3) in \<open>auto simp: unused_def ch_history_def split: if_splits\<close>)

lemma run_unused:
  "sys_run r es r' \<Longrightarrow> sys_inv r \<Longrightarrow> unused tx r \<Longrightarrow>
     \<forall>p reply. SysCmd (PeerConnected p tx) reply \<notin> set es \<Longrightarrow> unused tx r'"
  by (induction rule: sys_run.induct) (auto dest: step_unused sys_step_inv)

text \<open>The channels of the connections the actor has not heard of yet.\<close>

fun connects :: "command_queue \<Rightarrow> chan_id list" where
  "connects [] = []"
| "connects ((cid, PeerConnected p tx) # q) = tx # connects q"
| "connects (_ # q) = connects q"

lemma connects_append [simp]: "connects (q @ q') = connects q @ connects q'"
  by (induction q rule: connects.induct) simp_all

lemma connects_talk: "command_of addr cmd \<Longrightarrow> connects [(cid, cmd)] = []"
  by (cases cmd) simp_all

abbreviation routing :: "server \<Rightarrow> actor \<times> channels" where
  "routing s \<equiv> (sv_actor s, sv_chans s)"

abbreviation conn_stage :: "server \<Rightarrow> chan_id \<Rightarrow> stage" where
  "conn_stage s cid \<equiv> stage_of (hd_phase (sv_conns s ! cid))"

text \<open>A connection that has not told the actor of itself has an unused channel, and so have those to come.\<close>

definition unheard :: "server \<Rightarrow> chan_id \<Rightarrow> bool" where
  "unheard s tx \<longleftrightarrow> tx \<in> set (connects (sv_queue s)) \<or> length (sv_conns s) \<le> tx \<or> conn_stage s tx = Before"

definition chans_inv :: "server \<Rightarrow> bool" where
  "chans_inv s \<longleftrightarrow> sys_inv (routing s) \<and> distinct (connects (sv_queue s)) \<and>
     (\<forall>tx \<in> set (connects (sv_queue s)). tx < length (sv_conns s) \<and> conn_stage s tx \<noteq> Before) \<and>
     (\<forall>tx. unheard s tx \<longrightarrow> unused tx (routing s))"

lemma chans_inv_init: "chans_inv (server_init config)"
  using sys_init_inv unused_init by (simp add: chans_inv_def server_init_def sys_init_def)

lemma take_batch_run:
  "prefix batch (ch_queue (chans c)) \<Longrightarrow>
     sys_run (a, chans) (map (SysTake c) batch) (a, chans(c := take_batch batch (chans c)))"
proof (induction batch arbitrary: chans)
  case Nil
  then show ?case by (simp add: take_batch_def)
next
  case (Cons m batch)
  then obtain q where q: "ch_queue (chans c) = m # q" "prefix batch q" by (auto simp: prefix_def)
  let ?chans = "chans(c := (chans c)\<lparr>ch_queue := q, ch_taken := ch_taken (chans c) @ [m]\<rparr>)"
  have "sys_run (a, ?chans) (map (SysTake c) batch) (a, ?chans(c := take_batch batch (?chans c)))"
    by (rule Cons.IH) (simp add: q)
  moreover have "?chans(c := take_batch batch (?chans c)) = chans(c := take_batch (m # batch) (chans c))"
    using q by (simp add: take_batch_def)
  ultimately have "sys_run (a, ?chans) (map (SysTake c) batch) (a, chans(c := take_batch (m # batch) (chans c)))"
    by simp
  from run_cons [OF sys_take [where chans = chans, OF q(1)] this] show ?case by (simp del: fun_upd_apply)
qed

lemma sys_run_append: "sys_run r es r' \<Longrightarrow> sys_run r' es' r'' \<Longrightarrow> sys_run r (es @ es') r''"
  by (induction rule: sys_run.induct) (auto intro: run_cons)

lemma sys_run_single: "sys_step r e r' \<Longrightarrow> sys_run r [e] r'"
  by (auto intro: run_cons run_nil)

text \<open>Steps of a handler other than a batch and its return leave the routing side alone.\<close>

lemma conn_event_chans:
  assumes "conn_event x cid ev s = Some s'"
  shows "sv_actor s' = sv_actor s \<and>
    (case ev of
       SBatch batch now \<Rightarrow> prefix batch (ch_queue (sv_chans s cid)) \<and>
         sv_chans s' = (sv_chans s)(cid := take_batch batch (sv_chans s cid))
     | _ \<Rightarrow> sv_chans s' = sv_chans s)"
  using assms
  by (auto simp: conn_event_def Let_def set_conn_def split: if_splits handler_phase.splits server_event.splits
      sum.splits list.splits server_phase.splits)

lemma handle_step_chans: "handle_step x cid t s = Some s' \<Longrightarrow> sv_actor s' = sv_actor s \<and> sv_chans s' = sv_chans s"
  by (auto simp: handle_step_def Let_def set_conn_def split: if_splits handler_phase.splits sum.splits prod.splits
      message.splits option.splits)

lemma actor_step_cases:
  assumes "actor_step s = Some s'"
  obtains cid cmd q reply a chans hs where "sv_queue s = (cid, cmd) # q"
    and "actor_handle cmd (routing s) = (reply, a, chans)"
    and "s' = s\<lparr>sv_queue := q, sv_actor := a, sv_chans := chans, sv_conns := hs\<rparr>"
    and "hs = (case reply of RoutesReply rs \<Rightarrow> (sv_conns s)[cid := (sv_conns s ! cid)\<lparr>hd_reply := Some reply\<rparr>]
               | _ \<Rightarrow> sv_conns s)"
  using assms by (auto simp: actor_step_def Let_def set_conn_def split: list.splits prod.splits routing_reply.splits)

lemma sv_step_refines:
  assumes step: "sv_step x s e s'" and inv: "chans_inv s"
  shows "sys_run (routing s) (routing_events s e) (routing s')"
  using step
proof (cases rule: sv_step.cases)
  case (sv_conn cid ev)
  with conn_event_chans [of x cid ev s s'] take_batch_run [of _ "sv_chans s" cid "sv_actor s"]
  show ?thesis by (cases ev) (auto intro: run_nil)
next
  case (sv_handle cid t)
  with handle_step_chans [of x cid t s s'] show ?thesis by (auto intro: run_nil)
next
  case (sv_return cid)
  then have "sv_actor s' = sv_actor s"
    "sv_chans s' = (sv_chans s)(cid := (sv_chans s cid)\<lparr>ch_queue := [], ch_open := False\<rparr>)"
    by (auto simp: handler_return_def Let_def set_conn_def split: if_splits handler_phase.splits server_phase.splits)
  with sv_return show ?thesis by (auto intro: sys_run_single sys_close)
next
  case sv_actor
  obtain cid cmd q reply a chans hs where s: "sv_queue s = (cid, cmd) # q"
    "actor_handle cmd (routing s) = (reply, a, chans)"
    "s' = s\<lparr>sv_queue := q, sv_actor := a, sv_chans := chans, sv_conns := hs\<rparr>"
    by (rule actor_step_cases [OF sv_actor(2)])
  have "fresh_channel cmd (routing s)"
    using inv s(1) by (cases cmd) (auto simp: chans_inv_def unheard_def unused_def)
  from sys_run_single [OF sys_cmd [OF this s(2)]] s sv_actor(1) show ?thesis by simp
next
  case (sv_rehash a)
  then show ?thesis by (auto intro: sys_run_single sys_step.sys_rehash)
qed (auto simp: accept_conn_def server_shutdown_def intro: run_nil)

lemma moves_unheard:
  assumes "handler_moves cid s s'" and "unheard s' tx"
  shows "unheard s tx"
proof -
  let ?h = "sv_conns s ! cid"
  obtain h' new where cid: "cid < length (sv_conns s)" and conns: "sv_conns s' = (sv_conns s)[cid := h']"
    and queue: "sv_queue s' = sv_queue s @ new"
    and move: "session_move cid (hd_addr ?h) (stage_of (hd_phase ?h)) (stage_of (hd_phase h')) new (sv_peers s) (sv_peers s')"
    by (rule handler_movesE [OF assms(1)])
  have new: "tx \<in> set (connects new) \<Longrightarrow> tx = cid \<and> conn_stage s cid = Before"
    "stage_of (hd_phase h') = Before \<Longrightarrow> conn_stage s cid = Before"
    using move by (cases rule: session_move.cases; auto simp: connects_talk)+
  show ?thesis
  proof (cases "tx = cid")
    case True
    with new assms(2) cid show ?thesis by (auto simp: unheard_def conns queue)
  next
    case False
    with new assms(2) show ?thesis by (auto simp: unheard_def conns queue)
  qed
qed

text \<open>A connection the actor was told of stays so.\<close>

lemma actor_step_unheard:
  assumes a: "actor_step s = Some s'" and "unheard s' tx"
  shows "unheard s tx"
proof -
  obtain cid cmd q reply a chans hs where s: "sv_queue s = (cid, cmd) # q"
    "s' = s\<lparr>sv_queue := q, sv_actor := a, sv_chans := chans, sv_conns := hs\<rparr>"
    and hs: "hs = (case reply of RoutesReply rs \<Rightarrow> (sv_conns s)[cid := (sv_conns s ! cid)\<lparr>hd_reply := Some reply\<rparr>]
               | _ \<Rightarrow> sv_conns s)"
    by (rule actor_step_cases [OF a])
  have len: "length hs = length (sv_conns s)" by (simp add: hs split: routing_reply.split)
  have stages: "hd_phase (hs ! tx) = hd_phase (sv_conns s ! tx)"
    by (cases "cid < length (sv_conns s)"; cases "tx = cid")
      (auto simp: hs list_update_beyond split: routing_reply.split)
  have "set (connects q) \<subseteq> set (connects (sv_queue s))" by (cases cmd) (auto simp: s(1))
  with assms(2) show ?thesis by (auto simp: unheard_def s(2) len stages)
qed

lemma sv_step_unheard:
  assumes step: "sv_step x s e s'" and un: "unheard s' tx"
  shows "unheard s tx"
  using step
proof (cases rule: sv_step.cases)
  case (sv_accept addr budget)
  with un show ?thesis
    by (auto simp: unheard_def accept_conn_def new_handler_def nth_append split: if_splits)
next
  case (sv_conn cid ev)
  from moves_unheard [OF conn_event_moves [OF sv_conn(2)] un] show ?thesis .
next
  case (sv_handle cid t)
  from moves_unheard [OF handle_step_moves [OF sv_handle(2)] un] show ?thesis .
next
  case (sv_return cid)
  from moves_unheard [OF handler_return_moves [OF sv_return(2)] un] show ?thesis .
next
  case sv_actor
  from actor_step_unheard [OF sv_actor(2) un] show ?thesis .
next
  case sv_shutdown
  with un show ?thesis by (cases "tx < length (sv_conns s)") (auto simp: unheard_def server_shutdown_def)
qed (use un in \<open>simp_all add: unheard_def\<close>)

lemma moves_chans_inv:
  assumes m: "handler_moves cid s s'" and inv: "chans_inv s"
    and "sys_inv (routing s')" and "\<And>tx. unused tx (routing s) \<Longrightarrow> unused tx (routing s')"
  shows "chans_inv s'"
proof -
  let ?h = "sv_conns s ! cid"
  obtain h' new where cid: "cid < length (sv_conns s)" and conns: "sv_conns s' = (sv_conns s)[cid := h']"
    and queue: "sv_queue s' = sv_queue s @ new"
    and move: "session_move cid (hd_addr ?h) (stage_of (hd_phase ?h)) (stage_of (hd_phase h')) new (sv_peers s) (sv_peers s')"
    by (rule handler_movesE [OF m])
  have new: "connects new = [] \<or>
      connects new = [cid] \<and> conn_stage s cid = Before \<and> stage_of (hd_phase h') \<noteq> Before"
    "stage_of (hd_phase h') = Before \<Longrightarrow> conn_stage s cid = Before"
    using move by (cases rule: session_move.cases; auto simp: connects_talk)+
  have heard: "\<forall>tx \<in> set (connects (sv_queue s)). tx < length (sv_conns s) \<and> conn_stage s tx \<noteq> Before"
    "distinct (connects (sv_queue s))"
    using inv by (simp_all add: chans_inv_def)
  have "tx < length (sv_conns s') \<and> conn_stage s' tx \<noteq> Before" if "tx \<in> set (connects (sv_queue s'))" for tx
    using that heard(1) new cid by (cases "tx = cid") (auto simp: queue conns)
  moreover have "distinct (connects (sv_queue s'))" using heard new(1) by (auto simp: queue)
  moreover have "unused tx (routing s')" if "unheard s' tx" for tx
    using moves_unheard [OF m that] inv assms(4) by (simp add: chans_inv_def)
  ultimately show ?thesis using assms(3) by (simp add: chans_inv_def)
qed

lemma sv_step_sys_inv: "sv_step x s e s' \<Longrightarrow> chans_inv s \<Longrightarrow> sys_inv (routing s')"
  using sv_step_refines [of x s e s'] sys_run_inv by (auto simp: chans_inv_def)

lemma routing_events_quiet:
  assumes "\<And>cmd reply. SysCmd cmd reply \<notin> set (routing_events s e)" and "sv_step x s e s'" and "chans_inv s"
    and "unused tx (routing s)"
  shows "unused tx (routing s')"
  using run_unused [OF sv_step_refines [OF assms(2,3)] _ assms(4)] assms(1,3) by (simp add: chans_inv_def)

lemma actor_step_chans_inv:
  assumes a: "actor_step s = Some s'" and inv: "chans_inv s"
  shows "chans_inv s'"
proof -
  obtain cid cmd q reply a chans hs where s: "sv_queue s = (cid, cmd) # q"
    "actor_handle cmd (routing s) = (reply, a, chans)"
    "s' = s\<lparr>sv_queue := q, sv_actor := a, sv_chans := chans, sv_conns := hs\<rparr>"
    and hs: "hs = (case reply of RoutesReply rs \<Rightarrow> (sv_conns s)[cid := (sv_conns s ! cid)\<lparr>hd_reply := Some reply\<rparr>]
               | _ \<Rightarrow> sv_conns s)"
    by (rule actor_step_cases [OF a])
  note step = sv_actor [OF a]
  have len: "length hs = length (sv_conns s)" by (simp add: hs split: routing_reply.split)
  have stages: "hd_phase (hs ! tx) = hd_phase (sv_conns s ! tx)" for tx
    by (cases "cid < length (sv_conns s)"; cases "tx = cid")
      (auto simp: hs list_update_beyond split: routing_reply.split)
  have q: "connects (sv_queue s) = (case cmd of PeerConnected p tx \<Rightarrow> tx # connects q | _ \<Rightarrow> connects q)"
    by (simp add: s(1) split: routing_command.split)
  have heard: "distinct (connects (sv_queue s))"
    "\<forall>tx \<in> set (connects (sv_queue s)). tx < length (sv_conns s) \<and> conn_stage s tx \<noteq> Before"
    using inv by (simp_all add: chans_inv_def)
  have sub: "set (connects q) \<subseteq> set (connects (sv_queue s))" "distinct (connects q)"
    using heard(1) by (auto simp: q split: routing_command.splits)
  have unheard': "unheard s' tx \<longleftrightarrow> tx \<in> set (connects q) \<or> length (sv_conns s) \<le> tx \<or> conn_stage s tx = Before" for tx
    by (simp add: unheard_def s(3) len stages)
  have "unheard s' tx \<Longrightarrow> unheard s tx" for tx by (rule actor_step_unheard [OF a])
  moreover have "tx \<noteq> tx'" if "unheard s' tx" "cmd = PeerConnected p tx'" for tx p tx'
    using that heard by (auto simp: unheard' q)
  ultimately have "unused tx (routing s')" if "unheard s' tx" for tx
    by (intro run_unused [OF sv_step_refines [OF step inv]])
      (use inv that in \<open>auto simp: chans_inv_def s(1)\<close>)
  moreover have "\<forall>tx \<in> set (connects q). tx < length hs \<and> stage_of (hd_phase (hs ! tx)) \<noteq> Before"
    using heard(2) sub(1) by (auto simp: len stages)
  ultimately show ?thesis
    using sub(2) sv_step_sys_inv [OF step inv] by (simp add: chans_inv_def s(3))
qed

lemma sv_step_chans_inv:
  assumes step: "sv_step x s e s'" and inv: "chans_inv s"
  shows "chans_inv s'"
  using step
proof (cases rule: sv_step.cases)
  case (sv_accept addr budget)
  have "unheard s' tx \<Longrightarrow> unheard s tx" for tx by (rule sv_step_unheard [OF step])
  moreover have "tx < length (sv_conns s') \<and> conn_stage s' tx \<noteq> Before" if "tx \<in> set (connects (sv_queue s))" for tx
    using inv that by (auto simp: sv_accept accept_conn_def chans_inv_def nth_append)
  ultimately show ?thesis
    using inv by (auto simp: chans_inv_def sv_accept accept_conn_def)
next
  case (sv_conn cid ev)
  have "unused tx (routing s) \<Longrightarrow> unused tx (routing s')" for tx
    by (rule routing_events_quiet [OF _ step inv]) (use sv_conn in \<open>cases ev; auto\<close>)
  with moves_chans_inv [OF conn_event_moves [OF sv_conn(2)] inv sv_step_sys_inv [OF step inv]] show ?thesis .
next
  case (sv_handle cid t)
  have "unused tx (routing s) \<Longrightarrow> unused tx (routing s')" for tx
    by (rule routing_events_quiet [OF _ step inv]) (use sv_handle in auto)
  with moves_chans_inv [OF handle_step_moves [OF sv_handle(2)] inv sv_step_sys_inv [OF step inv]] show ?thesis .
next
  case (sv_return cid)
  have "unused tx (routing s) \<Longrightarrow> unused tx (routing s')" for tx
    by (rule routing_events_quiet [OF _ step inv]) (use sv_return in auto)
  with moves_chans_inv [OF handler_return_moves [OF sv_return(2)] inv sv_step_sys_inv [OF step inv]] show ?thesis .
next
  case sv_actor
  from actor_step_chans_inv [OF sv_actor(2) inv] show ?thesis .
next
  case (sv_rehash a)
  have "unused tx (routing s) \<Longrightarrow> unused tx (routing s')" for tx
    by (rule routing_events_quiet [OF _ step inv]) (use sv_rehash in auto)
  with inv sv_step_sys_inv [OF step inv] show ?thesis by (simp add: sv_rehash chans_inv_def unheard_def)
next
  case sv_shutdown
  have len: "length (sv_conns s') = length (sv_conns s)" "sv_queue s' = sv_queue s"
    and stages: "tx < length (sv_conns s) \<Longrightarrow> conn_stage s' tx = conn_stage s tx" for tx
    by (simp_all add: sv_shutdown server_shutdown_def)
  have "unheard s' tx \<Longrightarrow> unheard s tx" for tx by (rule sv_step_unheard [OF step])
  with inv show ?thesis
    by (auto simp: chans_inv_def len stages) (simp_all add: sv_shutdown server_shutdown_def)
qed (use inv in \<open>simp_all add: chans_inv_def unheard_def\<close>)

end
