(* ===== verification/Server_Sessions.thy ===== *)
theory Server_Sessions
  imports Server_Runs
begin

text \<open>
  The sessions of all connections with the actor, seen through the command queue: who the
  actor may know of now, what the queued commands will do to that, and who is connected.
\<close>

section \<open>What the queue will do\<close>

text \<open>The state of the actor speaks of the peers in \<open>A\<close> only.\<close>

definition within :: "socket_addr set \<Rightarrow> actor_spec \<Rightarrow> bool" where
  "within A S \<longleftrightarrow> (\<forall>k p. sp_owners S k = Some p \<longrightarrow> p \<in> A) \<and> (\<forall>p v. (p, v) \<in> sp_subs S \<longrightarrow> p \<in> A) \<and>
     (\<forall>p c. sp_peers S p = Some c \<longrightarrow> p \<in> A)"

text \<open>A command in a session of its peer, and the peers with an open session after it.\<close>

fun in_session :: "socket_addr set \<Rightarrow> routing_command \<Rightarrow> bool" where
  "in_session A (PeerConnected p tx) \<longleftrightarrow> p \<notin> A"
| "in_session A (PeerDisconnected p) \<longleftrightarrow> p \<in> A"
| "in_session A (CmdSubscribe p v) \<longleftrightarrow> p \<in> A"
| "in_session A (CmdUnsubscribe p v) \<longleftrightarrow> p \<in> A"
| "in_session A (CmdUpdate p act v d h) \<longleftrightarrow> p \<in> A"
| "in_session A GetStats \<longleftrightarrow> True"

fun after_command :: "routing_command \<Rightarrow> socket_addr set \<Rightarrow> socket_addr set" where
  "after_command (PeerConnected p tx) A = insert p A"
| "after_command (PeerDisconnected p) A = A - {p}"
| "after_command _ A = A"

fun queue_ok :: "socket_addr set \<Rightarrow> command_queue \<Rightarrow> bool" where
  "queue_ok A [] \<longleftrightarrow> True"
| "queue_ok A ((cid, cmd) # q) \<longleftrightarrow> in_session A cmd \<and> queue_ok (after_command cmd A) q"

fun queue_after :: "socket_addr set \<Rightarrow> command_queue \<Rightarrow> socket_addr set" where
  "queue_after A [] = A"
| "queue_after A ((cid, cmd) # q) = queue_after (after_command cmd A) q"

lemma queue_append [simp]:
  "queue_after A (q @ q') = queue_after (queue_after A q) q'"
  "queue_ok A (q @ q') \<longleftrightarrow> queue_ok A q \<and> queue_ok (queue_after A q) q'"
  by (induction q arbitrary: A rule: queue_after.induct) auto

lemma talk_in_session:
  assumes "command_of addr cmd" and "addr \<in> A"
  shows "in_session A cmd" and "after_command cmd A = A"
  using assms by (cases cmd; simp)+

lemma within_evict: "within A S \<Longrightarrow> within A (sp_evict P S)"
  by (auto simp: within_def split: if_splits)

lemma within_step:
  assumes sp: "sp_step cmd (S, chans) reply (S', chans')" and "within A S" and "in_session A cmd"
  shows "within (after_command cmd A) S'"
proof (cases cmd)
  case (PeerDisconnected p)
  then obtain ks where ks: "set ks = {k. sp_owners S k = Some p}"
    and S': "S' = sp_evict (sp_slow (sp_withdraw_msgs ks (sp_evict {p} S)) (sp_evict {p} S) chans)
         ((sp_evict {p} S)\<lparr>sp_owners := sp_disown (set ks) (sp_owners S)\<rparr>)"
    using sp by (auto simp: Let_def)
  have "within (A - {p}) ((sp_evict {p} S)\<lparr>sp_owners := sp_disown (set ks) (sp_owners S)\<rparr>)"
    using assms(2) by (auto simp: within_def sp_disown_def ks split: if_splits)
  then show ?thesis using PeerDisconnected S' by (simp add: within_evict)
next
  case (CmdUpdate p act v d h)
  have "within A (S\<lparr>sp_owners := sp_owned (sp_owners S) act (v, d, h) p\<rparr>)"
    using assms(2,3) CmdUpdate by (cases act) (auto simp: within_def sp_owned_def)
  from within_evict [OF this] sp CmdUpdate show ?thesis by (simp add: Let_def)
qed (use assms in \<open>auto simp: within_def\<close>)


lemma queue_after_gone:
  "p \<in> A \<Longrightarrow> p \<notin> queue_after A q \<Longrightarrow> \<exists>cid. (cid, PeerDisconnected p) \<in> set q"
proof (induction A q rule: queue_after.induct)
  case (1 A)
  then show ?case by simp
next
  case (2 A cid cmd q)
  show ?case
  proof (cases "p \<in> after_command cmd A")
    case True
    with 2 show ?thesis by auto
  next
    case False
    with 2(2) show ?thesis by (cases cmd) auto
  qed
qed

section \<open>Who is connected\<close>

text \<open>The handlers in the middle of a session.\<close>

definition serving :: "server \<Rightarrow> chan_id \<Rightarrow> socket_addr \<Rightarrow> bool" where
  "serving s cid p \<longleftrightarrow> cid < length (sv_conns s) \<and> conn_stage s cid = During \<and> hd_addr (sv_conns s ! cid) = p"

definition registered :: "server \<Rightarrow> socket_addr set" where
  "registered s = {p. \<exists>cid. serving s cid p}"

definition addrs_distinct :: "server \<Rightarrow> bool" where
  "addrs_distinct s \<longleftrightarrow>
     (\<forall>i < length (sv_conns s). \<forall>j < length (sv_conns s).
        hd_addr (sv_conns s ! i) = hd_addr (sv_conns s ! j) \<longrightarrow>
        hd_phase (sv_conns s ! i) \<noteq> HEnded \<longrightarrow> hd_phase (sv_conns s ! j) \<noteq> HEnded \<longrightarrow> i = j)"

lemma addrs_distinctD:
  "addrs_distinct s \<Longrightarrow> i < length (sv_conns s) \<Longrightarrow> j < length (sv_conns s) \<Longrightarrow>
     hd_addr (sv_conns s ! i) = hd_addr (sv_conns s ! j) \<Longrightarrow>
     hd_phase (sv_conns s ! i) \<noteq> HEnded \<Longrightarrow> hd_phase (sv_conns s ! j) \<noteq> HEnded \<Longrightarrow> i = j"
  unfolding addrs_distinct_def by blast

lemma serving_live: "serving s cid p \<Longrightarrow> hd_phase (sv_conns s ! cid) \<noteq> HEnded"
  by (auto simp: serving_def)

text \<open>
  The table of peers lists the connections in session, and the commands in the queue take what
  the actor knows to exactly these.
\<close>

definition peers_listed :: "server \<Rightarrow> bool" where
  "peers_listed s \<longleftrightarrow> hm_wf (sv_peers s) \<and>
     (\<forall>p ph. hm_get (sv_peers s) p = Some ph \<longleftrightarrow>
        (\<exists>cid. serving s cid p \<and> ph = \<lparr>ph_tx = cid, ph_state = Established\<rparr>))"

definition sessions_inv :: "server \<Rightarrow> bool" where
  "sessions_inv s \<longleftrightarrow> addrs_distinct s \<and> peers_listed s \<and>
     (\<exists>A. within A (actor_abs (sv_actor s)) \<and> queue_ok A (sv_queue s) \<and> queue_after A (sv_queue s) = registered s)"

lemma sessions_inv_init: "sessions_inv (server_init config)"
  by (auto simp: sessions_inv_def addrs_distinct_def peers_listed_def server_init_def registered_def serving_def
      within_def actor_abs_def actor_new_def subscribed_def hm_or_default_def hm_get_def intro!: exI [of _ "{}"])

lemma moves_serving:
  assumes "handler_moves cid s s'" and "tx \<noteq> cid"
  shows "serving s' tx p \<longleftrightarrow> serving s tx p"
  by (rule handler_movesE [OF assms(1)]) (use assms(2) in \<open>simp add: serving_def\<close>)

lemma moves_addrs_distinct:
  assumes m: "handler_moves cid s s'" and d: "addrs_distinct s"
  shows "addrs_distinct s'"
proof -
  obtain h' where cid: "cid < length (sv_conns s)" and conns: "sv_conns s' = (sv_conns s)[cid := h']"
    and addr: "hd_addr h' = hd_addr (sv_conns s ! cid)" and live: "hd_phase (sv_conns s ! cid) \<noteq> HEnded"
    by (rule handler_movesE [OF m])
  have len: "length (sv_conns s') = length (sv_conns s)" by (simp add: conns)
  have same: "hd_addr (sv_conns s' ! i) = hd_addr (sv_conns s ! i)"
    "hd_phase (sv_conns s' ! i) \<noteq> HEnded \<Longrightarrow> hd_phase (sv_conns s ! i) \<noteq> HEnded" if "i < length (sv_conns s)" for i
    using that addr live cid by (cases "i = cid"; simp add: conns)+
  show ?thesis
    unfolding addrs_distinct_def len
  proof (intro allI impI)
    fix i j
    assume "i < length (sv_conns s)" "j < length (sv_conns s)" "hd_addr (sv_conns s' ! i) = hd_addr (sv_conns s' ! j)"
      "hd_phase (sv_conns s' ! i) \<noteq> HEnded" "hd_phase (sv_conns s' ! j) \<noteq> HEnded"
    then show "i = j" by (intro addrs_distinctD [OF d]) (simp_all add: same)
  qed
qed

lemma moves_sessions_inv:
  assumes m: "handler_moves cid s s'" and inv: "sessions_inv s"
  shows "sessions_inv s'"
proof -
  let ?h = "sv_conns s ! cid" and ?p = "hd_addr (sv_conns s ! cid)"
  obtain h' new where cid: "cid < length (sv_conns s)" and conns: "sv_conns s' = (sv_conns s)[cid := h']"
    and queue: "sv_queue s' = sv_queue s @ new" and addr: "hd_addr h' = ?p"
    and move: "session_move cid ?p (stage_of (hd_phase ?h)) (stage_of (hd_phase h')) new (sv_peers s) (sv_peers s')"
    and actor: "sv_actor s' = sv_actor s" and live: "hd_phase ?h \<noteq> HEnded"
    by (rule handler_movesE [OF m])
  have distinct: "addrs_distinct s" and listed: "peers_listed s" using inv by (simp_all add: sessions_inv_def)
  obtain A where A: "within A (actor_abs (sv_actor s))" "queue_ok A (sv_queue s)"
    "queue_after A (sv_queue s) = registered s"
    using inv by (auto simp: sessions_inv_def)
  note others = moves_serving [OF m]
  have mine: "serving s cid p \<longleftrightarrow> stage_of (hd_phase ?h) = During \<and> p = ?p"
    "serving s' cid p \<longleftrightarrow> stage_of (hd_phase h') = During \<and> p = ?p" for p
    using cid addr by (auto simp: serving_def conns)
  have alone: "tx = cid" if "serving s tx ?p" for tx
    using addrs_distinctD [OF distinct _ cid _ serving_live [OF that] live] that by (simp add: serving_def)
  have before: "serving s tx ?p \<longleftrightarrow> tx = cid \<and> stage_of (hd_phase ?h) = During" for tx
    using mine(1) alone by blast
  have after: "serving s' tx p \<longleftrightarrow>
      (if p = ?p then tx = cid \<and> stage_of (hd_phase h') = During else serving s tx p)" for tx p
  proof (cases "tx = cid")
    case True
    then show ?thesis using mine by auto
  next
    case False
    then show ?thesis using others [OF False, of p] before by auto
  qed
  have here: "?p \<in> registered s \<longleftrightarrow> stage_of (hd_phase ?h) = During"
    by (simp add: registered_def before)
  have reg: "registered s' = (if stage_of (hd_phase h') = During then insert ?p (registered s) else registered s - {?p})"
    by (auto simp: registered_def after split: if_splits)
  have "queue_ok (registered s) new \<and> queue_after (registered s) new = registered s'"
    using move here reg by (cases rule: session_move.cases) (auto dest: talk_in_session)
  then have "queue_ok A (sv_queue s') \<and> queue_after A (sv_queue s') = registered s'"
    by (simp add: queue A)
  moreover have "peers_listed s'"
  proof -
    have wf: "hm_wf (sv_peers s)" using listed by (simp add: peers_listed_def)
    have get: "hm_get (sv_peers s) p = Some ph \<longleftrightarrow>
        (\<exists>tx. serving s tx p \<and> ph = \<lparr>ph_tx = tx, ph_state = Established\<rparr>)" for p ph
      using listed by (simp add: peers_listed_def)
    have get_mine: "hm_get (sv_peers s) ?p = (if stage_of (hd_phase ?h) = During then
        Some \<lparr>ph_tx = cid, ph_state = Established\<rparr> else None)"
      using get [of ?p] by (cases "hm_get (sv_peers s) ?p") (auto simp: before)
    have wf': "hm_wf (sv_peers s')" using move wf by (cases rule: session_move.cases) simp_all
    have get': "hm_get (sv_peers s') p = (if p = ?p then
        if stage_of (hd_phase h') = During then Some \<lparr>ph_tx = cid, ph_state = Established\<rparr> else None
        else hm_get (sv_peers s) p)" for p
      using move wf get_mine by (cases rule: session_move.cases) simp_all
    have "hm_get (sv_peers s') p = Some ph \<longleftrightarrow>
        (\<exists>tx. serving s' tx p \<and> ph = \<lparr>ph_tx = tx, ph_state = Established\<rparr>)" for p ph
      unfolding get' after using get [of p ph] by auto
    with wf' show ?thesis unfolding peers_listed_def by blast
  qed
  ultimately show ?thesis
    using moves_addrs_distinct [OF m distinct] A(1) actor by (auto simp: sessions_inv_def)
qed

text \<open>Steps that change neither the phase nor the address of a handler.\<close>

definition same_handlers :: "server \<Rightarrow> server \<Rightarrow> bool" where
  "same_handlers s s' \<longleftrightarrow> length (sv_conns s') = length (sv_conns s) \<and> sv_peers s' = sv_peers s \<and>
     (\<forall>cid < length (sv_conns s). hd_phase (sv_conns s' ! cid) = hd_phase (sv_conns s ! cid) \<and>
        hd_addr (sv_conns s' ! cid) = hd_addr (sv_conns s ! cid))"

lemma same_handlers_serving: "same_handlers s s' \<Longrightarrow> serving s' cid p \<longleftrightarrow> serving s cid p"
  by (auto simp: same_handlers_def serving_def)

lemma same_handlers_inv:
  assumes same: "same_handlers s s'" and "addrs_distinct s" and "peers_listed s"
  shows "addrs_distinct s'" and "peers_listed s'" and "registered s' = registered s"
proof -
  show "peers_listed s'" using same assms(3) same_handlers_serving [OF same]
    by (simp add: peers_listed_def same_handlers_def)
  show "registered s' = registered s" by (simp add: registered_def same_handlers_serving [OF same])
  show "addrs_distinct s'"
    unfolding addrs_distinct_def
  proof (intro allI impI)
    fix i j
    assume "i < length (sv_conns s')" "j < length (sv_conns s')" "hd_addr (sv_conns s' ! i) = hd_addr (sv_conns s' ! j)"
      "hd_phase (sv_conns s' ! i) \<noteq> HEnded" "hd_phase (sv_conns s' ! j) \<noteq> HEnded"
    then show "i = j"
      by (intro addrs_distinctD [OF assms(2)]) (use same in \<open>simp_all add: same_handlers_def\<close>)
  qed
qed

lemma actor_step_same:
  assumes "actor_step s = Some s'"
  shows "same_handlers s s'"
proof -
  obtain cid cmd q reply a chans hs where s': "s' = s\<lparr>sv_queue := q, sv_actor := a, sv_chans := chans, sv_conns := hs\<rparr>"
    and hs: "hs = (case reply of RoutesReply rs \<Rightarrow> (sv_conns s)[cid := (sv_conns s ! cid)\<lparr>hd_reply := Some reply\<rparr>]
               | _ \<Rightarrow> sv_conns s)"
    by (rule actor_step_cases [OF assms])
  have "length hs = length (sv_conns s) \<and> (\<forall>tx < length (sv_conns s).
      hd_phase (hs ! tx) = hd_phase (sv_conns s ! tx) \<and> hd_addr (hs ! tx) = hd_addr (sv_conns s ! tx))"
    by (cases reply; cases "cid < length (sv_conns s)") (auto simp: hs nth_list_update list_update_beyond)
  then show ?thesis by (simp add: same_handlers_def s')
qed

lemma actor_step_sessions_inv:
  assumes a: "actor_step s = Some s'" and chans: "chans_inv s" and inv: "sessions_inv s"
  shows "sessions_inv s'"
proof -
  obtain cid cmd q reply a chans hs where s: "sv_queue s = (cid, cmd) # q"
    "actor_handle cmd (routing s) = (reply, a, chans)"
    "s' = s\<lparr>sv_queue := q, sv_actor := a, sv_chans := chans, sv_conns := hs\<rparr>"
    by (rule actor_step_cases [OF a])
  obtain A where A: "within A (actor_abs (sv_actor s))" "queue_ok A (sv_queue s)"
    "queue_after A (sv_queue s) = registered s"
    using inv by (auto simp: sessions_inv_def)
  have "sys_inv (routing s)" using chans by (simp add: chans_inv_def)
  from sys_cmd_spec [OF this s(2)] A have "within (after_command cmd A) (actor_abs a)"
    by (intro within_step) (simp_all add: s(1))
  with A same_handlers_inv [OF actor_step_same [OF a]] inv show ?thesis
    by (auto simp: sessions_inv_def s(1)) (auto simp: s(3))
qed

lemma accept_sessions_inv:
  assumes free: "addr_free addr s" and inv: "sessions_inv s"
  shows "sessions_inv (accept_conn addr budget s)" (is "sessions_inv ?s")
proof -
  have nth: "sv_conns ?s ! i = (if i < length (sv_conns s) then sv_conns s ! i else new_handler addr budget)"
    if "i < length (sv_conns ?s)" for i
    using that by (auto simp: accept_conn_def nth_append less_Suc_eq)
  have len: "length (sv_conns ?s) = Suc (length (sv_conns s))" by (simp add: accept_conn_def)
  have free': "hd_phase (sv_conns s ! i) \<noteq> HEnded \<Longrightarrow> hd_addr (sv_conns s ! i) \<noteq> addr" if "i < length (sv_conns s)" for i
    using free that by (auto simp: addr_free_def list_all_length)
  have serving: "serving ?s cid p \<longleftrightarrow> serving s cid p" for cid p
    using nth [of cid] by (cases "cid < length (sv_conns s)") (auto simp: serving_def len less_Suc_eq new_handler_def)
  have "addrs_distinct ?s"
    unfolding addrs_distinct_def
  proof (intro allI impI)
    fix i j
    assume ij: "i < length (sv_conns ?s)" "j < length (sv_conns ?s)"
      and same: "hd_addr (sv_conns ?s ! i) = hd_addr (sv_conns ?s ! j)"
      and live: "hd_phase (sv_conns ?s ! i) \<noteq> HEnded" "hd_phase (sv_conns ?s ! j) \<noteq> HEnded"
    consider "i < length (sv_conns s)" "j < length (sv_conns s)" | "i = length (sv_conns s)" "j < length (sv_conns s)"
      | "i < length (sv_conns s)" "j = length (sv_conns s)" | "i = length (sv_conns s)" "j = length (sv_conns s)"
      using ij by (auto simp: len less_Suc_eq)
    then show "i = j"
    proof cases
      case 1
      then show ?thesis
        by (intro addrs_distinctD [of s]) (use inv same live nth ij in \<open>simp_all add: sessions_inv_def\<close>)
    next
      case 2
      with free' [of j] same live(2) nth [OF ij(1)] nth [OF ij(2)] show ?thesis by (simp add: new_handler_def)
    next
      case 3
      with free' [of i] same live(1) nth [OF ij(1)] nth [OF ij(2)] show ?thesis by (simp add: new_handler_def)
    qed simp
  qed
  moreover have "sv_peers ?s = sv_peers s" "sv_queue ?s = sv_queue s" "sv_actor ?s = sv_actor s"
    by (simp_all add: accept_conn_def)
  ultimately show ?thesis
    using inv by (simp add: sessions_inv_def peers_listed_def registered_def serving)
qed

lemma sv_step_sessions_inv:
  assumes step: "sv_step x s e s'" and chans: "chans_inv s" and inv: "sessions_inv s"
  shows "sessions_inv s'"
  using step
proof (cases rule: sv_step.cases)
  case (sv_accept addr budget)
  with accept_sessions_inv [OF _ inv] show ?thesis by simp
next
  case (sv_conn cid ev)
  from moves_sessions_inv [OF conn_event_moves [OF sv_conn(2)] inv] show ?thesis .
next
  case (sv_handle cid t)
  from moves_sessions_inv [OF handle_step_moves [OF sv_handle(2)] inv] show ?thesis .
next
  case (sv_return cid)
  from moves_sessions_inv [OF handler_return_moves [OF sv_return(2)] inv] show ?thesis .
next
  case sv_actor
  from actor_step_sessions_inv [OF sv_actor(2) chans inv] show ?thesis .
next
  case (sv_rehash a)
  have "same_handlers s s'" by (simp add: same_handlers_def sv_rehash)
  from same_handlers_inv [OF this] inv sv_rehash show ?thesis by (auto simp: sessions_inv_def)
next
  case sv_shutdown
  have "same_handlers s s'" by (simp add: same_handlers_def sv_shutdown server_shutdown_def)
  from same_handlers_inv [OF this] inv show ?thesis by (auto simp: sessions_inv_def sv_shutdown server_shutdown_def)
next
  case sv_drop
  have "same_handlers s s'" by (simp add: same_handlers_def sv_drop)
  from same_handlers_inv [OF this] inv show ?thesis by (auto simp: sessions_inv_def sv_drop)
next
  case sv_accept_end
  have "same_handlers s s'" by (simp add: same_handlers_def sv_accept_end)
  from same_handlers_inv [OF this] inv show ?thesis by (auto simp: sessions_inv_def sv_accept_end)
qed

text \<open>Whole runs.\<close>

lemma sv_run_inv:
  "sv_run x s es rs s' \<Longrightarrow> chans_inv s \<Longrightarrow> sessions_inv s \<Longrightarrow>
     chans_inv s' \<and> sessions_inv s' \<and> sys_run (routing s) rs (routing s')"
proof (induction rule: sv_run.induct)
  case (sv_nil s)
  then show ?case by (simp add: run_nil)
next
  case (sv_cons s e s' es rs s'')
  then show ?case
    using sv_step_chans_inv [OF sv_cons.hyps(1)] sv_step_sessions_inv [OF sv_cons.hyps(1)]
      sys_run_append [OF sv_step_refines [OF sv_cons.hyps(1)]] by blast
qed

lemma server_run_inv:
  "sv_run x (server_init config) es rs s \<Longrightarrow>
     chans_inv s \<and> sessions_inv s \<and> sys_run sys_init rs (routing s)"
  using sv_run_inv [OF _ chans_inv_init sessions_inv_init, of x config es rs s]
  by (simp add: server_init_def sys_init_def)

section \<open>Answers to subscriptions\<close>

text \<open>
  A handler that waits for routes has either one command in the queue or the answer; any other
  has neither a subscription in the queue.
\<close>

fun subs_of :: "chan_id \<Rightarrow> command_queue \<Rightarrow> (socket_addr \<times> vni) list" where
  "subs_of cid [] = []"
| "subs_of cid ((tx, CmdSubscribe p v) # q) = (if tx = cid then (p, v) # subs_of cid q else subs_of cid q)"
| "subs_of cid (_ # q) = subs_of cid q"

lemma subs_of_append [simp]: "subs_of cid (q @ q') = subs_of cid q @ subs_of cid q'"
  by (induction q rule: subs_of.induct [of _ cid]) auto

lemma subs_of_other [simp]: "tx \<noteq> cid \<Longrightarrow> subs_of cid [(tx, cmd)] = []"
  by (cases cmd) simp_all

definition awaits_reply :: "chan_id \<Rightarrow> handler \<Rightarrow> command_queue \<Rightarrow> bool" where
  "awaits_reply cid h q \<longleftrightarrow>
     (case hd_phase h of
        HSubscribe n now buf v \<Rightarrow>
          hd_reply h = None \<and> subs_of cid q = [(hd_addr h, v)] \<or>
          (\<exists>rs. hd_reply h = Some (RoutesReply rs)) \<and> subs_of cid q = []
      | _ \<Rightarrow> subs_of cid q = [])"

definition replies_inv :: "server \<Rightarrow> bool" where
  "replies_inv s \<longleftrightarrow> (\<forall>cid < length (sv_conns s). awaits_reply cid (sv_conns s ! cid) (sv_queue s)) \<and>
     (\<forall>cid \<ge> length (sv_conns s). subs_of cid (sv_queue s) = [])"

lemma awaits_reply_signalled [simp]: "awaits_reply cid (h\<lparr>hd_signalled := b\<rparr>) q = awaits_reply cid h q"
  by (simp add: awaits_reply_def split: handler_phase.split)

lemma awaits_reply_more:
  "awaits_reply cid h q \<Longrightarrow> subs_of cid q' = subs_of cid q \<Longrightarrow> awaits_reply cid h q'"
  by (auto simp: awaits_reply_def split: handler_phase.splits)

lemma server_step_subs:
  assumes "server_step x (enqueue cid) cfg addr cid ev c = Some c'"
    and "\<And>data now. ev = SDataRead (Inr data) now \<Longrightarrow> data = []"
  shows "subs_of tx (sc_routing c') = subs_of tx (sc_routing c)"
  using assms
  by (auto simp: server_step_def server_hello_def server_keepalive_def server_cleanup_def server_data_def
      server_batch_def enqueue_def split: server_event.splits server_phase.splits sum.splits option.splits
      prod.splits if_splits)

text \<open>An event ends in waiting or in the message loop.\<close>

lemma conn_event_phases:
  assumes "conn_event x cid ev s = Some s'"
  shows "cid < length (sv_conns s)" and "\<exists>ph. hd_phase (sv_conns s ! cid) = HWait ph"
    and "(\<exists>ph. hd_phase (sv_conns s' ! cid) = HWait ph) \<or> (\<exists>n now buf. hd_phase (sv_conns s' ! cid) = HHandle n now buf)"
proof -
  show cid: "cid < length (sv_conns s)" using assms by (simp add: conn_event_def split: if_splits)
  then obtain ph where ph: "hd_phase (sv_conns s ! cid) = HWait ph"
    using assms by (auto simp: conn_event_def Let_def split: handler_phase.splits)
  then show "\<exists>ph. hd_phase (sv_conns s ! cid) = HWait ph" by blast
  have waits: "\<exists>ph'. hd_phase (sv_conns s2 ! cid) = HWait ph'"
    if "map_option (\<lambda>c. put_conn cid h c s) o' = Some s2" for o' h s2
    using that cid by auto
  show "(\<exists>ph. hd_phase (sv_conns s' ! cid) = HWait ph) \<or> (\<exists>n now buf. hd_phase (sv_conns s' ! cid) = HHandle n now buf)"
    using assms cid ph
    by (auto simp: conn_event_def Let_def set_conn_def split: server_event.splits sum.splits list.splits
        server_phase.splits if_splits dest: waits)
qed

lemma conn_event_subs:
  assumes "conn_event x cid ev s = Some s'"
  shows "subs_of cid (sv_queue s') = subs_of cid (sv_queue s)"
proof -
  obtain ph where ph: "hd_phase (sv_conns s ! cid) = HWait ph" using conn_event_phases(2) [OF assms] by blast
  have cid: "cid < length (sv_conns s)" by (rule conn_event_phases(1) [OF assms])
  show ?thesis
  proof (cases "\<exists>b data now. ev = SDataRead (Inr (b # data)) now")
    case True
    with assms cid ph show ?thesis
      by (auto simp: conn_event_def Let_def set_conn_def split: server_phase.splits)
  next
    case False
    then obtain c where c: "server_step x (enqueue cid) (sv_config s) (hd_addr (sv_conns s ! cid)) cid ev
        (conn_view s (sv_conns s ! cid) ph) = Some c" and q: "sv_queue s' = sc_routing c"
      using assms cid ph
      by (auto simp: conn_event_def Let_def split: if_splits server_event.splits sum.splits list.splits)
    have nodata: "data = []" if "ev = SDataRead (Inr data) now" for data now
      using False that by (metis list.exhaust)
    have "subs_of cid (sc_routing c) = subs_of cid (sc_routing (conn_view s (sv_conns s ! cid) ph))"
      by (rule server_step_subs [OF c]) (use nodata in blast)
    then show ?thesis by (simp add: q)
  qed
qed

lemma conn_event_awaits:
  assumes "conn_event x cid ev s = Some s'" and old: "awaits_reply cid (sv_conns s ! cid) (sv_queue s)"
  shows "awaits_reply cid (sv_conns s' ! cid) (sv_queue s')"
proof -
  have "subs_of cid (sv_queue s) = []" using conn_event_phases(2) [OF assms(1)] old by (auto simp: awaits_reply_def)
  then show ?thesis
    using conn_event_phases(3) [OF assms(1)] conn_event_subs [OF assms(1)] by (auto simp: awaits_reply_def)
qed

lemma handle_step_awaits:
  assumes "handle_step x cid t s = Some s'" and "awaits_reply cid (sv_conns s ! cid) (sv_queue s)"
  shows "awaits_reply cid (sv_conns s' ! cid) (sv_queue s')"
  using assms
  by (auto simp: handle_step_def Let_def set_conn_def awaits_reply_def put_conn_def enqueue_def server_cleanup_def
      split: if_splits handler_phase.splits sum.splits prod.splits message.splits option.splits)

lemma handler_return_awaits:
  assumes "handler_return cid s = Some s'" and "awaits_reply cid (sv_conns s ! cid) (sv_queue s)"
  shows "awaits_reply cid (sv_conns s' ! cid) (sv_queue s')"
  using assms
  by (auto simp: handler_return_def Let_def set_conn_def awaits_reply_def split: if_splits
      handler_phase.splits server_phase.splits)

lemma moves_subs_of:
  assumes m: "handler_moves cid s s'" and "tx \<noteq> cid"
  shows "subs_of tx (sv_queue s') = subs_of tx (sv_queue s)"
proof -
  obtain h' new where h': "sv_conns s' = (sv_conns s)[cid := h']" and queue: "sv_queue s' = sv_queue s @ new"
    and move: "session_move cid (hd_addr (sv_conns s ! cid)) (conn_stage s cid) (stage_of (hd_phase h')) new
      (sv_peers s) (sv_peers s')"
    by (rule handler_movesE [OF m])
  from move show ?thesis using assms(2) queue by (cases rule: session_move.cases) auto
qed

lemma moves_replies_inv:
  assumes m: "handler_moves cid s s'" and inv: "replies_inv s" and mine: "awaits_reply cid (sv_conns s' ! cid) (sv_queue s')"
  shows "replies_inv s'"
proof -
  obtain h' where h': "sv_conns s' = (sv_conns s)[cid := h']" and cid: "cid < length (sv_conns s)"
    by (rule handler_movesE [OF m])
  have "awaits_reply tx (sv_conns s' ! tx) (sv_queue s')" if "tx < length (sv_conns s)" for tx
  proof (cases "tx = cid")
    case False
    then show ?thesis
      using inv that by (intro awaits_reply_more [OF _ moves_subs_of [OF m]]) (simp_all add: replies_inv_def h')
  qed (use mine in simp)
  moreover have "subs_of tx (sv_queue s') = []" if "length (sv_conns s) \<le> tx" for tx
    using that cid inv moves_subs_of [OF m, of tx] by (auto simp: replies_inv_def)
  ultimately show ?thesis by (simp add: replies_inv_def h')
qed

lemma subscribe_replies:
  assumes "actor_handle (CmdSubscribe p v) r = (reply, r')"
  shows "\<exists>rs. reply = RoutesReply rs"
  using assms by (cases r) (auto split: prod.splits)

lemma other_replies:
  assumes "actor_handle cmd r = (RoutesReply rs, r')"
  shows "\<exists>p v. cmd = CmdSubscribe p v"
  using assms by (cases r; cases cmd) (auto split: prod.splits)

lemma actor_step_replies_inv:
  assumes a: "actor_step s = Some s'" and inv: "replies_inv s"
  shows "replies_inv s'"
proof -
  obtain cid cmd q reply a chans hs where s: "sv_queue s = (cid, cmd) # q"
    "actor_handle cmd (routing s) = (reply, a, chans)"
    "s' = s\<lparr>sv_queue := q, sv_actor := a, sv_chans := chans, sv_conns := hs\<rparr>"
    and hs: "hs = (case reply of RoutesReply rs \<Rightarrow> (sv_conns s)[cid := (sv_conns s ! cid)\<lparr>hd_reply := Some reply\<rparr>]
               | _ \<Rightarrow> sv_conns s)"
    by (rule actor_step_cases [OF a])
  have len: "length hs = length (sv_conns s)" by (simp add: hs split: routing_reply.split)
  show ?thesis
  proof (cases "\<exists>p v. cmd = CmdSubscribe p v")
    case True
    then obtain p v rs where cmd: "cmd = CmdSubscribe p v" and rs: "reply = RoutesReply rs"
      using subscribe_replies s(2) by blast
    have subs: "subs_of tx (sv_queue s) = (if tx = cid then (p, v) # subs_of tx q else subs_of tx q)" for tx
      by (simp add: s(1) cmd)
    have "awaits_reply tx (hs ! tx) q" if tx: "tx < length (sv_conns s)" for tx
      using inv tx subs [of tx]
      by (cases "tx = cid") (auto simp: hs rs replies_inv_def awaits_reply_def split: handler_phase.splits)
    moreover have "subs_of tx q = []" if "length (sv_conns s) \<le> tx" for tx
      using inv that subs [of tx] by (simp add: replies_inv_def split: if_splits)
    ultimately show ?thesis by (simp add: replies_inv_def s(3) len)
  next
    case False
    have "subs_of tx (sv_queue s) = subs_of tx q" for tx using False by (cases cmd) (simp_all add: s(1))
    moreover have "hs = sv_conns s"
      using False other_replies [of cmd "routing s" _ "(a, chans)"] s(2) by (cases reply) (auto simp: hs)
    ultimately show ?thesis using inv by (auto simp: replies_inv_def s(3) intro: awaits_reply_more)
  qed
qed

lemma sv_step_replies_inv:
  assumes step: "sv_step x s e s'" and inv: "replies_inv s"
  shows "replies_inv s'"
  using step
proof (cases rule: sv_step.cases)
  case (sv_accept addr budget)
  with inv show ?thesis
    by (auto simp: replies_inv_def accept_conn_def nth_append less_Suc_eq new_handler_def awaits_reply_def)
next
  case (sv_conn cid ev)
  then have "cid < length (sv_conns s)" by (simp add: conn_event_def split: if_splits)
  then have "awaits_reply cid (sv_conns s ! cid) (sv_queue s)" using inv by (simp add: replies_inv_def)
  from moves_replies_inv [OF conn_event_moves [OF sv_conn(2)] inv conn_event_awaits [OF sv_conn(2) this]] show ?thesis .
next
  case (sv_handle cid t)
  then have "cid < length (sv_conns s)" by (simp add: handle_step_def split: if_splits)
  then have "awaits_reply cid (sv_conns s ! cid) (sv_queue s)" using inv by (simp add: replies_inv_def)
  from moves_replies_inv [OF handle_step_moves [OF sv_handle(2)] inv handle_step_awaits [OF sv_handle(2) this]]
  show ?thesis .
next
  case (sv_return cid)
  then have "cid < length (sv_conns s)" by (simp add: handler_return_def split: if_splits)
  then have "awaits_reply cid (sv_conns s ! cid) (sv_queue s)" using inv by (simp add: replies_inv_def)
  from moves_replies_inv [OF handler_return_moves [OF sv_return(2)] inv handler_return_awaits [OF sv_return(2) this]]
  show ?thesis .
next
  case sv_actor
  from actor_step_replies_inv [OF sv_actor(2) inv] show ?thesis .
qed (use inv in \<open>auto simp: replies_inv_def server_shutdown_def\<close>)

lemma sv_run_replies_inv: "sv_run x s es rs s' \<Longrightarrow> replies_inv s \<Longrightarrow> replies_inv s'"
  by (induction rule: sv_run.induct) (auto intro: sv_step_replies_inv)

lemma replies_inv_init: "replies_inv (server_init config)"
  by (simp add: replies_inv_def server_init_def)

section \<open>After the shutdown\<close>

text \<open>Steps the server takes by itself, without anything from the network.\<close>

fun own_step :: "system_event \<Rightarrow> bool" where
  "own_step ActorStep = True"
| "own_step (Handle cid t) = True"
| "own_step (ConnEvent cid SShutdown) = True"
| "own_step _ = False"

text \<open>How far a handler is from the end of its session.\<close>

fun left_to_do :: "handler_phase \<Rightarrow> nat" where
  "left_to_do (HWait (SLoop n last_received round_start buf)) = 1"
| "left_to_do (HHandle n now buf) = 2 * length buf + 2"
| "left_to_do (HSubscribe n now buf v) = 2 * length buf + 3"
| "left_to_do _ = 0"

definition work_left :: "server \<Rightarrow> nat" where
  "work_left s = sum_list (map (\<lambda>h. left_to_do (hd_phase h)) (sv_conns s))"

lemma left_to_do_0: "left_to_do ph = 0 \<longleftrightarrow> stage_of ph \<noteq> During"
  by (cases ph rule: stage_of.cases) simp_all

lemma work_left_0: "work_left s = 0 \<longleftrightarrow> registered s = {}"
proof -
  have "work_left s = 0 \<longleftrightarrow> (\<forall>cid < length (sv_conns s). conn_stage s cid \<noteq> During)"
    by (auto simp: work_left_def left_to_do_0 in_set_conv_nth all_set_conv_all_nth)
  then show ?thesis by (auto simp: registered_def serving_def)
qed

lemma work_left_less:
  assumes "cid < length (sv_conns s)" and "sv_conns s' = (sv_conns s)[cid := h']"
    and "left_to_do (hd_phase h') < left_to_do (hd_phase (sv_conns s ! cid))"
  shows "work_left s' < work_left s"
proof -
  have "sum_list ((map f xs)[i := n]) < sum_list (map f xs)" if "i < length xs" "n < f (xs ! i)"
    for f :: "handler \<Rightarrow> nat" and xs i n
  proof -
    have "f (xs ! i) \<le> sum_list (map f xs)" using elem_le_sum_list [of i "map f xs"] that(1) by simp
    with that show ?thesis by (simp add: sum_list_update)
  qed
  with assms show ?thesis by (simp add: work_left_def map_update)
qed

lemma work_left_same: "same_handlers s s' \<Longrightarrow> work_left s' = work_left s"
  unfolding work_left_def by (rule arg_cong [where f = sum_list], rule nth_equalityI) (simp_all add: same_handlers_def)

lemma decode_shorter:
  "message_decode x buf = Inr (m, k) \<Longrightarrow> buf \<noteq> [] \<Longrightarrow> length (drop k buf) < length buf"
  using message_decode_consumed [of x buf m k] by auto

text \<open>A handler in the middle of its session can always move, if the queue is empty.\<close>

lemma handle_step_progress:
  assumes "cid < length (sv_conns s)" and "hd_phase (sv_conns s ! cid) = HHandle n now buf"
  shows "\<exists>s' h'. handle_step x cid t s = Some s' \<and> sv_conns s' = (sv_conns s)[cid := h'] \<and>
    left_to_do (hd_phase h') < 2 * length buf + 2"
proof (cases "buf = []")
  case True
  with assms show ?thesis 
    by (auto simp: handle_step_def Let_def set_conn_def
        intro!: exI [of _ "(sv_conns s ! cid)\<lparr>hd_phase := HWait (SLoop n now t [])\<rparr>"])
next
  case False
  show ?thesis
  proof (cases "message_decode x buf")
    case (Inl e)
    with assms False show ?thesis
      by (simp add: handle_step_def Let_def set_conn_def put_conn_def server_cleanup_def) force
  next
    case (Inr mk)
    obtain m k where mk: "mk = (m, k)" by (cases mk)
    have "length (drop k buf) < length buf" using decode_shorter [of x buf m k] Inr mk False by simp
    then show ?thesis
      using assms False Inr mk
      by (cases m) (auto simp: handle_step_def Let_def set_conn_def split: prod.split)
  qed
qed

definition all_inv :: "server \<Rightarrow> bool" where
  "all_inv s \<longleftrightarrow> chans_inv s \<and> sessions_inv s \<and> replies_inv s"

lemma sv_step_all_inv: "sv_step x s e s' \<Longrightarrow> all_inv s \<Longrightarrow> all_inv s'"
  unfolding all_inv_def by (blast intro: sv_step_chans_inv sv_step_sessions_inv sv_step_replies_inv)

lemma sv_run_all_inv: "sv_run x s es rs s' \<Longrightarrow> all_inv s \<Longrightarrow> all_inv s'"
  by (induction rule: sv_run.induct) (auto intro: sv_step_all_inv)

lemma server_run_all_inv: "sv_run x (server_init config) es rs s \<Longrightarrow> all_inv s"
  using sv_run_all_inv [of x "server_init config" es rs s] chans_inv_init sessions_inv_init replies_inv_init
  by (simp add: all_inv_def)

definition closing :: "server \<Rightarrow> bool" where
  "closing s \<longleftrightarrow> \<not> sv_owner s \<and> \<not> sv_accepting s"

lemma sv_run_append: "sv_run x s es rs s' \<Longrightarrow> sv_run x s' es' rs' s'' \<Longrightarrow> sv_run x s (es @ es') (rs @ rs') s''"
proof (induction rule: sv_run.induct)
  case (sv_cons s e s' es rs s3)
  then show ?case using sv_run.sv_cons [OF sv_cons.hyps(1)] by simp
qed simp

lemma sv_run_single: "sv_step x s e s' \<Longrightarrow> \<exists>rs. sv_run x s [e] rs s'"
  using sv_cons [OF _ sv_nil] by blast

text \<open>The actor works through its queue.\<close>

lemma drain_queue:
  "\<exists>es rs s'. sv_run x s es rs s' \<and> list_all own_step es \<and> sv_queue s' = [] \<and> same_handlers s s' \<and>
     sv_owner s' = sv_owner s \<and> sv_accepting s' = sv_accepting s"
proof (induction "length (sv_queue s)" arbitrary: s)
  case 0
  then show ?case by (intro exI [of _ "[]"] exI [of _ s]) (auto simp: same_handlers_def)
next
  case (Suc n)
  have "actor_step s \<noteq> None"
    using Suc.hyps(2) by (cases "sv_queue s") (auto simp: actor_step_def Let_def split: prod.splits)
  then obtain s1 where s1: "actor_step s = Some s1" by blast
  obtain cid cmd q a chans hs where q: "sv_queue s = (cid, cmd) # q"
    "s1 = s\<lparr>sv_queue := q, sv_actor := a, sv_chans := chans, sv_conns := hs\<rparr>"
    by (rule actor_step_cases [OF s1])
  have "n = length (sv_queue s1)" using Suc.hyps(2) q by simp
  from Suc.hyps(1) [OF this] obtain es rs s' where run: "sv_run x s1 es rs s'" "list_all own_step es"
    "sv_queue s' = []" "same_handlers s1 s'" "sv_owner s' = sv_owner s" "sv_accepting s' = sv_accepting s"
    using q(2) by auto
  have "same_handlers s s'" using actor_step_same [OF s1] run(4) by (simp add: same_handlers_def)
  with sv_cons [OF sv_actor [OF s1] run(1)] run show ?case
    by (intro exI [of _ "ActorStep # es"]) auto
qed

text \<open>With an empty queue and the shutdown signalled, some handler in session takes a step.\<close>

lemma closing_progress:
  assumes "all_inv s" and "closing s" and "sv_queue s = []" and "registered s \<noteq> {}"
  shows "\<exists>e s'. sv_step x s e s' \<and> own_step e \<and> closing s' \<and> work_left s' < work_left s"
proof -
  obtain cid where cid: "cid < length (sv_conns s)" "conn_stage s cid = During"
    using assms(4) by (auto simp: registered_def serving_def)
  let ?h = "sv_conns s ! cid"
  have handle: ?thesis
    if step: "handle_step x cid t s = Some s'" and conns: "sv_conns s' = (sv_conns s)[cid := h']"
      and less: "left_to_do (hd_phase h') < left_to_do (hd_phase ?h)" for t s' h'
  proof -
    obtain new where "sv_queue s' = new" "length new \<le> 1" "closing s'"
      by (rule handler_movesE [OF handle_step_moves [OF step]])
        (use assms(2,3) in \<open>auto simp: closing_def elim: session_move.cases\<close>)
    then have "sv_step x s (Handle cid t) s'" "closing s'"
      using sv_handle [OF step] by (simp_all add: ROUTING_QUEUE_def)
    with work_left_less [OF cid(1) conns less] show ?thesis by (intro exI [of _ "Handle cid t"]) auto
  qed
  show ?thesis
  proof (cases "hd_phase ?h")
    case (HHandle n now buf)
    from handle_step_progress [OF cid(1) this, of x 0] handle HHandle show ?thesis by auto
  next
    case (HSubscribe n now buf v)
    have "awaits_reply cid ?h (sv_queue s)" using assms(1) cid(1) by (simp add: all_inv_def replies_inv_def)
    with HSubscribe assms(3) obtain reply where "hd_reply ?h = Some reply" by (auto simp: awaits_reply_def)
    with cid(1) HSubscribe handle [of 0] show ?thesis by (auto simp: handle_step_def Let_def set_conn_def)
  next
    case (HWait ph)
    then obtain n last_received round_start buf where ph: "ph = SLoop n last_received round_start buf"
      using cid(2) by (cases ph) auto
    let ?s = "put_conn cid ?h (server_cleanup (enqueue cid) (hd_addr ?h) (Inr ()) (conn_view s ?h ph)) s"
    have "conn_event x cid SShutdown s = Some ?s"
      using cid HWait ph assms(2) by (simp add: conn_event_def Let_def server_step_def sees_shutdown_def closing_def)
    moreover have "length (sv_queue ?s) \<le> ROUTING_QUEUE"
      using assms(3) by (simp add: server_cleanup_def enqueue_def ROUTING_QUEUE_def)
    moreover have "work_left ?s < work_left s"
      by (rule work_left_less [OF cid(1) put_conn_fields(5)]) (simp add: HWait ph server_cleanup_def)
    moreover have "closing ?s" using assms(2) by (simp add: closing_def put_conn_def set_conn_def)
    ultimately show ?thesis by (intro exI [of _ "ConnEvent cid SShutdown"] exI [of _ ?s]) (simp add: sv_conn)
  qed (use cid in simp)
qed

lemma closing_completes:
  "all_inv s \<Longrightarrow> closing s \<Longrightarrow>
     \<exists>es rs s'. sv_run x s es rs s' \<and> list_all own_step es \<and> registered s' = {} \<and> sv_queue s' = []"
proof (induction "work_left s" arbitrary: s rule: less_induct)
  case less
  obtain es rs s1 where drain: "sv_run x s es rs s1" "list_all own_step es" "sv_queue s1 = []"
    "same_handlers s s1" "sv_owner s1 = sv_owner s" "sv_accepting s1 = sv_accepting s"
    using drain_queue by blast
  have s1: "all_inv s1" "closing s1" "work_left s1 = work_left s"
    using sv_run_all_inv [OF drain(1) less.prems(1)] less.prems(2) drain work_left_same [OF drain(4)]
    by (simp_all add: closing_def)
  show ?case
  proof (cases "registered s1 = {}")
    case True
    with drain show ?thesis by blast
  next
    case False
    obtain e s2 where e: "sv_step x s1 e s2" "own_step e" "closing s2" "work_left s2 < work_left s"
      using closing_progress [OF s1(1,2) drain(3) False, of x] s1(3) by auto
    obtain es' rs' s' where rest: "sv_run x s2 es' rs' s'" "list_all own_step es'" "registered s' = {}" "sv_queue s' = []"
      using less.hyps [OF e(4) sv_step_all_inv [OF e(1) s1(1)] e(3)] by blast
    from sv_run_append [OF drain(1) sv_cons [OF e(1) rest(1)]] drain(2) e(2) rest show ?thesis
      by (intro exI [of _ "es @ e # es'"]) auto
  qed
qed

text \<open>What the actor knows when nobody is connected and nothing is queued.\<close>

lemma nobody_left:
  assumes "all_inv s" and "registered s = {}" and "sv_queue s = []"
  shows "rt_abs (a_routes (sv_actor s)) = {}" and "a_owners (sv_actor s) = []" and "a_peers (sv_actor s) = []"
    and "\<not> subscribed p v (sv_actor s)" and "sv_peers s = []"
proof -
  obtain A where "within A (actor_abs (sv_actor s))" "queue_after A (sv_queue s) = registered s"
    using assms(1) by (auto simp: all_inv_def sessions_inv_def)
  then have none: "within {} (actor_abs (sv_actor s))" by (simp add: assms(2,3))
  then show "a_owners (sv_actor s) = []" "a_peers (sv_actor s) = []" "\<not> subscribed p v (sv_actor s)"
    by (auto simp: within_def actor_abs_def hm_empty_iff)
  have wf: "actor_wf (sv_actor s)" using assms(1) by (simp add: all_inv_def chans_inv_def sys_inv_def)
  show "rt_abs (a_routes (sv_actor s)) = {}"
    using none actor_wf_routes [OF wf] by (auto simp: within_def dom_def simp del: rt_abs_iff)
  show "sv_peers s = []"
    using assms(1,2) by (auto simp: all_inv_def sessions_inv_def peers_listed_def registered_def hm_empty_iff)
qed

end
