(* ===== verification/Server_Streams.thy ===== *)
theory Server_Streams
  imports Server_Sessions
begin

text \<open>
  What a connection of the server writes to a subscriber: after the subscription is answered,
  the answer and then the channel, message by message, among messages of other VNIs and
  keepalives. So the bytes on the wire say what the server stores, as long as no write fails
  and the subscriber is not evicted.
\<close>

section \<open>Sound messages\<close>

text \<open>
  A message that survives the wire as it is: its destination is one \<open>IpNet::new\<close> builds, and
  no target VNI is a present 0. Everything that is decoded is sound, so that everything the
  server stores and sends is.
\<close>

definition sound_route :: "destination \<times> next_hop \<Rightarrow> bool" where
  "sound_route b \<longleftrightarrow> destination_valid (fst b) \<and> next_hop_canon (snd b) = snd b"

definition sound_message :: "message \<Rightarrow> bool" where
  "sound_message m \<longleftrightarrow> message_valid m \<and> message_canon m = m"

lemma sound_message_simps [simp]:
  "sound_message (MsgUpdate act v d h) \<longleftrightarrow> sound_route (d, h)"
  "sound_message (MsgHello k b)" "sound_message MsgKeepalive" "sound_message (MsgSubscribe v)" "sound_message (MsgUnsubscribe v)"
  by (auto simp: sound_message_def sound_route_def)

lemma decode_sound:
  assumes "externals_ok x" and "message_decode x buf = Inr (m, n)"
  shows "sound_message m"
proof -
  obtain t p where "decode_payload x t p = Inr m" using assms(2) by (auto simp: message_decode_Inr_iff)
  moreover have "destination_valid d" if "destination_try_from (ext_net_new x) p = Inr d" for p d
    using ipnet_crate.destination_try_from_valid [OF _ that] assms(1)
    by (simp add: ipnet_crate_def externals_ok_def)
  moreover have "next_hop_canon h = h" if "next_hop_try_from p = Inr h" for p h
    using next_hop_canon_valid [OF next_hop_try_from_valid [OF that]] .
  ultimately show ?thesis
    by (cases t) (auto simp: and_then_Inr_iff sound_route_def)
qed

fun sound_command :: "routing_command \<Rightarrow> bool" where
  "sound_command (CmdUpdate p act v d h) \<longleftrightarrow> sound_route (d, h)"
| "sound_command _ \<longleftrightarrow> True"

definition sound_inv :: "server \<Rightarrow> bool" where
  "sound_inv s \<longleftrightarrow>
     (\<forall>e \<in> set (sv_queue s). sound_command (snd e)) \<and>
     (\<forall>k p. hm_get (a_owners (sv_actor s)) k = Some p \<longrightarrow> sound_route (snd k)) \<and>
     (\<forall>c. \<forall>m \<in> set (ch_history (sv_chans s c)). sound_message m) \<and>
     (\<forall>cid < length (sv_conns s). \<forall>rs. hd_reply (sv_conns s ! cid) = Some (RoutesReply rs) \<longrightarrow> (\<forall>b \<in> set rs. sound_route b))"

text \<open>The actor sends and answers with what it was sent.\<close>

lemma push_all_set: "set (ch_history (push_all ms ch)) \<subseteq> set (ch_history ch) \<union> set ms"
proof (induction ms arbitrary: ch)
  case (Cons m ms)
  have "set (ch_history (ch_push m ch)) \<subseteq> insert m (set (ch_history ch))" by (auto simp: ch_push_def ch_history_def)
  with Cons [of "ch_push m ch"] show ?case by auto
qed simp

lemma sp_delivered_sound:
  assumes "sp_delivered msgs S chans chans'" and "\<And>c. \<forall>m \<in> set (ch_history (chans c)). sound_message m"
    and "\<And>p. \<forall>m \<in> set (msgs p). sound_message m"
  shows "\<forall>m \<in> set (ch_history (chans' c)). sound_message m"
proof (cases "c \<in> ran (sp_peers S)")
  case True
  then obtain p where "chans' c = push_all (msgs p) (chans c)" using assms(1) by (auto simp: sp_delivered_def ran_def)
  with push_all_set [of "msgs p" "chans c"] assms(2,3) show ?thesis by fastforce
next
  case False
  with assms(1,2) show ?thesis by (simp add: sp_delivered_def)
qed

lemma sp_step_sound:
  assumes sp: "sp_step cmd (S, chans) reply (S', chans')"
    and all_owners: "\<forall>k p. sp_owners S k = Some p \<longrightarrow> sound_route (snd k)"
    and chans: "\<And>c. \<forall>m \<in> set (ch_history (chans c)). sound_message m" and cmd: "sound_command cmd"
  shows "sp_owners S' k = Some p \<Longrightarrow> sound_route (snd k)"
    and "\<forall>m \<in> set (ch_history (chans' c)). sound_message m"
    and "reply = RoutesReply rs \<Longrightarrow> b \<in> set rs \<Longrightarrow> sound_route b"
proof -
  have owners: "sp_owners S k = Some p \<Longrightarrow> sound_route (snd k)" for k p using all_owners by blast
  show "sp_owners S' k = Some p \<Longrightarrow> sound_route (snd k)"
    using sp cmd owners [of k] by (cases cmd)
      (auto simp: Let_def sp_owned_def sp_disown_def split: action.splits if_splits)
  show "reply = RoutesReply rs \<Longrightarrow> b \<in> set rs \<Longrightarrow> sound_route b"
    using sp by (cases cmd) (auto simp: Let_def sp_routes_of_def dest: owners)
  show "\<forall>m \<in> set (ch_history (chans' c)). sound_message m"
  proof (cases cmd)
    case (PeerDisconnected p)
    then obtain ks where ks: "set ks = {k. sp_owners S k = Some p}"
      and del: "sp_delivered (sp_withdraw_msgs ks (sp_evict {p} S)) (sp_evict {p} S) chans chans'"
      using sp by (auto simp: Let_def)
    have "\<forall>m \<in> set (sp_withdraw_msgs ks (sp_evict {p} S) q). sound_message m" for q
      using owners ks by (auto simp: sp_withdraw_msgs_def key_message_def)
    from sp_delivered_sound [OF del chans this] show ?thesis .
  next
    case (CmdUpdate p act v d h)
    then have del: "sp_delivered (sp_update_msgs p act (v, d, h) S) S chans chans'" using sp by (simp add: Let_def)
    have "\<forall>m \<in> set (sp_update_msgs p act (v, d, h) S q). sound_message m" for q
      using cmd CmdUpdate by (simp add: sp_update_msgs_def key_message_def)
    from sp_delivered_sound [OF del chans this] show ?thesis .
  qed (use sp chans in \<open>simp_all add: Let_def\<close>)
qed

lemma actor_step_sound:
  assumes a: "actor_step s = Some s'" and inv: "sound_inv s" and "chans_inv s"
  shows "sound_inv s'"
proof -
  obtain tx cmd q reply a chans hs where s: "sv_queue s = (tx, cmd) # q"
    "actor_handle cmd (routing s) = (reply, a, chans)"
    "s' = s\<lparr>sv_queue := q, sv_actor := a, sv_chans := chans, sv_conns := hs\<rparr>"
    and hs: "hs = (case reply of RoutesReply rs \<Rightarrow> (sv_conns s)[tx := (sv_conns s ! tx)\<lparr>hd_reply := Some reply\<rparr>]
               | _ \<Rightarrow> sv_conns s)"
    by (rule actor_step_cases [OF a])
  have "sys_inv (routing s)" using assms(3) by (simp add: chans_inv_def)
  note sp = sys_cmd_spec [OF this s(2)]
  have owners: "\<forall>k p. sp_owners (actor_abs (sv_actor s)) k = Some p \<longrightarrow> sound_route (snd k)"
    using inv by (simp add: sound_inv_def actor_abs_def del: split_paired_All)
  have chans: "\<forall>m \<in> set (ch_history (sv_chans s c)). sound_message m" for c using inv by (simp add: sound_inv_def)
  have cmd: "sound_command cmd" using inv by (simp add: sound_inv_def s(1))
  note sound = sp_step_sound [OF sp owners chans cmd]
  have "hm_get (a_owners a) k = Some p \<Longrightarrow> sound_route (snd k)" for k p using sound(1) by (simp add: actor_abs_def del: split_paired_All)
  moreover have "\<forall>b \<in> set rs. sound_route b"
    if "cid < length hs" "hd_reply (hs ! cid) = Some (RoutesReply rs)" for cid rs
  proof (cases "cid = tx \<and> reply = RoutesReply rs")
    case True
    with sound(3) [of rs] show ?thesis by blast
  next
    case False
    with that have "cid < length (sv_conns s)" "hd_reply (sv_conns s ! cid) = Some (RoutesReply rs)"
      by (cases reply; cases "cid = tx"; simp add: hs)+
    with inv show ?thesis by (simp add: sound_inv_def)
  qed
  moreover have "\<forall>e \<in> set q. sound_command (snd e)" using inv by (simp add: sound_inv_def s(1))
  ultimately show ?thesis using sound(2) by (simp add: sound_inv_def s(3) del: split_paired_All)
qed

text \<open>A handler sends the actor what it decoded.\<close>

lemma server_step_sound:
  assumes "server_step x (enqueue cid) cfg addr cid ev c = Some c'"
    and "\<And>data now. ev = SDataRead (Inr data) now \<Longrightarrow> data = []"
    and "\<forall>e \<in> set (sc_routing c). sound_command (snd e)"
  shows "\<forall>e \<in> set (sc_routing c'). sound_command (snd e)"
  using assms
  by (auto simp: server_step_def server_hello_def server_keepalive_def server_cleanup_def server_data_def
      server_batch_def enqueue_def split: server_event.splits server_phase.splits sum.splits option.splits
      prod.splits if_splits)

lemma conn_event_sound:
  assumes ev: "conn_event x cid ev s = Some s'" and inv: "sound_inv s"
  shows "\<forall>e \<in> set (sv_queue s'). sound_command (snd e)"
    and "hd_reply (sv_conns s' ! cid) = hd_reply (sv_conns s ! cid)"
proof -
  let ?h = "sv_conns s ! cid"
  have cid: "cid < length (sv_conns s)" using conn_event_phases(1) [OF ev] .
  obtain ph where ph: "hd_phase ?h = HWait ph" using conn_event_phases(2) [OF ev] by blast
  have queue: "\<forall>e \<in> set (sv_queue s). sound_command (snd e)" using inv by (simp add: sound_inv_def)
  have "(\<forall>e \<in> set (sv_queue s'). sound_command (snd e)) \<and> hd_reply (sv_conns s' ! cid) = hd_reply ?h"
  proof (cases "\<exists>b data now. ev = SDataRead (Inr (b # data)) now")
    case True
    with ev cid ph have "sv_queue s' = sv_queue s" "hd_reply (sv_conns s' ! cid) = hd_reply ?h"
      by (auto simp: conn_event_def Let_def set_conn_def split: server_phase.splits)
    with queue show ?thesis by simp
  next
    case False
    then obtain c where c: "server_step x (enqueue cid) (sv_config s) (hd_addr ?h) cid ev (conn_view s ?h ph) = Some c"
      and s': "sv_queue s' = sc_routing c" "hd_reply (sv_conns s' ! cid) = hd_reply ?h"
      using ev cid ph by (auto simp: conn_event_def Let_def split: if_splits server_event.splits sum.splits list.splits)
    have nodata: "data = []" if "ev = SDataRead (Inr data) now" for data now
      using False that by (metis list.exhaust)
    from server_step_sound [OF c nodata] queue s' show ?thesis by simp
  qed
  then show "\<forall>e \<in> set (sv_queue s'). sound_command (snd e)" "hd_reply (sv_conns s' ! cid) = hd_reply ?h" by simp_all
qed

lemma handle_step_sound:
  assumes step: "handle_step x cid t s = Some s'" and inv: "sound_inv s" and x: "externals_ok x"
  shows "\<forall>e \<in> set (sv_queue s'). sound_command (snd e)"
    and "hd_reply (sv_conns s' ! cid) \<in> {hd_reply (sv_conns s ! cid), None}"
proof -
  let ?h = "sv_conns s ! cid"
  have cid: "cid < length (sv_conns s)" using step by (simp add: handle_step_def split: if_splits)
  have queue: "\<forall>e \<in> set (sv_queue s). sound_command (snd e)" using inv by (simp add: sound_inv_def)
  have "(\<forall>e \<in> set (sv_queue s'). sound_command (snd e)) \<and> hd_reply (sv_conns s' ! cid) \<in> {hd_reply ?h, None}"
  proof (cases "hd_phase ?h")
    case (HHandle n now buf)
    show ?thesis
    proof (cases "message_decode x buf")
      case (Inl e)
      with step cid HHandle queue show ?thesis
        by (auto simp: handle_step_def Let_def set_conn_def server_cleanup_def enqueue_def split: if_splits)
    next
      case (Inr mk)
      obtain m k where mk: "mk = (m, k)" by (cases mk)
      have "sound_message m" using decode_sound [OF x] Inr mk by blast
      with step cid HHandle queue Inr mk show ?thesis
        by (cases m) (auto simp: handle_step_def Let_def set_conn_def enqueue_def split: if_splits prod.splits)
    qed
  next
    case (HSubscribe n now buf v)
    with step cid queue show ?thesis by (auto simp: handle_step_def Let_def set_conn_def split: option.splits)
  qed (use step cid in \<open>simp_all add: handle_step_def Let_def\<close>)
  then show "\<forall>e \<in> set (sv_queue s'). sound_command (snd e)" "hd_reply (sv_conns s' ! cid) \<in> {hd_reply ?h, None}"
    by blast+
qed

lemma moves_sound_inv:
  assumes m: "handler_moves cid s s'" and inv: "sound_inv s"
    and queue: "\<forall>e \<in> set (sv_queue s'). sound_command (snd e)"
    and reply: "hd_reply (sv_conns s' ! cid) \<in> {hd_reply (sv_conns s ! cid), None}"
  shows "sound_inv s'"
proof -
  obtain h' new ch where f: "cid < length (sv_conns s)" "sv_conns s' = (sv_conns s)[cid := h']"
    "sv_chans s' = (sv_chans s)(cid := ch)" "sv_actor s' = sv_actor s"
    and ch: "if hd_phase h' = HEnded then ch = (sv_chans s cid)\<lparr>ch_queue := [], ch_open := False\<rparr>
         else ch_history ch = ch_history (sv_chans s cid) \<and> ch_open ch = ch_open (sv_chans s cid)"
    by (rule handler_movesE [OF m])
  have "set (ch_history ch) \<subseteq> set (ch_history (sv_chans s cid))"
  proof (cases "hd_phase h' = HEnded")
    case True
    with ch show ?thesis by (simp add: ch_history_def)
  qed (use ch in simp)
  then have chans: "\<forall>m \<in> set (ch_history (sv_chans s' c)). sound_message m" for c
    using inv by (auto simp: sound_inv_def f(3))
  have "\<forall>b \<in> set rs. sound_route b"
    if "tx < length (sv_conns s)" "hd_reply (sv_conns s' ! tx) = Some (RoutesReply rs)" for tx rs
  proof -
    have "hd_reply (sv_conns s ! tx) = Some (RoutesReply rs)"
      using that reply f(1,2) by (cases "tx = cid") auto
    with inv that(1) show ?thesis by (simp add: sound_inv_def)
  qed
  with inv chans queue f show ?thesis by (simp add: sound_inv_def del: split_paired_All)
qed

lemma sv_step_sound_inv:
  assumes step: "sv_step x s e s'" and x: "externals_ok x" and inv: "sound_inv s" and chans: "chans_inv s"
  shows "sound_inv s'"
  using step
proof (cases rule: sv_step.cases)
  case (sv_accept addr budget)
  with inv show ?thesis
    by (auto simp: sound_inv_def accept_conn_def nth_append new_handler_def less_Suc_eq split: if_splits)
next
  case (sv_conn cid ev)
  from moves_sound_inv [OF conn_event_moves [OF sv_conn(2)] inv conn_event_sound(1) [OF sv_conn(2) inv]]
    conn_event_sound(2) [OF sv_conn(2) inv] show ?thesis by simp
next
  case (sv_handle cid t)
  from moves_sound_inv [OF handle_step_moves [OF sv_handle(2)] inv handle_step_sound [OF sv_handle(2) inv x]]
  show ?thesis .
next
  case (sv_return cid)
  have "sv_queue s' = sv_queue s" "hd_reply (sv_conns s' ! cid) = hd_reply (sv_conns s ! cid)"
    using sv_return by (auto simp: handler_return_def Let_def set_conn_def split: if_splits handler_phase.splits server_phase.splits)
  with moves_sound_inv [OF handler_return_moves [OF sv_return(2)] inv] inv show ?thesis by (simp add: sound_inv_def)
next
  case sv_actor
  from actor_step_sound [OF sv_actor(2) inv chans] show ?thesis .
next
  case (sv_rehash a)
  have "hm_get (a_owners a) = hm_get (a_owners (sv_actor s))" using sv_rehash(4) by (simp add: actor_abs_def)
  with inv sv_rehash show ?thesis by (simp add: sound_inv_def)
qed (use inv in \<open>simp_all add: sound_inv_def server_shutdown_def\<close>)

lemma sv_run_sound_inv: "sv_run x s es rs s' \<Longrightarrow> externals_ok x \<Longrightarrow> sound_inv s \<Longrightarrow> all_inv s \<Longrightarrow> sound_inv s'"
proof (induction rule: sv_run.induct)
  case (sv_cons s e s' es rs s'')
  have "chans_inv s" using sv_cons.prems by (simp add: all_inv_def)
  with sv_cons sv_step_sound_inv [OF sv_cons.hyps(1)] sv_step_all_inv [OF sv_cons.hyps(1)] show ?case by blast
qed simp

lemma sound_inv_init: "sound_inv (server_init config)"
  by (simp add: sound_inv_def server_init_def actor_new_def new_channel_def ch_history_def)

section \<open>What a step of a handler writes\<close>

lemma chan_log_other_snapshot: "w \<noteq> v \<Longrightarrow> chan_log v (snapshot_messages w reply) = []"
proof -
  assume "w \<noteq> v"
  then have "chan_log v (map (\<lambda>(d, h). MsgUpdate Add w d h) rs) = []" for rs by (induction rs) auto
  then show ?thesis by (simp add: snapshot_messages_def split: routing_reply.split)
qed

lemma chan_log_own_snapshot: "chan_log v (snapshot_messages v (RoutesReply rs)) = map (Pair Add) rs"
  by (induction rs) (auto simp: snapshot_messages_def)

lemma write_all_left: "write_all bs st = (r, st') \<Longrightarrow> 0 < ts_budget st' \<Longrightarrow>
    0 < ts_budget st \<and> ts_written st' = ts_written st @ bs"
  by (auto simp: write_all_def split: if_splits)

lemma send_all_left:
  assumes "externals_ok x" and "0 < ts_budget (snd (send_all x ms st))"
  shows "0 < ts_budget st \<and> ts_written (snd (send_all x ms st)) = ts_written st @ wire_bytes x ms"
  using assms by (auto simp: externals_ok.send_all_ok split: if_splits)

lemma batch_bytes_wire: "batch_bytes x batch = wire_bytes x batch"
  by (simp add: batch_bytes_def wire_bytes_def)

text \<open>A handler that was answered and has not yet passed the answer on.\<close>

definition answered :: "vni \<Rightarrow> handler \<Rightarrow> bool" where
  "answered v h \<longleftrightarrow> (\<exists>n now buf. hd_phase h = HSubscribe n now buf v) \<and> hd_reply h \<noteq> None"

text \<open>An event a handler waits for writes what it takes off the channel.\<close>

lemma server_step_writes:
  assumes "server_step x ask cfg addr tx ev c = Some c'" and "sc_phase c = SLoop n last_received round_start buf"
    and "\<And>data now. ev = SDataRead (Inr data) now \<Longrightarrow> data = []" and "0 < ts_budget (sc_stream c')"
  shows "0 < ts_budget (sc_stream c) \<and>
    ts_written (sc_stream c') = ts_written (sc_stream c) @ wire_bytes x (case ev of SBatch batch now \<Rightarrow> batch | _ \<Rightarrow> [])"
proof (cases ev)
  case (SBatch batch now)
  then have c': "c' = server_batch x ask addr n last_received buf batch now c"
    using assms(1,2) by (auto simp: server_step_def split: if_splits)
  show ?thesis
  proof (cases "ts_budget (sc_stream c) = 0")
    case True
    then have "ts_budget (sc_stream c') = 0"
      by (simp add: c' server_batch_def write_all_def server_cleanup_def)
    with assms(4) show ?thesis by simp
  next
    case False
    then show ?thesis by (simp add: c' server_batch_def write_all_def batch_bytes_wire SBatch)
  qed
qed (use assms in \<open>auto simp: server_step_def server_cleanup_def server_data_def split: if_splits sum.splits\<close>)

lemma conn_event_writes:
  assumes ev: "conn_event x cid ev s = Some s'" and during: "conn_stage s cid \<noteq> Before"
  shows "\<exists>ms. ch_taken (sv_chans s' cid) = ch_taken (sv_chans s cid) @ ms \<and>
    (0 < ts_budget (hd_stream (sv_conns s' ! cid)) \<longrightarrow> 0 < ts_budget (hd_stream (sv_conns s ! cid)) \<and>
       ts_written (hd_stream (sv_conns s' ! cid)) = ts_written (hd_stream (sv_conns s ! cid)) @ wire_bytes x ms)"
proof -
  let ?h = "sv_conns s ! cid"
  have cid: "cid < length (sv_conns s)" using conn_event_phases(1) [OF ev] .
  obtain ph where ph: "hd_phase ?h = HWait ph" using conn_event_phases(2) [OF ev] by blast
  show ?thesis
  proof (cases "\<exists>b data now. ev = SDataRead (Inr (b # data)) now")
    case True
    with ev cid ph have "sv_chans s' = sv_chans s" "hd_stream (sv_conns s' ! cid) = hd_stream ?h"
      by (auto simp: conn_event_def Let_def set_conn_def split: server_phase.splits)
    then show ?thesis by (intro exI [of _ "[]"]) simp
  next
    case False
    then obtain c where c: "server_step x (enqueue cid) (sv_config s) (hd_addr ?h) cid ev (conn_view s ?h ph) = Some c"
      and stream: "hd_stream (sv_conns s' ! cid) = sc_stream c"
      using ev cid ph by (auto simp: conn_event_def Let_def split: if_splits server_event.splits sum.splits list.splits)
    have nodata: "data = []" if "ev = SDataRead (Inr data) now" for data now
      using False that by (metis list.exhaust)
    obtain n last_received round_start buf where loop: "ph = SLoop n last_received round_start buf"
      using c during ph by (cases ph) (auto simp: server_step_def)
    have "sc_phase (conn_view s ?h ph) = SLoop n last_received round_start buf" by (simp add: loop)
    from server_step_writes [OF c this nodata] conn_event_chans [OF ev] show ?thesis
      by (intro exI [of _ "case ev of SBatch batch now \<Rightarrow> batch | _ \<Rightarrow> []"])
        (auto simp: stream take_batch_def split: server_event.splits)
  qed
qed

text \<open>A step of the message loop writes a keepalive, or the answer to a subscription.\<close>

lemma chan_log_keepalives: "set ms \<subseteq> {MsgKeepalive} \<Longrightarrow> chan_log v ms = []"
  by (induction ms) auto

lemma handle_message_writes:
  assumes "externals_ok x" and "\<And>w. m \<noteq> MsgSubscribe w"
    and "0 < ts_budget (fst (snd (server_handle_message x ask addr m (st, r))))"
  shows "0 < ts_budget st \<and> (\<exists>ms. set ms \<subseteq> {MsgKeepalive} \<and>
    ts_written (fst (snd (server_handle_message x ask addr m (st, r)))) = ts_written st @ wire_bytes x ms)"
proof (cases m)
  case MsgKeepalive
  with assms(1,3) show ?thesis
    by (auto simp: externals_ok.send_message_ok split: if_splits prod.splits intro!: exI [of _ "[MsgKeepalive]"])
qed (use assms in \<open>auto intro: exI [of _ "[]"]\<close>)

lemma handle_step_writes:
  assumes step: "handle_step x cid t s = Some s'" and "externals_ok x"
    and left: "0 < ts_budget (hd_stream (sv_conns s' ! cid))"
  shows "0 < ts_budget (hd_stream (sv_conns s ! cid)) \<and> \<not> answered v (sv_conns s' ! cid) \<and>
    (\<exists>ms. ts_written (hd_stream (sv_conns s' ! cid)) = ts_written (hd_stream (sv_conns s ! cid)) @ wire_bytes x ms \<and>
       chan_log v ms = (if answered v (sv_conns s ! cid)
         then chan_log v (snapshot_messages v (the (hd_reply (sv_conns s ! cid)))) else []) \<and>
       (\<forall>m \<in> set ms. m = MsgKeepalive \<or>
          (\<exists>w reply. hd_reply (sv_conns s ! cid) = Some reply \<and> m \<in> set (snapshot_messages w reply))))"
proof -
  let ?h = "sv_conns s ! cid"
  have cid: "cid < length (sv_conns s)" using step by (simp add: handle_step_def split: if_splits)
  show ?thesis
  proof (cases "hd_phase ?h")
    case (HHandle n now buf)
    then have not_answered: "\<not> answered v ?h" by (simp add: answered_def)
    have quiet: ?thesis if "hd_stream (sv_conns s' ! cid) = hd_stream ?h" "\<not> answered v (sv_conns s' ! cid)"
      using that left not_answered by (intro conjI exI [of _ "[]"]) simp_all
    show ?thesis
    proof (cases "buf = []")
      case True
      with step cid HHandle show ?thesis by (intro quiet) (auto simp: handle_step_def Let_def set_conn_def answered_def)
    next
      case False
      show ?thesis
      proof (cases "message_decode x buf")
        case (Inl e)
        with step cid HHandle False show ?thesis
          by (intro quiet)
            (auto simp: handle_step_def Let_def set_conn_def server_cleanup_def answered_def split: if_splits)
      next
        case (Inr mk)
        obtain m k where mk: "mk = (m, k)" by (cases mk)
        show ?thesis
        proof (cases "\<exists>w. m = MsgSubscribe w")
          case True
          with step cid HHandle False Inr mk show ?thesis
            by (intro quiet) (auto simp: handle_step_def Let_def set_conn_def answered_def)
        next
          case other: False
          let ?r = "server_handle_message x (enqueue cid) (hd_addr ?h) m (hd_stream ?h, sv_queue s)"
          have "hd_stream (sv_conns s' ! cid) = fst (snd ?r)" "\<not> answered v (sv_conns s' ! cid)"
            using step cid HHandle False Inr mk other
            by (cases m; auto simp: handle_step_def Let_def set_conn_def answered_def split: prod.splits)+
          with handle_message_writes [OF assms(2), of m "enqueue cid" "hd_addr ?h" "hd_stream ?h" "sv_queue s"]
            other left not_answered chan_log_keepalives show ?thesis by fastforce
        qed
      qed
    qed
  next
    case (HSubscribe n now buf w)
    then obtain reply where reply: "hd_reply ?h = Some reply"
      using step cid by (auto simp: handle_step_def Let_def split: option.splits)
    let ?st = "snd (send_all x (snapshot_messages w reply) (hd_stream ?h))"
    have h': "hd_stream (sv_conns s' ! cid) = ?st" "\<not> answered v (sv_conns s' ! cid)"
      using step cid HSubscribe reply by (auto simp: handle_step_def Let_def set_conn_def answered_def)
    have "answered v ?h \<longleftrightarrow> w = v" by (simp add: answered_def HSubscribe reply)
    with send_all_left [OF assms(2)] left h' show ?thesis
      by (intro conjI exI [of _ "snapshot_messages w reply"]) (auto simp: reply chan_log_other_snapshot)
  qed (use step cid in \<open>simp_all add: handle_step_def Let_def\<close>)
qed

section \<open>Channels and handlers\<close>

text \<open>A command takes nothing off a channel and closes none.\<close>

lemma sp_delivered_kept:
  assumes "sp_delivered msgs S chans chans'"
  shows "ch_taken (chans' c) = ch_taken (chans c)" and "ch_open (chans' c) = ch_open (chans c)"
  using assms by (cases "c \<in> ran (sp_peers S)"; auto simp: sp_delivered_def ran_def)+

lemma sp_step_kept:
  assumes "sp_step cmd (S, chans) reply (S', chans')"
  shows "ch_taken (chans' c) = ch_taken (chans c) \<and> ch_open (chans' c) = ch_open (chans c)"
  using assms by (cases cmd) (auto simp: Let_def sp_delivered_kept)

lemma actor_step_kept:
  assumes "actor_step s = Some s'" and "chans_inv s"
  shows "ch_taken (sv_chans s' c) = ch_taken (sv_chans s c) \<and> ch_open (sv_chans s' c) = ch_open (sv_chans s c)"
proof -
  obtain cid cmd q reply a chans hs where s: "actor_handle cmd (routing s) = (reply, a, chans)"
    "s' = s\<lparr>sv_queue := q, sv_actor := a, sv_chans := chans, sv_conns := hs\<rparr>"
    by (rule actor_step_cases [OF assms(1)])
  have "sys_inv (routing s)" using assms(2) by (simp add: chans_inv_def)
  from sp_step_kept [OF sys_cmd_spec [OF this s(1)]] show ?thesis by (simp add: s(2))
qed

lemma moves_other:
  assumes "handler_moves tx s s'" and "tx \<noteq> cid"
  shows "sv_conns s' ! cid = sv_conns s ! cid" and "sv_chans s' cid = sv_chans s cid"
  by (rule handler_movesE [OF assms(1)]; use assms(2) in simp)+

lemma moves_length: "handler_moves tx s s' \<Longrightarrow> length (sv_conns s') = length (sv_conns s)"
  by (elim handler_movesE) simp

lemma moves_own:
  assumes "handler_moves cid s s'"
  shows "hd_addr (sv_conns s' ! cid) = hd_addr (sv_conns s ! cid)"
    and "conn_stage s cid \<noteq> Before \<Longrightarrow> conn_stage s' cid \<noteq> Before"
    and "hd_phase (sv_conns s' ! cid) \<noteq> HEnded \<Longrightarrow> ch_open (sv_chans s' cid) = ch_open (sv_chans s cid)"
proof -
  obtain h' new ch where f: "cid < length (sv_conns s)" "sv_conns s' = (sv_conns s)[cid := h']"
    "sv_chans s' = (sv_chans s)(cid := ch)"
    "if hd_phase h' = HEnded then ch = (sv_chans s cid)\<lparr>ch_queue := [], ch_open := False\<rparr>
         else ch_history ch = ch_history (sv_chans s cid) \<and> ch_open ch = ch_open (sv_chans s cid)"
    "hd_addr h' = hd_addr (sv_conns s ! cid)"
    and move: "session_move cid (hd_addr (sv_conns s ! cid)) (conn_stage s cid) (stage_of (hd_phase h')) new
      (sv_peers s) (sv_peers s')"
    by (rule handler_movesE [OF assms])
  show "hd_addr (sv_conns s' ! cid) = hd_addr (sv_conns s ! cid)" using f by simp
  show "hd_phase (sv_conns s' ! cid) \<noteq> HEnded \<Longrightarrow> ch_open (sv_chans s' cid) = ch_open (sv_chans s cid)" using f by auto
  show "conn_stage s cid \<noteq> Before \<Longrightarrow> conn_stage s' cid \<noteq> Before"
    using move f by (cases rule: session_move.cases) auto
qed

text \<open>The channel of a connection stays open until its handler returns.\<close>

definition open_inv :: "server \<Rightarrow> bool" where
  "open_inv s \<longleftrightarrow> (\<forall>cid. (cid < length (sv_conns s) \<longrightarrow> hd_phase (sv_conns s ! cid) \<noteq> HEnded) \<longrightarrow> ch_open (sv_chans s cid))"

lemma moves_open_inv:
  assumes m: "handler_moves tx s s'" and "open_inv s"
  shows "open_inv s'"
  unfolding open_inv_def
proof (intro allI impI)
  fix cid
  assume live: "cid < length (sv_conns s') \<longrightarrow> hd_phase (sv_conns s' ! cid) \<noteq> HEnded"
  show "ch_open (sv_chans s' cid)"
  proof (cases "cid = tx")
    case True
    have "tx < length (sv_conns s)" "hd_phase (sv_conns s ! tx) \<noteq> HEnded"
      using m by (auto simp: handler_moves_def)
    with True live moves_own(3) [OF m] assms(2) show ?thesis by (simp add: open_inv_def moves_length [OF m])
  next
    case False
    with live assms(2) moves_other [OF m, of cid] show ?thesis by (simp add: open_inv_def moves_length [OF m])
  qed
qed

lemma sv_step_open_inv:
  assumes step: "sv_step x s e s'" and inv: "chans_inv s" and "open_inv s"
  shows "open_inv s'"
  using step
proof (cases rule: sv_step.cases)
  case (sv_accept addr budget)
  with assms(3) show ?thesis
    by (auto simp: open_inv_def accept_conn_def nth_append)
next
  case (sv_conn cid ev)
  from moves_open_inv [OF conn_event_moves [OF sv_conn(2)] assms(3)] show ?thesis .
next
  case (sv_handle cid t)
  from moves_open_inv [OF handle_step_moves [OF sv_handle(2)] assms(3)] show ?thesis .
next
  case (sv_return cid)
  from moves_open_inv [OF handler_return_moves [OF sv_return(2)] assms(3)] show ?thesis .
next
  case sv_actor
  from actor_step_same [OF sv_actor(2)] actor_step_kept [OF sv_actor(2) inv] assms(3) show ?thesis
    by (simp add: open_inv_def same_handlers_def)
qed (use assms(3) in \<open>simp_all add: open_inv_def server_shutdown_def\<close>)

lemma sv_run_open_inv: "sv_run x s es rs s' \<Longrightarrow> all_inv s \<Longrightarrow> open_inv s \<Longrightarrow> open_inv s'"
proof (induction rule: sv_run.induct)
  case (sv_cons s e s' es rs s'')
  have "chans_inv s" using sv_cons.prems(1) by (simp add: all_inv_def)
  with sv_cons sv_step_open_inv [OF sv_cons.hyps(1)] sv_step_all_inv [OF sv_cons.hyps(1)] show ?case by blast
qed simp

lemma open_inv_init: "open_inv (server_init config)"
  by (simp add: open_inv_def server_init_def new_channel_def)

section \<open>The bytes a subscriber is sent\<close>

text \<open>
  The connection \<open>cid\<close> was answered with \<open>rs\<close> when it had written \<open>w\<close> and taken \<open>taken\<close> off its
  channel: either it has not passed the answer on, or it wrote messages that say of the VNI
  what the answer and the messages it has taken since say.
\<close>

definition stream_inv :: "externals \<Rightarrow> socket_addr \<Rightarrow> vni \<Rightarrow> chan_id \<Rightarrow> (destination \<times> next_hop) list \<Rightarrow>
    u8 list \<Rightarrow> message list \<Rightarrow> server \<Rightarrow> bool" where
  "stream_inv x p v cid rs w taken s \<longleftrightarrow>
     cid < length (sv_conns s) \<and> conn_stage s cid \<noteq> Before \<and> hd_addr (sv_conns s ! cid) = p \<and>
     (let h = sv_conns s ! cid in
      0 < ts_budget (hd_stream h) \<longrightarrow>
        (if answered v h
         then hd_reply h = Some (RoutesReply rs) \<and> ts_written (hd_stream h) = w \<and> ch_taken (sv_chans s cid) = taken
         else \<exists>ms new. ch_taken (sv_chans s cid) = taken @ new \<and> ts_written (hd_stream h) = w @ wire_bytes x ms \<and>
           chan_log v ms = map (Pair Add) rs @ chan_log v new \<and> (\<forall>m \<in> set ms. sound_message m)))"

text \<open>A step of the handler that, unless a write fails, writes \<open>ms\<close>, takes \<open>new\<close> and ends unanswered.\<close>

definition writes_on :: "externals \<Rightarrow> vni \<Rightarrow> chan_id \<Rightarrow> server \<Rightarrow> server \<Rightarrow> message list \<Rightarrow> message list \<Rightarrow> bool" where
  "writes_on x v cid s s' ms new \<longleftrightarrow>
     0 < ts_budget (hd_stream (sv_conns s ! cid)) \<and> \<not> answered v (sv_conns s' ! cid) \<and>
     ch_taken (sv_chans s' cid) = ch_taken (sv_chans s cid) @ new \<and>
     ts_written (hd_stream (sv_conns s' ! cid)) = ts_written (hd_stream (sv_conns s ! cid)) @ wire_bytes x ms \<and>
     chan_log v ms = (if answered v (sv_conns s ! cid)
       then chan_log v (snapshot_messages v (the (hd_reply (sv_conns s ! cid)))) else []) @ chan_log v new \<and>
     (\<forall>m \<in> set ms. m = MsgKeepalive \<or> m \<in> set new \<or>
        (\<exists>w reply. hd_reply (sv_conns s ! cid) = Some reply \<and> m \<in> set (snapshot_messages w reply)))"

lemma conn_event_writes_on:
  assumes ev: "conn_event x cid ev s = Some s'" and during: "conn_stage s cid \<noteq> Before"
    and left: "0 < ts_budget (hd_stream (sv_conns s' ! cid))"
  shows "\<exists>ms new. writes_on x v cid s s' ms new"
proof -
  have unanswered: "\<not> answered v (sv_conns s ! cid)" "\<not> answered v (sv_conns s' ! cid)"
    using conn_event_phases(2,3) [OF ev] by (auto simp: answered_def)
  obtain ms where "ch_taken (sv_chans s' cid) = ch_taken (sv_chans s cid) @ ms"
    "0 < ts_budget (hd_stream (sv_conns s ! cid))"
    "ts_written (hd_stream (sv_conns s' ! cid)) = ts_written (hd_stream (sv_conns s ! cid)) @ wire_bytes x ms"
    using conn_event_writes [OF ev during] left by blast
  with unanswered have "writes_on x v cid s s' ms ms" by (simp add: writes_on_def)
  then show ?thesis by blast
qed

lemma handle_step_writes_on:
  assumes step: "handle_step x cid t s = Some s'" and "externals_ok x"
    and left: "0 < ts_budget (hd_stream (sv_conns s' ! cid))"
  shows "\<exists>ms new. writes_on x v cid s s' ms new"
proof -
  obtain ms where "ts_written (hd_stream (sv_conns s' ! cid)) = ts_written (hd_stream (sv_conns s ! cid)) @ wire_bytes x ms"
    "chan_log v ms = (if answered v (sv_conns s ! cid)
       then chan_log v (snapshot_messages v (the (hd_reply (sv_conns s ! cid)))) else [])"
    "\<forall>m \<in> set ms. m = MsgKeepalive \<or>
       (\<exists>w reply. hd_reply (sv_conns s ! cid) = Some reply \<and> m \<in> set (snapshot_messages w reply))"
    using handle_step_writes [OF assms, of v] by blast
  with handle_step_writes [OF assms, of v] handle_step_chans [OF step] have "writes_on x v cid s s' ms []"
    unfolding writes_on_def by simp
  then show ?thesis by blast
qed

lemma handler_return_writes_on:
  assumes "handler_return cid s = Some s'" and left: "0 < ts_budget (hd_stream (sv_conns s' ! cid))"
  shows "\<exists>ms new. writes_on x v cid s s' ms new"
proof -
  have "hd_stream (sv_conns s' ! cid) = hd_stream (sv_conns s ! cid)"
    "ch_taken (sv_chans s' cid) = ch_taken (sv_chans s cid)"
    "\<not> answered v (sv_conns s ! cid)" "\<not> answered v (sv_conns s' ! cid)"
    using assms(1) by (auto simp: handler_return_def Let_def set_conn_def answered_def
        split: if_splits handler_phase.splits server_phase.splits)
  with left have "writes_on x v cid s s' [] []" by (simp add: writes_on_def wire_bytes_simps(1))
  then show ?thesis by blast
qed

lemma writes_on_sound:
  assumes "writes_on x v cid s s' ms new" and "cid < length (sv_conns s)" and "sound_inv s" "sound_inv s'" and "m \<in> set ms"
  shows "sound_message m"
proof -
  consider "m = MsgKeepalive" | "m \<in> set new"
    | u reply where "hd_reply (sv_conns s ! cid) = Some reply" "m \<in> set (snapshot_messages u reply)"
    using assms(1,5) unfolding writes_on_def by blast
  then show ?thesis
  proof cases
    case 2
    then have "m \<in> set (ch_history (sv_chans s' cid))" using assms(1) by (simp add: writes_on_def ch_history_def)
    with assms(4) show ?thesis by (auto simp: sound_inv_def)
  next
    case 3
    with assms(2,3) show ?thesis by (force simp: sound_inv_def snapshot_messages_def split: routing_reply.splits)
  qed simp
qed

lemma stream_inv_writes:
  assumes inv: "stream_inv x p v cid rs w taken s" and m: "handler_moves cid s s'" and sound: "sound_inv s" "sound_inv s'"
    and writes: "0 < ts_budget (hd_stream (sv_conns s' ! cid)) \<Longrightarrow> \<exists>ms new. writes_on x v cid s s' ms new"
  shows "stream_inv x p v cid rs w taken s'"
proof -
  let ?h = "sv_conns s ! cid" and ?h' = "sv_conns s' ! cid"
  have "\<not> answered v ?h' \<and> (\<exists>ms new. ch_taken (sv_chans s' cid) = taken @ new \<and>
      ts_written (hd_stream ?h') = w @ wire_bytes x ms \<and>
      chan_log v ms = map (Pair Add) rs @ chan_log v new \<and> (\<forall>m \<in> set ms. sound_message m))"
    if left: "0 < ts_budget (hd_stream ?h')"
  proof -
    obtain ms new where ms: "writes_on x v cid s s' ms new" using writes [OF left] by blast
    have "cid < length (sv_conns s)" using inv by (simp add: stream_inv_def)
    from writes_on_sound [OF ms this sound] have ok: "\<And>m. m \<in> set ms \<Longrightarrow> sound_message m" .
    show ?thesis
    proof (cases "answered v ?h")
      case True
      with inv ms have "hd_reply ?h = Some (RoutesReply rs)" "ts_written (hd_stream ?h) = w"
        "ch_taken (sv_chans s cid) = taken"
        by (simp_all add: stream_inv_def Let_def writes_on_def)
      with ms True show ?thesis
        by (intro conjI exI [of _ ms] exI [of _ new]) (simp_all add: chan_log_own_snapshot writes_on_def ok)
    next
      case False
      with inv ms obtain ms0 new0 where "ch_taken (sv_chans s cid) = taken @ new0"
        "ts_written (hd_stream ?h) = w @ wire_bytes x ms0" "chan_log v ms0 = map (Pair Add) rs @ chan_log v new0"
        "\<forall>m \<in> set ms0. sound_message m"
        by (auto simp: stream_inv_def Let_def writes_on_def)
      with ms False show ?thesis
        by (intro conjI exI [of _ "ms0 @ ms"] exI [of _ "new0 @ new"]) (auto simp: wire_bytes_simps(3) writes_on_def ok)
    qed
  qed
  moreover have "cid < length (sv_conns s')" "conn_stage s' cid \<noteq> Before" "hd_addr ?h' = p"
    using inv moves_length [OF m] moves_own(1,2) [OF m] by (simp_all add: stream_inv_def)
  ultimately show ?thesis by (simp add: stream_inv_def Let_def)
qed

text \<open>Steps of others leave the connection alone.\<close>

lemma stream_inv_other:
  assumes "stream_inv x p v cid rs w taken s" and "cid < length (sv_conns s')"
    and "sv_conns s' ! cid = (sv_conns s ! cid)\<lparr>hd_signalled := b\<rparr> \<or> sv_conns s' ! cid = sv_conns s ! cid"
    and "ch_taken (sv_chans s' cid) = ch_taken (sv_chans s cid)"
  shows "stream_inv x p v cid rs w taken s'"
  using assms by (auto simp: stream_inv_def Let_def answered_def)

lemma actor_step_stream_inv:
  assumes a: "actor_step s = Some s'" and inv: "stream_inv x p v cid rs w taken s" and all: "all_inv s"
    and other: "\<And>reply. SysCmd (CmdSubscribe p v) reply \<notin> set (routing_events s ActorStep)"
  shows "stream_inv x p v cid rs w taken s'"
proof -
  obtain tx cmd q reply a chans hs where s: "sv_queue s = (tx, cmd) # q"
    "actor_handle cmd (routing s) = (reply, a, chans)"
    "s' = s\<lparr>sv_queue := q, sv_actor := a, sv_chans := chans, sv_conns := hs\<rparr>"
    and hs: "hs = (case reply of RoutesReply rs \<Rightarrow> (sv_conns s)[tx := (sv_conns s ! tx)\<lparr>hd_reply := Some reply\<rparr>]
               | _ \<Rightarrow> sv_conns s)"
    by (rule actor_step_cases [OF a])
  have cid: "cid < length (sv_conns s)" and p: "hd_addr (sv_conns s ! cid) = p"
    using inv by (simp_all add: stream_inv_def)
  have taken: "ch_taken (sv_chans s' cid) = ch_taken (sv_chans s cid)"
    using actor_step_kept [OF a] all by (simp add: all_inv_def)
  show ?thesis
  proof (cases "tx = cid \<and> (\<exists>rs. reply = RoutesReply rs)")
    case False
    then have "sv_conns s' ! cid = sv_conns s ! cid" by (cases reply) (auto simp: s(3) hs)
    moreover have "cid < length (sv_conns s')" using cid by (simp add: s(3) hs split: routing_reply.split)
    ultimately show ?thesis using stream_inv_other [OF inv, of s'] taken by blast
  next
    case True
    then obtain q' u where cmd: "cmd = CmdSubscribe q' u"
      using other_replies [of cmd "routing s" _ "(a, chans)"] s(2) by blast
    have "awaits_reply cid (sv_conns s ! cid) (sv_queue s)" using all cid by (simp add: all_inv_def replies_inv_def)
    then obtain n now buf where ph: "hd_phase (sv_conns s ! cid) = HSubscribe n now buf u" and q': "q' = p"
      using True by (auto simp: awaits_reply_def s(1) cmd p split: handler_phase.splits)
    have "u \<noteq> v" using other [of reply] s(1,2) by (auto simp: cmd q')
    with ph have "\<not> answered v (sv_conns s ! cid)" "\<not> answered v (sv_conns s' ! cid)"
      using True cid by (auto simp: answered_def s(3) hs)
    with inv True cid taken show ?thesis by (auto simp: stream_inv_def Let_def s(3) hs)
  qed
qed

lemma sv_step_stream_inv:
  assumes step: "sv_step x s e s'" and x: "externals_ok x" and inv: "stream_inv x p v cid rs w taken s" and all: "all_inv s"
    and sound: "sound_inv s"
    and other: "\<And>reply. SysCmd (CmdSubscribe p v) reply \<notin> set (routing_events s e)"
  shows "stream_inv x p v cid rs w taken s'"
proof -
  have cid: "cid < length (sv_conns s)" and st: "conn_stage s cid \<noteq> Before" using inv by (simp_all add: stream_inv_def)
  have sound': "sound_inv s'" using sv_step_sound_inv [OF step x sound] all by (simp add: all_inv_def)
  have others: ?thesis if m: "handler_moves tx s s'" and "tx \<noteq> cid" for tx
    using stream_inv_other [OF inv, of s'] moves_other [OF that] moves_length [OF m] cid by simp
  show ?thesis
    using step
  proof (cases rule: sv_step.cases)
    case (sv_accept addr budget)
    then have "cid < length (sv_conns s')" "sv_conns s' ! cid = sv_conns s ! cid" "sv_chans s' = sv_chans s"
      using cid by (simp_all add: accept_conn_def nth_append)
    then show ?thesis using stream_inv_other [OF inv, of s'] by simp
  next
    case (sv_conn tx ev)
    note m = conn_event_moves [OF sv_conn(2)]
    show ?thesis
    proof (cases "tx = cid")
      case True
      then have ev: "conn_event x cid ev s = Some s'" using sv_conn by simp
      from stream_inv_writes [OF inv conn_event_moves [OF ev] sound sound' conn_event_writes_on [OF ev st]] show ?thesis .
    qed (rule others [OF m])
  next
    case (sv_handle tx t)
    note m = handle_step_moves [OF sv_handle(2)]
    show ?thesis
    proof (cases "tx = cid")
      case True
      then have hs: "handle_step x cid t s = Some s'" using sv_handle by simp
      from stream_inv_writes [OF inv handle_step_moves [OF hs] sound sound' handle_step_writes_on [OF hs x]] show ?thesis .
    qed (rule others [OF m])
  next
    case (sv_return tx)
    note m = handler_return_moves [OF sv_return(2)]
    show ?thesis
    proof (cases "tx = cid")
      case True
      then have ret: "handler_return cid s = Some s'" using sv_return by simp
      from stream_inv_writes [OF inv handler_return_moves [OF ret] sound sound' handler_return_writes_on [OF ret]] show ?thesis .
    qed (rule others [OF m])
  next
    case sv_actor
    from actor_step_stream_inv [OF sv_actor(2) inv all] other sv_actor(1) show ?thesis by blast
  next
    case sv_shutdown
    then have "sv_conns s' ! cid = (sv_conns s ! cid)\<lparr>hd_signalled := True\<rparr>" "cid < length (sv_conns s')"
      using cid by (simp_all add: server_shutdown_def)
    with stream_inv_other [OF inv, of s' True] sv_shutdown show ?thesis by (simp add: server_shutdown_def)
  qed (use stream_inv_other [OF inv, of s'] cid in simp_all)
qed

lemma sv_run_stream_inv:
  "sv_run x s es ev s' \<Longrightarrow> externals_ok x \<Longrightarrow> stream_inv x p v cid rs w taken s \<Longrightarrow> all_inv s \<Longrightarrow> sound_inv s \<Longrightarrow>
     \<forall>reply. SysCmd (CmdSubscribe p v) reply \<notin> set ev \<Longrightarrow> stream_inv x p v cid rs w taken s'"
proof (induction rule: sv_run.induct)
  case (sv_cons s e s' es ev s'')
  have "sound_inv s'" using sv_step_sound_inv [OF sv_cons.hyps(1)] sv_cons.prems by (simp add: all_inv_def)
  moreover have "stream_inv x p v cid rs w taken s'"
    by (rule sv_step_stream_inv [OF sv_cons.hyps(1)]) (use sv_cons.prems in auto)
  ultimately show ?case
    using sv_cons.IH sv_cons.prems sv_step_all_inv [OF sv_cons.hyps(1)] by auto
qed simp

section \<open>Which events a live connection excludes\<close>

lemma ended_stays:
  assumes "sv_step x s e s'" and "cid < length (sv_conns s)" and ended: "hd_phase (sv_conns s ! cid) = HEnded"
  shows "cid < length (sv_conns s') \<and> hd_phase (sv_conns s' ! cid) = HEnded"
proof -
  have moved: ?thesis if m: "handler_moves tx s s'" for tx
  proof -
    have "tx \<noteq> cid" using m ended by (auto simp: handler_moves_def)
    with moves_other(1) [OF m] moves_length [OF m] assms(2) ended show ?thesis by simp
  qed
  show ?thesis
    using assms(1)
  proof (cases rule: sv_step.cases)
    case (sv_accept addr budget)
    with assms(2) ended show ?thesis by (simp add: accept_conn_def nth_append)
  next
    case (sv_conn tx ev)
    from moved [OF conn_event_moves [OF sv_conn(2)]] show ?thesis .
  next
    case (sv_handle tx t)
    from moved [OF handle_step_moves [OF sv_handle(2)]] show ?thesis .
  next
    case (sv_return tx)
    from moved [OF handler_return_moves [OF sv_return(2)]] show ?thesis .
  next
    case sv_actor
    from actor_step_same [OF sv_actor(2)] assms(2) ended show ?thesis by (simp add: same_handlers_def)
  qed (use assms(2) ended in \<open>simp_all add: server_shutdown_def\<close>)
qed

lemma closes_ended:
  assumes "sv_step x s e s'" and "SysClose cid \<in> set (routing_events s e)"
  shows "cid < length (sv_conns s') \<and> hd_phase (sv_conns s' ! cid) = HEnded"
proof -
  have "e = Return cid" using assms(2) by (cases "(s, e)" rule: routing_events.cases) (auto split: list.splits)
  with assms(1) have "handler_return cid s = Some s'" by (auto elim: sv_step_elims)
  then show ?thesis
    by (auto simp: handler_return_def Let_def set_conn_def split: if_splits handler_phase.splits server_phase.splits)
qed

lemma ended_stays_run:
  "sv_run x s es ev s' \<Longrightarrow> cid < length (sv_conns s) \<Longrightarrow> hd_phase (sv_conns s ! cid) = HEnded \<Longrightarrow>
     hd_phase (sv_conns s' ! cid) = HEnded"
  by (induction rule: sv_run.induct) (auto dest: ended_stays)

lemma live_not_closed:
  "sv_run x s es ev s' \<Longrightarrow> hd_phase (sv_conns s' ! cid) \<noteq> HEnded \<Longrightarrow> SysClose cid \<notin> set ev"
proof (induction rule: sv_run.induct)
  case (sv_cons s e s' es ev s'')
  then show ?case using closes_ended [OF sv_cons.hyps(1)] ended_stays_run [OF sv_cons.hyps(2)] by auto
qed simp

text \<open>A connection the actor was told of is not announced to it again.\<close>

lemma heard_not_connected:
  "sv_run x s es ev s' \<Longrightarrow> \<not> unheard s cid \<Longrightarrow> SysCmd (PeerConnected p cid) reply \<notin> set ev"
proof (induction rule: sv_run.induct)
  case (sv_cons s e s' es ev s'')
  have "SysCmd (PeerConnected p cid) reply \<notin> set (routing_events s e)"
    using sv_cons.prems
    by (cases "(s, e)" rule: routing_events.cases) (auto simp: unheard_def eq_commute [of _ "sv_queue s"] split: list.splits)
  with sv_cons sv_step_unheard [OF sv_cons.hyps(1)] show ?case by auto
qed simp


end
