(* ===== verification/Subscriptions.thy ===== *)
theory Subscriptions
  imports Server_Streams
begin

text \<open>
  One subscription in the life of a connection, from the start of the server on: which
  connection a queued command and a registered channel belong to, what a connection writes
  before its subscription is answered, and with \<open>Server_Streams\<close> what it writes afterwards.
\<close>

section \<open>Which connection a command belongs to\<close>

fun command_peer :: "routing_command \<Rightarrow> socket_addr option" where
  "command_peer (PeerConnected p tx) = Some p"
| "command_peer (PeerDisconnected p) = Some p"
| "command_peer (CmdSubscribe p v) = Some p"
| "command_peer (CmdUnsubscribe p v) = Some p"
| "command_peer (CmdUpdate p act v d h) = Some p"
| "command_peer GetStats = None"

text \<open>
  A queued command names the address of the connection that put it there, and a PeerConnected
  the channel of that connection, which has left the handshake.
\<close>

definition tagged :: "server \<Rightarrow> chan_id \<times> routing_command \<Rightarrow> bool" where
  "tagged s e \<longleftrightarrow> fst e < length (sv_conns s) \<and> conn_stage s (fst e) \<noteq> Before \<and>
     command_peer (snd e) = Some (hd_addr (sv_conns s ! fst e)) \<and>
     (\<forall>p c. snd e = PeerConnected p c \<longrightarrow> c = fst e)"

text \<open>In the queue nothing a connection sends stands before its PeerConnected.\<close>

fun in_order :: "command_queue \<Rightarrow> bool" where
  "in_order [] \<longleftrightarrow> True"
| "in_order ((tx, cmd) # q) \<longleftrightarrow> tx \<notin> set (connects q) \<and> in_order q"

lemma in_order_append [simp]:
  "in_order (q @ q') \<longleftrightarrow> in_order q \<and> in_order q' \<and> fst ` set q \<inter> set (connects q') = {}"
  by (induction q rule: in_order.induct) auto

definition tags_inv :: "server \<Rightarrow> bool" where
  "tags_inv s \<longleftrightarrow> (\<forall>e \<in> set (sv_queue s). tagged s e) \<and> in_order (sv_queue s) \<and>
     (\<forall>p c. hm_get (a_peers (sv_actor s)) p = Some c \<longrightarrow> c < length (sv_conns s) \<and> hd_addr (sv_conns s ! c) = p)"

lemma tags_inv_init: "tags_inv (server_init config)"
  by (simp add: tags_inv_def server_init_def actor_new_def hm_get_def)

lemma session_move_tagged:
  assumes "session_move cid addr st st' new ps ps'" and "e \<in> set new"
  shows "fst e = cid \<and> st' \<noteq> Before \<and> command_peer (snd e) = Some addr \<and> (\<forall>p c. snd e = PeerConnected p c \<longrightarrow> c = cid)"
  using assms
proof (cases rule: session_move.cases)
  case (talk cmd)
  with assms(2) show ?thesis by (cases cmd) auto
qed auto

lemma moves_tagged: "handler_moves cid s s' \<Longrightarrow> tagged s e \<Longrightarrow> tagged s' e"
proof -
  assume m: "handler_moves cid s s'" and t: "tagged s e"
  show "tagged s' e"
  proof (cases "fst e = cid")
    case True
    with t moves_own(1,2) [OF m] moves_length [OF m] show ?thesis by (simp add: tagged_def)
  next
    case False
    with t moves_other(1) [OF m, of "fst e"] moves_length [OF m] show ?thesis by (simp add: tagged_def)
  qed
qed

lemma moves_tags_inv:
  assumes m: "handler_moves cid s s'" and inv: "tags_inv s"
  shows "tags_inv s'"
proof -
  obtain h' new where h': "sv_conns s' = (sv_conns s)[cid := h']" "cid < length (sv_conns s)"
    and queue: "sv_queue s' = sv_queue s @ new" and addr: "hd_addr h' = hd_addr (sv_conns s ! cid)"
    and move: "session_move cid (hd_addr (sv_conns s ! cid)) (conn_stage s cid) (stage_of (hd_phase h')) new
      (sv_peers s) (sv_peers s')"
    and actor: "sv_actor s' = sv_actor s"
    by (rule handler_movesE [OF m])
  have "tagged s' e" if "e \<in> set new" for e
    using session_move_tagged [OF move that] h' addr by (simp add: tagged_def)
  moreover have "tagged s' e" if "e \<in> set (sv_queue s)" for e
    using moves_tagged [OF m] inv that by (simp add: tags_inv_def)
  moreover have "in_order (sv_queue s')"
  proof -
    have "in_order new \<and> (connects new = [] \<or> connects new = [cid] \<and> conn_stage s cid = Before)"
      using move by (cases rule: session_move.cases) (auto simp: connects_talk)
    moreover have "cid \<notin> fst ` set (sv_queue s)" if "conn_stage s cid = Before"
      using inv that by (auto simp: tags_inv_def tagged_def)
    ultimately show ?thesis using inv by (force simp: queue tags_inv_def)
  qed
  ultimately show ?thesis
    using inv h' addr actor by (auto simp: tags_inv_def queue nth_list_update)
qed

lemma same_handlers_tagged: "same_handlers s s' \<Longrightarrow> tagged s' e \<longleftrightarrow> tagged s e"
  by (auto simp: same_handlers_def tagged_def)

lemma same_handlers_tags_inv:
  assumes same: "same_handlers s s'" and "tags_inv s" and "sv_queue s' = sv_queue s"
    and "hm_get (a_peers (sv_actor s')) = hm_get (a_peers (sv_actor s))"
  shows "tags_inv s'"
  using assms same_handlers_tagged [OF same] by (auto simp: tags_inv_def same_handlers_def)

lemma actor_step_tags_inv:
  assumes a: "actor_step s = Some s'" and chans: "chans_inv s" and inv: "tags_inv s"
  shows "tags_inv s'"
proof -
  obtain cid cmd q reply a chans hs where s: "sv_queue s = (cid, cmd) # q"
    "actor_handle cmd (routing s) = (reply, a, chans)"
    "s' = s\<lparr>sv_queue := q, sv_actor := a, sv_chans := chans, sv_conns := hs\<rparr>"
    by (rule actor_step_cases [OF a])
  note same = actor_step_same [OF a]
  have "sys_inv (routing s)" using chans by (simp add: chans_inv_def)
  note sp = sys_cmd_spec [OF this s(2)]
  have head: "tagged s (cid, cmd)" using inv by (simp add: tags_inv_def s(1))
  have peers: "c < length (sv_conns s) \<and> hd_addr (sv_conns s ! c) = p" if "hm_get (a_peers a) p = Some c" for p c
    using sp_step_peers [OF sp, of p c] that inv head by (auto simp: actor_abs_def tags_inv_def tagged_def)
  have "\<forall>p c. hm_get (a_peers (sv_actor s')) p = Some c \<longrightarrow> c < length (sv_conns s') \<and> hd_addr (sv_conns s' ! c) = p"
    using peers same by (simp add: s(3) same_handlers_def)
  moreover have "\<forall>e \<in> set (sv_queue s'). tagged s' e" "in_order (sv_queue s')"
    using inv same_handlers_tagged [OF same] by (simp_all add: tags_inv_def s(1)) (simp_all add: s(3))
  ultimately show ?thesis by (simp add: tags_inv_def)
qed

lemma sv_step_tags_inv:
  assumes step: "sv_step x s e s'" and chans: "chans_inv s" and inv: "tags_inv s"
  shows "tags_inv s'"
  using step
proof (cases rule: sv_step.cases)
  case (sv_accept addr budget)
  have "tagged s' e" if "tagged s e" for e using that by (auto simp: sv_accept tagged_def accept_conn_def nth_append)
  with inv show ?thesis by (auto simp: sv_accept tags_inv_def accept_conn_def nth_append less_Suc_eq)
next
  case (sv_conn cid ev)
  from moves_tags_inv [OF conn_event_moves [OF sv_conn(2)] inv] show ?thesis .
next
  case (sv_handle cid t)
  from moves_tags_inv [OF handle_step_moves [OF sv_handle(2)] inv] show ?thesis .
next
  case (sv_return cid)
  from moves_tags_inv [OF handler_return_moves [OF sv_return(2)] inv] show ?thesis .
next
  case sv_actor
  from actor_step_tags_inv [OF sv_actor(2) chans inv] show ?thesis .
next
  case (sv_rehash a)
  have "same_handlers s s'" by (simp add: same_handlers_def sv_rehash)
  moreover have "hm_get (a_peers a) = hm_get (a_peers (sv_actor s))" using sv_rehash by (simp add: actor_abs_def)
  ultimately show ?thesis using same_handlers_tags_inv [OF _ inv] by (simp add: sv_rehash)
qed (rule same_handlers_tags_inv [OF _ inv], simp_all add: same_handlers_def server_shutdown_def)+

text \<open>The channels the actor holds do not multiply.\<close>

lemma sys_run_registered:
  "sys_run r es r' \<Longrightarrow> sys_inv r \<Longrightarrow> hm_get (a_peers (fst r')) p = Some c \<Longrightarrow>
     \<forall>reply. SysCmd (PeerConnected p c) reply \<notin> set es \<Longrightarrow> hm_get (a_peers (fst r)) p = Some c"
proof (induction rule: sys_run.induct)
  case (run_cons r e r' es r'')
  have inv: "sys_inv r'" by (rule sys_step_inv [OF run_cons.hyps(1) run_cons.prems(1)])
  with run_cons have reg: "hm_get (a_peers (fst r')) p = Some c" by simp
  from run_cons.hyps(1) show ?case
  proof (cases rule: sys_step.cases)
    case (sys_cmd cmd reply)
    obtain a chans a' chans' where r: "r = (a, chans)" "r' = (a', chans')" by (cases r, cases r')
    have "sp_step cmd (actor_abs a, chans) reply (actor_abs a', chans')"
      by (rule sys_cmd_spec) (use sys_cmd(3) run_cons.prems(1) r in simp_all)
    from sp_step_peers [OF this, of p c] reg run_cons.prems(3) sys_cmd(1) show ?thesis by (auto simp: actor_abs_def r)
  next
    case (sys_rehash a' a chans)
    then have "hm_get (a_peers a') = hm_get (a_peers a)" by (simp add: actor_abs_def)
    with reg sys_rehash show ?thesis by simp
  qed (use reg in simp_all)
qed simp

section \<open>Splitting a run\<close>

text \<open>A command the actor handled is a step of its own.\<close>

lemma sv_run_split:
  "sv_run x s es ev s' \<Longrightarrow> ev = ev1 @ SysCmd cmd reply # ev2 \<Longrightarrow>
     \<exists>es1 es2 s1. sv_run x s es1 ev1 s1 \<and> sv_run x s1 (ActorStep # es2) (SysCmd cmd reply # ev2) s'"
proof (induction arbitrary: ev1 rule: sv_run.induct)
  case (sv_nil s)
  then show ?case by simp
next
  case (sv_cons s e s' es rs s'')
  from sv_cons.prems consider (later) ev3 where "ev1 = routing_events s e @ ev3" "rs = ev3 @ SysCmd cmd reply # ev2"
    | (now) ev3 where "routing_events s e = ev1 @ SysCmd cmd reply # ev3" "ev2 = ev3 @ rs"
    by (auto simp: append_eq_append_conv2 append_eq_Cons_conv)
  then show ?case
  proof cases
    case later
    from sv_cons.IH [OF later(2)] obtain es1 es2 s1 where
      "sv_run x s' es1 ev3 s1" "sv_run x s1 (ActorStep # es2) (SysCmd cmd reply # ev2) s''"
      by blast
    with sv_run.sv_cons [OF sv_cons.hyps(1)] later(1) show ?thesis by blast
  next
    case now
    then have "SysCmd cmd reply \<in> set (routing_events s e)" by simp
    then have e: "e = ActorStep" and "ev1 = [] \<and> ev3 = []"
      using now(1) by (cases "(s, e)" rule: routing_events.cases; auto simp: Cons_eq_append_conv split: list.splits)+
    with sv_run.sv_cons [OF sv_cons.hyps(1,2)] now sv_nil [of x s] show ?thesis by fastforce
  qed
qed

text \<open>The first command the actor handles is at the head of its queue.\<close>

lemma sv_run_actor:
  assumes "sv_run x s (ActorStep # es) (SysCmd cmd reply # ev) s'"
  obtains tx q s1 where "sv_queue s = (tx, cmd) # q" and "sv_step x s ActorStep s1" and "sv_run x s1 es ev s'"
    and "reply = fst (actor_handle cmd (routing s))"
proof -
  obtain rs s1 where step: "sv_step x s ActorStep s1" and run: "sv_run x s1 es rs s'"
    and ev: "SysCmd cmd reply # ev = routing_events s ActorStep @ rs"
    using assms by (auto elim: sv_run_Cons)
  from step have "actor_step s = Some s1" by (auto elim: sv_step_elims)
  then obtain tx cmd' q where q: "sv_queue s = (tx, cmd') # q" by (auto elim: actor_step_cases)
  with ev run step show ?thesis by (intro that) auto
qed

section \<open>What a peer says of a VNI\<close>

fun command_vni :: "routing_command \<Rightarrow> vni option" where
  "command_vni (CmdSubscribe p v) = Some v"
| "command_vni (CmdUnsubscribe p v) = Some v"
| "command_vni (CmdUpdate p act v d h) = Some v"
| "command_vni _ = None"

fun concerns :: "socket_addr \<Rightarrow> vni \<Rightarrow> sys_event \<Rightarrow> bool" where
  "concerns p v (SysCmd cmd reply) \<longleftrightarrow> command_peer cmd = Some p \<and> command_vni cmd = Some v"
| "concerns p v _ \<longleftrightarrow> False"

lemma filter_one:
  assumes "filter P xs = [y]"
  obtains xs1 xs2 where "xs = xs1 @ y # xs2" and "filter P xs1 = []" and "filter P xs2 = []"
  using assms by (auto simp: filter_eq_Cons_iff)

text \<open>A peer that does not subscribe to a VNI is sent nothing of it.\<close>

lemma sp_delivered_silent:
  assumes del: "sp_delivered msgs S chans chans'" and alone: "\<And>q. sp_peers S q = Some c \<Longrightarrow> q = p"
    and none: "chan_log v (msgs p) = []" and before: "chan_log v (ch_history (chans c)) = []"
  shows "chan_log v (ch_history (chans' c)) = []"
proof (cases "c \<in> ran (sp_peers S)")
  case True
  then obtain q where "sp_peers S q = Some c" by (auto simp: ran_def)
  then have "chans' c = push_all (msgs p) (chans c)" using del alone by (auto simp: sp_delivered_def)
  moreover have "chan_log v (ch_history (push_all ms ch)) = []"
    if "chan_log v ms = []" "chan_log v (ch_history ch) = []" for ms ch
    using that
  proof (induction ms arbitrary: ch)
    case (Cons m ms)
    have "update_of v m = None" "chan_log v ms = []" using Cons.prems(1) by (simp_all split: option.splits)
    moreover from this have "chan_log v (ch_history (ch_push m ch)) = []"
      using Cons.prems(2) by (auto simp: ch_push_def ch_history_def)
    ultimately show ?case using Cons.IH by simp
  qed simp
  ultimately show ?thesis using none before by simp
next
  case False
  with del before show ?thesis by (simp add: sp_delivered_def)
qed

lemma withdraw_msgs_silent: "(p, v) \<notin> sp_subs S \<Longrightarrow> chan_log v (sp_withdraw_msgs ks S p) = []"
  by (induction ks) (auto simp: sp_withdraw_msgs_def key_message_def)

lemma cmd_silent:
  assumes sp: "sp_step cmd (S, chans) reply (S', chans')" and alone: "\<And>q. sp_peers S q = Some c \<Longrightarrow> q = p"
    and out: "(p, v) \<notin> sp_subs S" and cmd: "cmd \<noteq> CmdSubscribe p v" and before: "chan_log v (ch_history (chans c)) = []"
  shows "chan_log v (ch_history (chans' c)) = []" and "(p, v) \<notin> sp_subs S'"
proof -
  show "(p, v) \<notin> sp_subs S'" using sp out cmd by (cases cmd) (auto simp: Let_def)
  show "chan_log v (ch_history (chans' c)) = []"
  proof (cases cmd)
    case (PeerDisconnected q)
    then obtain ks where del: "sp_delivered (sp_withdraw_msgs ks (sp_evict {q} S)) (sp_evict {q} S) chans chans'"
      using sp by (auto simp: Let_def)
    have "chan_log v (sp_withdraw_msgs ks (sp_evict {q} S) p) = []"
      by (rule withdraw_msgs_silent) (use out in simp)
    with alone show ?thesis
      by (intro sp_delivered_silent [OF del _ _ before, of p]) (simp_all split: if_splits)
  next
    case (CmdUpdate q act w d h)
    then have del: "sp_delivered (sp_update_msgs q act (w, d, h) S) S chans chans'" using sp by (simp add: Let_def)
    have "chan_log v (sp_update_msgs q act (w, d, h) S p) = []"
      using out by (auto simp: sp_update_msgs_def key_message_def)
    from sp_delivered_silent [OF del alone this before] show ?thesis .
  qed (use sp before in \<open>simp_all add: Let_def\<close>)
qed

section \<open>What a connection writes before\<close>

text \<open>The messages a connection has written begin with the handshake.\<close>

fun opened :: "handler_phase \<Rightarrow> message list \<Rightarrow> bool" where
  "opened (HWait SHello) ms \<longleftrightarrow> ms = []"
| "opened (HWait (SKeepalive k)) ms \<longleftrightarrow> (\<exists>n. ms = [MsgHello n True])"
| "opened (HWait (SLoop k last_received round_start buf)) ms \<longleftrightarrow> (\<exists>n ms'. ms = MsgHello n True # MsgKeepalive # ms')"
| "opened (HHandle k now buf) ms \<longleftrightarrow> (\<exists>n ms'. ms = MsgHello n True # MsgKeepalive # ms')"
| "opened (HSubscribe k now buf v) ms \<longleftrightarrow> (\<exists>n ms'. ms = MsgHello n True # MsgKeepalive # ms')"
| "opened (HWait (SDone result)) ms \<longleftrightarrow> True"
| "opened HEnded ms \<longleftrightarrow> True"

lemma opened_during: "stage_of ph = During \<Longrightarrow> opened ph ms \<longleftrightarrow> (\<exists>n ms'. ms = MsgHello n True # MsgKeepalive # ms')"
  by (cases ph rule: stage_of.cases) simp_all

lemma opened_after: "stage_of ph = After \<Longrightarrow> opened ph ms"
  by (cases ph rule: stage_of.cases) simp_all

lemma opened_more:
  assumes "opened ph ms" and "stage_of ph \<noteq> Before" and "stage_of ph' \<noteq> Before"
    and "stage_of ph = After \<Longrightarrow> stage_of ph' = After"
  shows "opened ph' (ms @ ms')"
  using assms by (cases "stage_of ph"; cases "stage_of ph'") (auto simp: opened_during opened_after)

lemma moves_stage_after:
  assumes "handler_moves cid s s'" and "conn_stage s cid = After"
  shows "conn_stage s' cid = After"
proof -
  obtain h' new where "cid < length (sv_conns s)" "sv_conns s' = (sv_conns s)[cid := h']"
    and move: "session_move cid (hd_addr (sv_conns s ! cid)) (conn_stage s cid) (stage_of (hd_phase h')) new
      (sv_peers s) (sv_peers s')"
    by (rule handler_movesE [OF assms(1)])
  with move assms(2) show ?thesis by (cases rule: session_move.cases) auto
qed

lemma handshake_writes:
  assumes ev: "conn_event x cid ev s = Some s'" and x: "externals_ok x" and before: "conn_stage s cid = Before"
    and left: "0 < ts_budget (hd_stream (sv_conns s' ! cid))" and ms: "opened (hd_phase (sv_conns s ! cid)) ms"
  shows "0 < ts_budget (hd_stream (sv_conns s ! cid)) \<and> sv_chans s' = sv_chans s \<and>
    (\<exists>more. opened (hd_phase (sv_conns s' ! cid)) (ms @ more) \<and>
      ts_written (hd_stream (sv_conns s' ! cid)) = ts_written (hd_stream (sv_conns s ! cid)) @ wire_bytes x more \<and>
      chan_log v more = [] \<and> (\<forall>m \<in> set more. sound_message m))"
proof -
  let ?h = "sv_conns s ! cid"
  have cid: "cid < length (sv_conns s)" by (rule conn_event_phases(1) [OF ev])
  note send = externals_ok.send_message_ok [OF x]
  show ?thesis
  proof (cases "hd_phase ?h" rule: stage_of.cases)
    case 1
    then obtain read where read: "ev = SHelloRead read"
      using ev cid by (cases ev) (auto simp: conn_event_def Let_def server_step_def split: if_splits sum.splits list.splits)
    with ev cid 1 have s': "s' = put_conn cid ?h (server_hello x (sv_config s) read (conn_view s ?h SHello)) s"
      by (simp add: conn_event_def Let_def server_step_def)
    have ended: ?thesis if "server_hello x (sv_config s) read (conn_view s ?h SHello) =
        (conn_view s ?h SHello)\<lparr>sc_phase := SDone result\<rparr>" for result
      using left cid by (intro conjI exI [of _ "[]"]) (simp_all add: s' that wire_bytes_simps(1))
    show ?thesis
    proof (cases "receive_hello x read")
      case (Inl e)
      then show ?thesis by (intro ended) (simp add: server_hello_def)
    next
      case (Inr r)
      show ?thesis
      proof (cases r)
        case None
        with Inr show ?thesis by (intro ended) (simp add: server_hello_def)
      next
        case (Some k)
        with Inr left cid ms 1 show ?thesis
          by (cases k; intro conjI exI [of _ "[MsgHello (cfg_keepalive_interval (sv_config s)) True]"])
            (auto simp: s' server_hello_def send split: if_splits)
      qed
    qed
  next
    case (2 n)
    then obtain read now where read: "ev = SKeepaliveRead read now"
      using ev cid by (cases ev) (auto simp: conn_event_def Let_def server_step_def split: if_splits sum.splits list.splits)
    let ?c = "conn_view s ?h (SKeepalive n)"
    let ?c' = "server_keepalive x (enqueue cid) (hd_addr ?h) cid n read now ?c"
    have s': "s' = put_conn cid ?h ?c' s"
      using ev cid 2 read by (simp add: conn_event_def Let_def server_step_def)
    show ?thesis
    proof (cases "receive_message_with_timeout x read = Inr MsgKeepalive")
      case True
      with left cid ms 2 show ?thesis
        by (intro conjI exI [of _ "[MsgKeepalive]"]) (auto simp: s' server_keepalive_def send split: if_splits)
    next
      case False
      then obtain e where "?c' = ?c\<lparr>sc_phase := SDone (Inl e)\<rparr>"
        by (cases "receive_message_with_timeout x read") (auto simp: server_keepalive_def)
      then show ?thesis
        using left cid by (intro conjI exI [of _ "[]"]) (simp_all add: s' wire_bytes_simps(1))
    qed
  qed (use before in simp_all)
qed

text \<open>
  A connection that was sent nothing of a VNI and has no answer about it: unless a write
  failed, it wrote the handshake and sound messages that say nothing of the VNI.
\<close>

definition silent :: "externals \<Rightarrow> vni \<Rightarrow> chan_id \<Rightarrow> server \<Rightarrow> bool" where
  "silent x v cid s \<longleftrightarrow>
     cid < length (sv_conns s) \<and> \<not> answered v (sv_conns s ! cid) \<and> chan_log v (ch_history (sv_chans s cid)) = [] \<and>
     (0 < ts_budget (hd_stream (sv_conns s ! cid)) \<longrightarrow>
        (\<exists>ms. ts_written (hd_stream (sv_conns s ! cid)) = wire_bytes x ms \<and> opened (hd_phase (sv_conns s ! cid)) ms \<and>
          chan_log v ms = [] \<and> (\<forall>m \<in> set ms. sound_message m)))"

lemma silent_other:
  assumes "silent x v cid s" and "cid < length (sv_conns s')"
    and "sv_conns s' ! cid = (sv_conns s ! cid)\<lparr>hd_signalled := b\<rparr> \<or> sv_conns s' ! cid = sv_conns s ! cid"
    and "chan_log v (ch_history (sv_chans s' cid)) = []"
  shows "silent x v cid s'"
  using assms by (auto simp: silent_def answered_def)

lemma silent_writes:
  assumes quiet: "silent x v cid s" and m: "handler_moves cid s s'" and st: "conn_stage s cid \<noteq> Before"
    and sound: "sound_inv s" "sound_inv s'" and log: "chan_log v (ch_history (sv_chans s' cid)) = []"
    and unanswered: "\<not> answered v (sv_conns s' ! cid)"
    and writes: "0 < ts_budget (hd_stream (sv_conns s' ! cid)) \<Longrightarrow> \<exists>ms new. writes_on x v cid s s' ms new"
  shows "silent x v cid s'"
proof -
  have cid: "cid < length (sv_conns s)" using quiet by (simp add: silent_def)
  have "\<exists>ms. ts_written (hd_stream (sv_conns s' ! cid)) = wire_bytes x ms \<and> opened (hd_phase (sv_conns s' ! cid)) ms \<and>
      chan_log v ms = [] \<and> (\<forall>m \<in> set ms. sound_message m)"
    if left: "0 < ts_budget (hd_stream (sv_conns s' ! cid))"
  proof -
    obtain more new where w: "writes_on x v cid s s' more new" using writes [OF left] by blast
    then obtain ms where ms: "ts_written (hd_stream (sv_conns s ! cid)) = wire_bytes x ms"
      "opened (hd_phase (sv_conns s ! cid)) ms" "chan_log v ms = []" "\<forall>m \<in> set ms. sound_message m"
      using quiet by (auto simp: silent_def writes_on_def)
    have "chan_log v new = []" using w log by (simp add: writes_on_def ch_history_def)
    then have "chan_log v more = []" using w quiet by (simp add: writes_on_def silent_def)
    moreover have "opened (hd_phase (sv_conns s' ! cid)) (ms @ more)"
      by (rule opened_more [OF ms(2) st moves_own(2) [OF m st] moves_stage_after [OF m]])
    moreover have "\<forall>m \<in> set more. sound_message m" using writes_on_sound [OF w cid sound] by blast
    ultimately show ?thesis using w ms
      by (intro exI [of _ "ms @ more"]) (auto simp: writes_on_def wire_bytes_simps(3))
  qed
  then show ?thesis using cid unanswered log by (simp add: silent_def moves_length [OF m])
qed

lemma handle_step_unanswered:
  assumes "handle_step x cid t s = Some s'"
  shows "\<not> answered v (sv_conns s' ! cid)"
proof -
  have cid: "cid < length (sv_conns s)" using assms by (simp add: handle_step_def split: if_splits)
  show ?thesis
  proof (cases "hd_phase (sv_conns s ! cid)")
    case (HHandle n now buf)
    with assms cid show ?thesis
      by (cases "message_decode x buf")
        (auto simp: handle_step_def Let_def set_conn_def answered_def server_cleanup_def
          split: if_splits prod.splits message.splits)
  next
    case (HSubscribe n now buf w)
    with assms cid show ?thesis by (auto simp: handle_step_def Let_def set_conn_def answered_def split: option.splits)
  qed (use assms cid in \<open>simp_all add: handle_step_def Let_def\<close>)
qed

text \<open>A step keeps it, unless it answers the connection's subscription or sends it something of the VNI.\<close>

lemma actor_step_silent:
  assumes a: "actor_step s = Some s'" and all: "all_inv s" and quiet: "silent x v cid s"
    and log: "chan_log v (ch_history (sv_chans s' cid)) = []"
    and other: "\<And>p q. sv_queue s \<noteq> (cid, CmdSubscribe p v) # q"
  shows "silent x v cid s'"
proof -
  obtain tx cmd q reply a chans hs where s: "sv_queue s = (tx, cmd) # q"
    "actor_handle cmd (routing s) = (reply, a, chans)"
    "s' = s\<lparr>sv_queue := q, sv_actor := a, sv_chans := chans, sv_conns := hs\<rparr>"
    and hs: "hs = (case reply of RoutesReply rs \<Rightarrow> (sv_conns s)[tx := (sv_conns s ! tx)\<lparr>hd_reply := Some reply\<rparr>]
               | _ \<Rightarrow> sv_conns s)"
    by (rule actor_step_cases [OF a])
  have cid: "cid < length (sv_conns s)" using quiet by (simp add: silent_def)
  have cid': "cid < length (sv_conns s')" using cid by (simp add: s(3) hs split: routing_reply.split)
  show ?thesis
  proof (cases "tx = cid \<and> (\<exists>rs. reply = RoutesReply rs)")
    case False
    then have "sv_conns s' ! cid = sv_conns s ! cid" by (cases reply) (auto simp: s(3) hs)
    then show ?thesis using silent_other [OF quiet cid' _ log] by blast
  next
    case True
    then obtain p u where cmd: "cmd = CmdSubscribe p u"
      using other_replies [of cmd "routing s" _ "(a, chans)"] s(2) by blast
    have "awaits_reply cid (sv_conns s ! cid) (sv_queue s)" using all cid by (simp add: all_inv_def replies_inv_def)
    then obtain n now buf where ph: "hd_phase (sv_conns s ! cid) = HSubscribe n now buf u"
      using True by (auto simp: awaits_reply_def s(1) cmd split: handler_phase.splits)
    have "u \<noteq> v" using other s(1) True cmd by blast
    with ph have "\<not> answered v (sv_conns s' ! cid)" using True cid by (auto simp: answered_def s(3) hs)
    with quiet True cid log show ?thesis by (auto simp: silent_def s(3) hs)
  qed
qed

lemma handler_silent:
  assumes x: "externals_ok x" and quiet: "silent x v cid s" and sound: "sound_inv s" "sound_inv s'"
    and log: "chan_log v (ch_history (sv_chans s' cid)) = []"
  shows "conn_event x cid ev s = Some s' \<Longrightarrow> silent x v cid s'"
    and "handle_step x cid t s = Some s' \<Longrightarrow> silent x v cid s'"
    and "handler_return cid s = Some s' \<Longrightarrow> silent x v cid s'"
proof -
  assume ev: "conn_event x cid ev s = Some s'"
  note m = conn_event_moves [OF ev]
  have unanswered: "\<not> answered v (sv_conns s' ! cid)" using conn_event_phases(3) [OF ev] by (auto simp: answered_def)
  show "silent x v cid s'"
  proof (cases "conn_stage s cid = Before")
    case False
    from silent_writes [OF quiet m False sound log unanswered conn_event_writes_on [OF ev False]] show ?thesis .
  next
    case True
    have "\<exists>ms. ts_written (hd_stream (sv_conns s' ! cid)) = wire_bytes x ms \<and> opened (hd_phase (sv_conns s' ! cid)) ms \<and>
        chan_log v ms = [] \<and> (\<forall>m \<in> set ms. sound_message m)" if left: "0 < ts_budget (hd_stream (sv_conns s' ! cid))"
    proof -
      note shake = handshake_writes [OF ev x True left]
      obtain ms0 where "opened (hd_phase (sv_conns s ! cid)) ms0"
        by (cases "hd_phase (sv_conns s ! cid)" rule: stage_of.cases) auto
      from shake [OF this] obtain ms where ms: "ts_written (hd_stream (sv_conns s ! cid)) = wire_bytes x ms"
        "opened (hd_phase (sv_conns s ! cid)) ms" "chan_log v ms = []" "\<forall>m \<in> set ms. sound_message m"
        using quiet by (auto simp: silent_def)
      from shake [OF ms(2)] obtain more where "opened (hd_phase (sv_conns s' ! cid)) (ms @ more)"
        "ts_written (hd_stream (sv_conns s' ! cid)) = wire_bytes x ms @ wire_bytes x more"
        "chan_log v more = []" "\<forall>m \<in> set more. sound_message m"
        using ms(1) by auto
      with ms show ?thesis by (intro exI [of _ "ms @ more"]) (auto simp: wire_bytes_simps(3))
    qed
    then show ?thesis using quiet unanswered log by (simp add: silent_def moves_length [OF m])
  qed
next
  assume step: "handle_step x cid t s = Some s'"
  then have "conn_stage s cid \<noteq> Before"
    by (cases "hd_phase (sv_conns s ! cid)" rule: stage_of.cases) (auto simp: handle_step_def Let_def split: if_splits)
  from silent_writes [OF quiet handle_step_moves [OF step] this sound log handle_step_unanswered [OF step]
      handle_step_writes_on [OF step x]]
  show "silent x v cid s'" .
next
  assume ret: "handler_return cid s = Some s'"
  then have "conn_stage s cid \<noteq> Before" "\<not> answered v (sv_conns s' ! cid)"
    by (auto simp: handler_return_def Let_def set_conn_def answered_def split: if_splits handler_phase.splits server_phase.splits)
  from silent_writes [OF quiet handler_return_moves [OF ret] this(1) sound log this(2) handler_return_writes_on [OF ret]]
  show "silent x v cid s'" .
qed

lemma sv_step_silent:
  assumes step: "sv_step x s e s'" and x: "externals_ok x" and all: "all_inv s" and sound: "sound_inv s"
    and quiet: "silent x v cid s" and log: "chan_log v (ch_history (sv_chans s' cid)) = []"
    and other: "\<And>p q. e = ActorStep \<Longrightarrow> sv_queue s \<noteq> (cid, CmdSubscribe p v) # q"
  shows "silent x v cid s'"
proof -
  have cid: "cid < length (sv_conns s)" using quiet by (simp add: silent_def)
  have sound': "sound_inv s'" using sv_step_sound_inv [OF step x sound] all by (simp add: all_inv_def)
  have others: ?thesis if m: "handler_moves tx s s'" and "tx \<noteq> cid" for tx
    using silent_other [OF quiet, of s'] moves_other [OF that] moves_length [OF m] cid log by simp
  show ?thesis
    using step
  proof (cases rule: sv_step.cases)
    case (sv_accept addr budget)
    then have "cid < length (sv_conns s')" "sv_conns s' ! cid = sv_conns s ! cid"
      using cid by (simp_all add: accept_conn_def nth_append)
    then show ?thesis using silent_other [OF quiet, of s'] log by simp
  next
    case (sv_conn tx ev)
    with handler_silent(1) [OF x quiet sound sound' log] others [OF conn_event_moves [OF sv_conn(2)]] show ?thesis
      by (cases "tx = cid") auto
  next
    case (sv_handle tx t)
    with handler_silent(2) [OF x quiet sound sound' log] others [OF handle_step_moves [OF sv_handle(2)]] show ?thesis
      by (cases "tx = cid") auto
  next
    case (sv_return tx)
    with handler_silent(3) [OF x quiet sound sound' log] others [OF handler_return_moves [OF sv_return(2)]] show ?thesis
      by (cases "tx = cid") auto
  next
    case sv_actor
    from actor_step_silent [OF sv_actor(2) all quiet log] other sv_actor(1) show ?thesis by blast
  next
    case sv_shutdown
    then have "sv_conns s' ! cid = (sv_conns s ! cid)\<lparr>hd_signalled := True\<rparr>" "cid < length (sv_conns s')"
      using cid by (simp_all add: server_shutdown_def)
    with silent_other [OF quiet, of s' True] log show ?thesis by simp
  qed (use silent_other [OF quiet, of s'] cid log in simp_all)
qed

text \<open>The list of connections only grows.\<close>

lemma sv_step_grows:
  assumes "sv_step x s e s'"
  shows "length (sv_conns s) \<le> length (sv_conns s')"
  using assms
proof (cases rule: sv_step.cases)
  case (sv_conn tx ev)
  with moves_length [OF conn_event_moves [OF sv_conn(2)]] show ?thesis by simp
next
  case (sv_handle tx t)
  with moves_length [OF handle_step_moves [OF sv_handle(2)]] show ?thesis by simp
next
  case (sv_return tx)
  with moves_length [OF handler_return_moves [OF sv_return(2)]] show ?thesis by simp
next
  case sv_actor
  with actor_step_same [OF sv_actor(2)] show ?thesis by (simp add: same_handlers_def)
qed (simp_all add: accept_conn_def server_shutdown_def)

text \<open>A connection that can still write could always write.\<close>

lemma opened_some: "\<exists>ms. opened ph ms"
  by (cases ph rule: stage_of.cases) auto

lemma handler_left:
  assumes x: "externals_ok x" and left: "0 < ts_budget (hd_stream (sv_conns s' ! cid))"
  shows "conn_event x cid ev s = Some s' \<Longrightarrow> 0 < ts_budget (hd_stream (sv_conns s ! cid))"
    and "handle_step x cid t s = Some s' \<Longrightarrow> 0 < ts_budget (hd_stream (sv_conns s ! cid))"
    and "handler_return cid s = Some s' \<Longrightarrow> 0 < ts_budget (hd_stream (sv_conns s ! cid))"
proof -
  show "0 < ts_budget (hd_stream (sv_conns s ! cid))" if "conn_event x cid ev s = Some s'"
    using handshake_writes [OF that x _ left] conn_event_writes_on [OF that _ left] opened_some [of "hd_phase (sv_conns s ! cid)"]
    by (cases "conn_stage s cid = Before") (auto simp: writes_on_def)
qed (use handle_step_writes_on [OF _ x left] handler_return_writes_on [OF _ left] in \<open>auto simp: writes_on_def\<close>)

lemma sv_step_left:
  assumes step: "sv_step x s e s'" and x: "externals_ok x" and cid: "cid < length (sv_conns s)"
    and left: "0 < ts_budget (hd_stream (sv_conns s' ! cid))"
  shows "0 < ts_budget (hd_stream (sv_conns s ! cid))"
  using step
proof (cases rule: sv_step.cases)
  case (sv_conn tx ev)
  with handler_left(1) [OF x left] moves_other(1) conn_event_moves [OF sv_conn(2)] left cid show ?thesis
    by (cases "tx = cid") auto
next
  case (sv_handle tx t)
  with handler_left(2) [OF x left] moves_other(1) handle_step_moves [OF sv_handle(2)] left cid show ?thesis
    by (cases "tx = cid") auto
next
  case (sv_return tx)
  with handler_left(3) [OF x left] moves_other(1) handler_return_moves [OF sv_return(2)] left cid show ?thesis
    by (cases "tx = cid") auto
next
  case sv_actor
  obtain tx cmd q reply a chans hs where "sv_queue s = (tx, cmd) # q"
    "s' = s\<lparr>sv_queue := q, sv_actor := a, sv_chans := chans, sv_conns := hs\<rparr>"
    "hs = (case reply of RoutesReply rs \<Rightarrow> (sv_conns s)[tx := (sv_conns s ! tx)\<lparr>hd_reply := Some reply\<rparr>]
               | _ \<Rightarrow> sv_conns s)"
    by (rule actor_step_cases [OF sv_actor(2)])
  with left cid show ?thesis by (cases "tx = cid") (auto split: routing_reply.splits)
qed (use left cid in \<open>auto simp: accept_conn_def nth_append server_shutdown_def\<close>)

lemma sv_run_left:
  "sv_run x s es ev s' \<Longrightarrow> externals_ok x \<Longrightarrow> cid < length (sv_conns s) \<Longrightarrow> 0 < ts_budget (hd_stream (sv_conns s' ! cid)) \<Longrightarrow>
     0 < ts_budget (hd_stream (sv_conns s ! cid))"
  by (induction rule: sv_run.induct) (auto intro: sv_step_left less_le_trans [OF _ sv_step_grows])

text \<open>A connection the actor has not heard of has been sent nothing.\<close>

definition unheard_silent :: "externals \<Rightarrow> server \<Rightarrow> bool" where
  "unheard_silent x s \<longleftrightarrow> (\<forall>v cid. cid < length (sv_conns s) \<longrightarrow> unheard s cid \<longrightarrow> silent x v cid s)"

lemma unheard_history: "chans_inv s \<Longrightarrow> unheard s cid \<Longrightarrow> ch_history (sv_chans s cid) = []"
  by (simp add: chans_inv_def unused_def)

lemma sv_step_unheard_silent:
  assumes step: "sv_step x s e s'" and x: "externals_ok x" and all: "all_inv s" and sound: "sound_inv s"
    and tags: "tags_inv s" and inv: "unheard_silent x s"
  shows "unheard_silent x s'"
  unfolding unheard_silent_def
proof (intro allI impI)
  fix v cid
  assume cid: "cid < length (sv_conns s')" and un: "unheard s' cid"
  have "chans_inv s'" using sv_step_all_inv [OF step all] by (simp add: all_inv_def)
  then have log: "chan_log v (ch_history (sv_chans s' cid)) = []" using unheard_history [OF _ un] by simp
  show "silent x v cid s'"
  proof (cases "cid < length (sv_conns s)")
    case True
    then have quiet: "silent x v cid s" using inv sv_step_unheard [OF step un] by (simp add: unheard_silent_def)
    have "sv_queue s \<noteq> (cid, CmdSubscribe p v) # q" if "e = ActorStep" for p q
    proof
      assume q: "sv_queue s = (cid, CmdSubscribe p v) # q"
      have "actor_step s = Some s'" using step that by (auto elim: sv_step_elims)
      then have "sv_queue s' = q" "same_handlers s s'" by (auto elim: actor_step_cases simp: q intro: actor_step_same)
      moreover have "cid \<notin> set (connects q)" "conn_stage s cid \<noteq> Before"
        using tags by (simp_all add: tags_inv_def q tagged_def)
      ultimately show False using un True by (auto simp: unheard_def same_handlers_def)
    qed
    from sv_step_silent [OF step x all sound quiet log this] show ?thesis .
  next
    case False
    from step have "\<exists>addr budget. e = Accept addr budget"
    proof (cases rule: sv_step.cases)
      case (sv_conn tx ev)
      with False cid moves_length [OF conn_event_moves [OF sv_conn(2)]] show ?thesis by simp
    next
      case (sv_handle tx t)
      with False cid moves_length [OF handle_step_moves [OF sv_handle(2)]] show ?thesis by simp
    next
      case (sv_return tx)
      with False cid moves_length [OF handler_return_moves [OF sv_return(2)]] show ?thesis by simp
    next
      case sv_actor
      with False cid actor_step_same [OF sv_actor(2)] show ?thesis by (simp add: same_handlers_def)
    qed (use False cid in \<open>simp_all add: server_shutdown_def\<close>)
    then obtain addr budget where "s' = accept_conn addr budget s" using step by (auto elim: sv_step_elims)
    moreover from this have "cid = length (sv_conns s)" using False cid by (simp add: accept_conn_def)
    ultimately show ?thesis
      using log cid by (simp add: silent_def accept_conn_def new_handler_def answered_def)
  qed
qed

lemma server_run_silent:
  assumes "sv_run x (server_init config) es ev s" and x: "externals_ok x"
  shows "all_inv s \<and> sound_inv s \<and> tags_inv s \<and> unheard_silent x s"
proof -
  have "sv_run x s0 es ev s \<Longrightarrow> all_inv s0 \<Longrightarrow> sound_inv s0 \<Longrightarrow> tags_inv s0 \<Longrightarrow> unheard_silent x s0 \<Longrightarrow>
      all_inv s \<and> sound_inv s \<and> tags_inv s \<and> unheard_silent x s" for s0 es ev s
  proof (induction rule: sv_run.induct)
    case (sv_cons s e s' es rs s'')
    have chans: "chans_inv s" using sv_cons.prems by (simp add: all_inv_def)
    note step = sv_cons.hyps(1)
    from sv_cons.IH [OF sv_step_all_inv [OF step] sv_step_sound_inv [OF step x _ chans] sv_step_tags_inv [OF step chans]
        sv_step_unheard_silent [OF step x]] sv_cons.prems show ?case by blast
  qed simp
  moreover have "unheard_silent x (server_init config)" by (simp add: unheard_silent_def server_init_def)
  ultimately show ?thesis
    using assms(1) server_run_all_inv [OF sv_nil] sound_inv_init tags_inv_init by blast
qed

section \<open>From the start of a session to its subscription\<close>

definition unsubscribed :: "externals \<Rightarrow> socket_addr \<Rightarrow> vni \<Rightarrow> chan_id \<Rightarrow> server \<Rightarrow> bool" where
  "unsubscribed x p v cid s \<longleftrightarrow>
     silent x v cid s \<and> \<not> unheard s cid \<and> hd_addr (sv_conns s ! cid) = p \<and> (p, v) \<notin> sp_subs (actor_abs (sv_actor s))"

lemma moves_log:
  assumes "handler_moves tx s s'" and "chan_log v (ch_history (sv_chans s c)) = []"
  shows "chan_log v (ch_history (sv_chans s' c)) = []"
proof -
  obtain h' new ch where f: "sv_conns s' = (sv_conns s)[tx := h']" "sv_queue s' = sv_queue s @ new"
    "sv_chans s' = (sv_chans s)(tx := ch)"
    "if hd_phase h' = HEnded then ch = (sv_chans s tx)\<lparr>ch_queue := [], ch_open := False\<rparr>
         else ch_history ch = ch_history (sv_chans s tx) \<and> ch_open ch = ch_open (sv_chans s tx)"
    by (rule handler_movesE [OF assms(1)])
  with assms(2) show ?thesis
    by (cases "c = tx"; cases "hd_phase h' = HEnded") (simp_all add: ch_history_def)
qed

text \<open>The actor is told of a connection.\<close>

lemma session_opens:
  assumes step: "sv_step x s ActorStep s'" and q: "sv_queue s = (tx, PeerConnected p cid) # q"
    and x: "externals_ok x" and inv: "all_inv s" "sound_inv s" "tags_inv s" "unheard_silent x s"
  shows "unsubscribed x p v cid s'"
proof -
  have a: "actor_step s = Some s'" using step by (auto elim: sv_step_elims)
  note same = actor_step_same [OF a]
  have tag: "tx = cid" "cid < length (sv_conns s)" "hd_addr (sv_conns s ! cid) = p" "conn_stage s cid \<noteq> Before"
    "cid \<notin> set (connects q)"
    using inv(3) by (auto simp: tags_inv_def q tagged_def)
  have un: "unheard s cid" by (simp add: unheard_def q)
  have quiet: "silent x v cid s" using inv(4) un tag(2) by (simp add: unheard_silent_def)
  obtain tx' cmd q' reply a' chans hs where "sv_queue s = (tx', cmd) # q'"
    "actor_handle cmd (routing s) = (reply, a', chans)"
    "s' = s\<lparr>sv_queue := q', sv_actor := a', sv_chans := chans, sv_conns := hs\<rparr>"
    by (rule actor_step_cases [OF a])
  then have s': "actor_handle (PeerConnected p cid) (routing s) = (reply, a', chans)"
    "s' = s\<lparr>sv_queue := q, sv_actor := a', sv_chans := chans, sv_conns := hs\<rparr>"
    using q by simp_all
  have sys: "sys_inv (routing s)" using inv(1) by (simp add: all_inv_def chans_inv_def)
  have sp: "sp_subs (actor_abs a') = sp_subs (actor_abs (sv_actor s))" "chans = sv_chans s"
    using sys_cmd_spec [OF sys s'(1)] by simp_all
  have "(p, v) \<notin> sp_subs (actor_abs (sv_actor s))"
  proof -
    obtain A where "within A (actor_abs (sv_actor s))" "queue_ok A (sv_queue s)"
      using inv(1) by (auto simp: all_inv_def sessions_inv_def)
    then show ?thesis by (auto simp: q within_def)
  qed
  moreover have "silent x v cid s'"
    by (rule sv_step_silent [OF step x inv(1,2) quiet]) (use quiet in \<open>simp_all add: s'(2) sp(2) silent_def q\<close>)
  moreover have "\<not> unheard s' cid" using same tag by (auto simp: unheard_def same_handlers_def s'(2))
  moreover have "hd_addr (sv_conns s' ! cid) = p" using same tag by (simp add: same_handlers_def)
  ultimately show ?thesis by (simp add: unsubscribed_def s'(2) sp(1))
qed

lemma moves_unsubscribed:
  assumes m: "handler_moves tx s s'" and un: "unsubscribed x p v cid s" and quiet: "silent x v cid s'"
  shows "unsubscribed x p v cid s'"
proof -
  have "hd_addr (sv_conns s' ! cid) = p"
    using un moves_own(1) [OF m] moves_other(1) [OF m] by (cases "tx = cid") (auto simp: unsubscribed_def)
  moreover have "sv_actor s' = sv_actor s" by (rule handler_movesE [OF m])
  ultimately show ?thesis using un quiet moves_unheard [OF m, of cid] by (auto simp: unsubscribed_def)
qed

lemma sv_step_unsubscribed:
  assumes step: "sv_step x s e s'" and x: "externals_ok x" and inv: "all_inv s" "sound_inv s" "tags_inv s"
    and un: "unsubscribed x p v cid s" and other: "filter (concerns p v) (routing_events s e) = []"
  shows "unsubscribed x p v cid s'"
proof -
  have quiet: "silent x v cid s" and addr: "hd_addr (sv_conns s ! cid) = p" and cid: "cid < length (sv_conns s)"
    and out: "(p, v) \<notin> sp_subs (actor_abs (sv_actor s))"
    and before: "chan_log v (ch_history (sv_chans s cid)) = []"
    using un by (simp_all add: unsubscribed_def silent_def)
  have head: "sv_queue s \<noteq> (cid, CmdSubscribe p' v) # q" if "e = ActorStep" for p' q
    using other that inv(3) addr by (auto simp: tags_inv_def tagged_def)
  note keeps = sv_step_silent [OF step x inv(1,2) quiet _ head]
  have moved: ?thesis if "handler_moves tx s s'" for tx
    by (rule moves_unsubscribed [OF that un keeps [OF moves_log [OF that before]]])
  have still: "\<not> unheard s' cid" using sv_step_unheard [OF step] un by (auto simp: unsubscribed_def)
  show ?thesis
    using step
  proof (cases rule: sv_step.cases)
    case (sv_accept addr' budget)
    then have "silent x v cid s'" using before by (intro keeps) (simp_all add: accept_conn_def)
    with un cid still sv_accept show ?thesis by (simp add: unsubscribed_def accept_conn_def nth_append)
  next
    case (sv_conn tx ev)
    from moved [OF conn_event_moves [OF sv_conn(2)]] show ?thesis .
  next
    case (sv_handle tx t)
    from moved [OF handle_step_moves [OF sv_handle(2)]] show ?thesis .
  next
    case (sv_return tx)
    from moved [OF handler_return_moves [OF sv_return(2)]] show ?thesis .
  next
    case sv_actor
    obtain tx cmd q reply a chans hs where s: "sv_queue s = (tx, cmd) # q"
      "actor_handle cmd (routing s) = (reply, a, chans)"
      "s' = s\<lparr>sv_queue := q, sv_actor := a, sv_chans := chans, sv_conns := hs\<rparr>"
      by (rule actor_step_cases [OF sv_actor(2)])
    have "sys_inv (routing s)" using inv(1) by (simp add: all_inv_def chans_inv_def)
    note sp = sys_cmd_spec [OF this s(2)]
    have alone: "q' = p" if "sp_peers (actor_abs (sv_actor s)) q' = Some cid" for q'
      using that inv(3) addr by (auto simp: tags_inv_def actor_abs_def)
    have cmd: "cmd \<noteq> CmdSubscribe p v" using other by (auto simp: sv_actor(1) s(1))
    note silent = cmd_silent [OF sp alone out cmd before]
    have "silent x v cid s'" by (rule keeps) (use silent(1) sv_actor(1) in \<open>simp_all add: s(3)\<close>)
    moreover have "hd_addr (sv_conns s' ! cid) = p"
      using actor_step_same [OF sv_actor(2)] addr cid by (simp add: same_handlers_def)
    ultimately show ?thesis using silent(2) still by (simp add: unsubscribed_def s(3))
  next
    case (sv_rehash a)
    then have "silent x v cid s'" using before by (intro keeps) simp_all
    with un still sv_rehash show ?thesis by (simp add: unsubscribed_def)
  next
    case sv_shutdown
    then have "silent x v cid s'" using before by (intro keeps) (simp_all add: server_shutdown_def)
    with un cid still sv_shutdown show ?thesis by (simp add: unsubscribed_def server_shutdown_def)
  next
    case sv_drop
    then have "silent x v cid s'" using before by (intro keeps) simp_all
    with un still sv_drop show ?thesis by (simp add: unsubscribed_def)
  next
    case sv_accept_end
    then have "silent x v cid s'" using before by (intro keeps) simp_all
    with un still sv_accept_end show ?thesis by (simp add: unsubscribed_def)
  qed
qed

lemma sv_run_unsubscribed:
  "sv_run x s es ev s' \<Longrightarrow> externals_ok x \<Longrightarrow> all_inv s \<Longrightarrow> sound_inv s \<Longrightarrow> tags_inv s \<Longrightarrow> unsubscribed x p v cid s \<Longrightarrow>
     filter (concerns p v) ev = [] \<Longrightarrow>
     unsubscribed x p v cid s' \<and> all_inv s' \<and> sound_inv s' \<and> tags_inv s'"
proof (induction rule: sv_run.induct)
  case (sv_cons s e s' es rs s'')
  have chans: "chans_inv s" using sv_cons.prems by (simp add: all_inv_def)
  note step = sv_cons.hyps(1) and x = sv_cons.prems(1)
  have other: "filter (concerns p v) (routing_events s e) = []" "filter (concerns p v) rs = []"
    using sv_cons.prems(6) by simp_all
  from sv_cons.IH [OF x sv_step_all_inv [OF step] sv_step_sound_inv [OF step x _ chans] sv_step_tags_inv [OF step chans]
      sv_step_unsubscribed [OF step x _ _ _ _ other(1)] other(2)] sv_cons.prems show ?case by blast
qed simp

section \<open>From the subscription on\<close>

text \<open>What is written from the moment a subscription is handled.\<close>

lemma subscription_mirrors:
  assumes x: "externals_ok x" and run0: "sv_run x (server_init config) es0 ev0 s0"
    and head: "sv_queue s0 = (cid, CmdSubscribe p v) # q"
    and reg: "hm_get (a_peers (sv_actor s0)) p = Some cid" and none: "chan_log v (ch_queue (sv_chans s0 cid)) = []"
    and run: "sv_run x s0 (ActorStep # es) (e # ev) s"
    and own: "\<forall>reply. SysCmd (CmdSubscribe p v) reply \<notin> set ev \<and> SysCmd (CmdUnsubscribe p v) reply \<notin> set ev"
      "\<forall>act d h reply. SysCmd (CmdUpdate p act v d h) reply \<notin> set ev"
    and phase: "hd_phase (sv_conns s ! cid) = HWait (SLoop n last_received round_start buf)"
    and left: "0 < ts_budget (hd_stream (sv_conns s ! cid))"
    and drained: "ch_queue (sv_chans s cid) = []" and still: "hm_get (a_peers (sv_actor s)) p = Some cid"
  shows "\<exists>ms. ts_written (hd_stream (sv_conns s ! cid)) = ts_written (hd_stream (sv_conns s0 ! cid)) @ wire_bytes x ms \<and>
    apply_log (chan_log v ms) {} = {(d, h). (v, d, h) \<in> rt_abs (a_routes (sv_actor s))} \<and>
    (\<forall>m \<in> set ms. sound_message m)"
proof -
  let ?h0 = "sv_conns s0 ! cid" and ?c0 = "sv_chans s0 cid"
  have all0: "all_inv s0" by (rule server_run_all_inv [OF run0])
  have init: "all_inv (server_init config)" using server_run_all_inv [OF sv_nil] .
  from sv_run_open_inv [OF run0 this open_inv_init] have "open_inv s0" .
  have cid: "cid < length (sv_conns s0)"
    using all0 head by (force simp: all_inv_def replies_inv_def not_less dest!: spec [of _ cid])
  then have awaits: "awaits_reply cid ?h0 (sv_queue s0)" using all0 by (simp add: all_inv_def replies_inv_def)
  then obtain n0 now0 buf0 where h0: "hd_phase ?h0 = HSubscribe n0 now0 buf0 v" "hd_addr ?h0 = p"
    by (auto simp: awaits_reply_def head split: handler_phase.splits)
  then have open0: "ch_open ?c0" using \<open>open_inv s0\<close> by (simp add: open_inv_def)
  have inv0: "sys_inv (routing s0)" using all0 by (simp add: all_inv_def chans_inv_def)
  from run obtain s1 where step: "sv_step x s0 ActorStep s1" and run1: "sv_run x s1 es ev s"
    by (auto elim!: sv_run_Cons simp: head)
  from step have "actor_step s0 = Some s1" by (auto elim: sv_step_elims)
  then obtain cid' cmd q' reply a chans hs where s0: "sv_queue s0 = (cid', cmd) # q'"
    "actor_handle cmd (routing s0) = (reply, a, chans)"
    "s1 = s0\<lparr>sv_queue := q', sv_actor := a, sv_chans := chans, sv_conns := hs\<rparr>"
    "hs = (case reply of RoutesReply rs \<Rightarrow> (sv_conns s0)[cid' := (sv_conns s0 ! cid')\<lparr>hd_reply := Some reply\<rparr>]
           | _ \<Rightarrow> sv_conns s0)"
    by (rule actor_step_cases)
  have cmd: "cmd = CmdSubscribe p v" "cid' = cid" using s0(1) head by simp_all
  note r = s0(2) [unfolded cmd] and s1 = s0(3) and hs = s0(4) [unfolded cmd]
  obtain rs where rs: "reply = RoutesReply rs" using subscribe_replies [OF r] by blast
  have all1: "all_inv s1" by (rule sv_step_all_inv [OF step all0])
  have chans: "chans = sv_chans s0" using sys_cmd_spec [OF inv0 r] by simp
  have "stream_inv x p v cid rs (ts_written (hd_stream ?h0)) (ch_taken ?c0) s1"
    using cid h0 by (simp add: stream_inv_def s1 hs rs answered_def chans)
  moreover have "sound_inv s1"
    using sv_run_sound_inv [OF run0 x sound_inv_init init] sv_step_sound_inv [OF step x] all0
    by (simp add: all_inv_def)
  ultimately have "stream_inv x p v cid rs (ts_written (hd_stream ?h0)) (ch_taken ?c0) s1" "sound_inv s1" by simp_all
  from sv_run_stream_inv [OF run1 x this(1) all1 this(2)] own(1)
  have "stream_inv x p v cid rs (ts_written (hd_stream ?h0)) (ch_taken ?c0) s" by blast
  moreover have "\<not> answered v (sv_conns s ! cid)" by (simp add: answered_def phase)
  ultimately obtain ms new where ms: "ch_taken (sv_chans s cid) = ch_taken ?c0 @ new"
    "ts_written (hd_stream (sv_conns s ! cid)) = ts_written (hd_stream ?h0) @ wire_bytes x ms"
    "chan_log v ms = map (Pair Add) rs @ chan_log v new" "\<forall>m \<in> set ms. sound_message m"
    using left by (auto simp: stream_inv_def Let_def)
  have heard: "\<not> unheard s1 cid"
    using sv_step_unheard [OF step, of cid] all0 reg by (auto simp: all_inv_def chans_inv_def unused_def)
  have live: "SysClose cid \<notin> set ev" by (rule live_not_closed [OF run1]) (simp add: phase)
  have stay: "\<not> leaves_mirror p v cid e" if "e \<in> set ev" for e
    using that own live heard_not_connected [OF run1 heard]
    by (cases "(p, v, cid, e)" rule: leaves_mirror.cases) auto
  have inv1: "sys_inv (routing s1)" and sys: "sys_run (routing s1) ev (routing s)"
    using all1 sv_run_inv [OF run1] by (simp_all add: all_inv_def chans_inv_def)
  have "mirrors p v cid (length (ch_history ?c0)) (set rs) (sys_abs (routing s1))"
    using subscribe_mirrors [OF inv0, of p cid v rs a chans] open0 r rs by (simp add: s1 chans)
  from run_mirrors [OF sys inv1 this] stay have "mirrors p v cid (length (ch_history ?c0)) (set rs) (sys_abs (routing s))"
    by blast
  then have mirror: "apply_log (chan_log v (drop (length (ch_history ?c0)) (ch_history (sv_chans s cid)))) (set rs) =
      sp_routes_of v (actor_abs (sv_actor s))"
    using still by (simp add: mirrors_def actor_abs_def)
  have "prefix (ch_history ?c0) (ch_history (sv_chans s cid))"
    using run_history [OF sys inv1 live] by (simp add: s1 chans)
  then obtain more where more: "ch_history (sv_chans s cid) = ch_history ?c0 @ more" by (auto simp: prefix_def)
  then have "new = ch_queue ?c0 @ more" using ms(1) drained by (simp add: ch_history_def)
  then have "chan_log v new = chan_log v more" using none by simp
  then have "apply_log (chan_log v ms) {} = apply_log (chan_log v more) (set rs)" by (simp add: ms(3) apply_log_adds)
  also have "\<dots> = sp_routes_of v (actor_abs (sv_actor s))" using mirror by (simp add: more)
  also have "\<dots> = {(d, h). (v, d, h) \<in> rt_abs (a_routes (sv_actor s))}"
  proof -
    have "sys_inv (routing s)" using sv_run_all_inv [OF run1 all1] by (simp add: all_inv_def chans_inv_def)
    then show ?thesis using actor_wf_routes by (auto simp: sys_inv_def sp_routes_of_def dom_def simp del: rt_abs_iff)
  qed
  finally have log: "apply_log (chan_log v ms) {} = {(d, h). (v, d, h) \<in> rt_abs (a_routes (sv_actor s))}" .
  with ms(2,4) show ?thesis by blast
qed

text \<open>The whole session: the actor is told of the connection, and then hears of the VNI once.\<close>

lemma session_mirrors:
  assumes x: "externals_ok x" and run: "sv_run x (server_init config) es ev s"
    and ev: "ev = ev0 @ SysCmd (PeerConnected p cid) reply0 # ev1"
    and one: "filter (concerns p v) ev1 = [SysCmd (CmdSubscribe p v) reply]"
    and phase: "hd_phase (sv_conns s ! cid) = HWait (SLoop n last_received round_start buf)"
    and left: "0 < ts_budget (hd_stream (sv_conns s ! cid))"
    and drained: "ch_queue (sv_chans s cid) = []" and still: "hm_get (a_peers (sv_actor s)) p = Some cid"
  shows "\<exists>k ms. ts_written (hd_stream (sv_conns s ! cid)) = wire_bytes x (MsgHello k True # MsgKeepalive # ms) \<and>
    apply_log (chan_log v ms) {} = {(d, h). (v, d, h) \<in> rt_abs (a_routes (sv_actor s))} \<and>
    (\<forall>m \<in> set ms. sound_message m)"
proof -
  obtain es0 es1 s0 where run0: "sv_run x (server_init config) es0 ev0 s0"
    and rest: "sv_run x s0 (ActorStep # es1) (SysCmd (PeerConnected p cid) reply0 # ev1) s"
    using sv_run_split [OF run ev] by blast
  obtain tx q s1 where q: "sv_queue s0 = (tx, PeerConnected p cid) # q" and step: "sv_step x s0 ActorStep s1"
    and run1: "sv_run x s1 es1 ev1 s"
    by (rule sv_run_actor [OF rest])
  have inv0: "all_inv s0" "sound_inv s0" "tags_inv s0" "unheard_silent x s0"
    using server_run_silent [OF run0 x] by simp_all
  have inv1: "all_inv s1" "sound_inv s1" "tags_inv s1"
    using sv_step_all_inv [OF step inv0(1)] sv_step_sound_inv [OF step x inv0(2)] sv_step_tags_inv [OF step _ inv0(3)] inv0(1)
    by (simp_all add: all_inv_def)
  have un1: "unsubscribed x p v cid s1" by (rule session_opens [OF step q x inv0])
  obtain xs1 xs2 where ev1: "ev1 = xs1 @ SysCmd (CmdSubscribe p v) reply # xs2"
    and none: "filter (concerns p v) xs1 = []" "filter (concerns p v) xs2 = []"
    by (rule filter_one [OF one])
  obtain es2 es3 s2 where run2: "sv_run x s1 es2 xs1 s2"
    and rest2: "sv_run x s2 (ActorStep # es3) (SysCmd (CmdSubscribe p v) reply # xs2) s"
    using sv_run_split [OF run1 ev1] by blast
  have inv2: "unsubscribed x p v cid s2" "all_inv s2" "tags_inv s2"
    using sv_run_unsubscribed [OF run2 x inv1 un1 none(1)] by simp_all
  have quiet: "silent x v cid s2" and addr: "hd_addr (sv_conns s2 ! cid) = p" and cid: "cid < length (sv_conns s2)"
    using inv2(1) by (simp_all add: unsubscribed_def silent_def)
  have heard: "SysCmd (PeerConnected p cid) r \<notin> set (SysCmd (CmdSubscribe p v) reply # xs2)" for r
    using heard_not_connected [OF rest2] inv2(1) by (simp add: unsubscribed_def)
  have reg: "hm_get (a_peers (sv_actor s2)) p = Some cid"
  proof -
    have "chans_inv s2" "sessions_inv s2" using inv2(2) by (simp_all add: all_inv_def)
    from sv_run_inv [OF rest2 this] have "sys_run (routing s2) (SysCmd (CmdSubscribe p v) reply # xs2) (routing s)" by blast
    from sys_run_registered [OF this] \<open>chans_inv s2\<close> still heard show ?thesis by (simp add: chans_inv_def)
  qed
  have live: "hd_phase (sv_conns s2 ! cid) \<noteq> HEnded" using ended_stays_run [OF rest2 cid] phase by auto
  obtain tx2 q2 where q2: "sv_queue s2 = (tx2, CmdSubscribe p v) # q2" by (rule sv_run_actor [OF rest2])
  have tx2: "tx2 < length (sv_conns s2)" "hd_addr (sv_conns s2 ! tx2) = p"
    using inv2(3) by (simp_all add: tags_inv_def tagged_def q2)
  then have "awaits_reply tx2 (sv_conns s2 ! tx2) (sv_queue s2)" using inv2(2) by (simp add: all_inv_def replies_inv_def)
  then have "hd_phase (sv_conns s2 ! tx2) \<noteq> HEnded" by (auto simp: awaits_reply_def q2)
  then have "tx2 = cid"
    using addrs_distinctD [OF _ tx2(1) cid _ _ live] tx2(2) addr inv2(2) by (simp add: all_inv_def sessions_inv_def)
  then have head: "sv_queue s2 = (cid, CmdSubscribe p v) # q2" using q2 by simp
  have "sv_run x s0 [ActorStep] (routing_events s0 ActorStep @ []) s1" by (rule sv_cons [OF step sv_nil])
  from sv_run_append [OF sv_run_append [OF run0 this] run2]
  obtain es' ev' where runs: "sv_run x (server_init config) es' ev' s2" by blast
  have "chan_log v (ch_history (sv_chans s2 cid)) = []" using quiet by (simp add: silent_def)
  then have empty: "chan_log v (ch_queue (sv_chans s2 cid)) = []" by (simp add: ch_history_def)
  have own: "\<forall>reply. SysCmd (CmdSubscribe p v) reply \<notin> set xs2 \<and> SysCmd (CmdUnsubscribe p v) reply \<notin> set xs2"
    "\<forall>act d h reply. SysCmd (CmdUpdate p act v d h) reply \<notin> set xs2"
    using none(2) by (auto simp: filter_empty_conv)
  obtain ms where ms: "ts_written (hd_stream (sv_conns s ! cid)) = ts_written (hd_stream (sv_conns s2 ! cid)) @ wire_bytes x ms"
    "apply_log (chan_log v ms) {} = {(d, h). (v, d, h) \<in> rt_abs (a_routes (sv_actor s))}"
    "\<forall>m \<in> set ms. sound_message m"
    using subscription_mirrors [OF x runs head reg empty rest2 own phase left drained still] by blast
  obtain ms0 where ms0: "ts_written (hd_stream (sv_conns s2 ! cid)) = wire_bytes x ms0"
    "opened (hd_phase (sv_conns s2 ! cid)) ms0" "chan_log v ms0 = []" "\<forall>m \<in> set ms0. sound_message m"
    using quiet sv_run_left [OF rest2 x cid left] by (auto simp: silent_def)
  have "conn_stage s2 cid = During"
    using \<open>awaits_reply tx2 (sv_conns s2 ! tx2) (sv_queue s2)\<close> \<open>tx2 = cid\<close>
    by (auto simp: awaits_reply_def head split: handler_phase.splits)
  then obtain k ms1 where ms1: "ms0 = MsgHello k True # MsgKeepalive # ms1" using ms0(2) opened_during by blast
  have "ts_written (hd_stream (sv_conns s ! cid)) = wire_bytes x (ms0 @ ms)"
    unfolding ms(1) ms0(1) by (rule wire_bytes_simps(3) [symmetric])
  then have "ts_written (hd_stream (sv_conns s ! cid)) = wire_bytes x (MsgHello k True # MsgKeepalive # ms1 @ ms)"
    by (simp only: ms1 append_Cons)
  moreover have "apply_log (chan_log v (ms1 @ ms)) {} = {(d, h). (v, d, h) \<in> rt_abs (a_routes (sv_actor s))}"
    using ms(2) ms0(3) by (simp add: ms1)
  moreover have "\<forall>m \<in> set (ms1 @ ms). sound_message m" using ms(3) ms0(4) by (auto simp: ms1)
  ultimately show ?thesis by blast
qed

end
