(* ===== verification/Conversations.thy ===== *)
theory Conversations
  imports Subscriptions
begin

text \<open>
  What the actor hears of a peer is what the peer says: the commands of a connection, those
  the actor has handled since it was told of the connection and those still in the queue,
  are the messages in the bytes the connection has read, in order.
\<close>

section \<open>What a peer says\<close>

text \<open>The bytes a connection reads in its main loop.\<close>

fun conn_reads :: "chan_id \<Rightarrow> system_event list \<Rightarrow> u8 list" where
  "conn_reads cid [] = []"
| "conn_reads cid (ConnEvent tx (SDataRead (Inr data) now) # es) = (if tx = cid then data else []) @ conn_reads cid es"
| "conn_reads cid (_ # es) = conn_reads cid es"

lemma conn_reads_append: "conn_reads cid (es @ es') = conn_reads cid es @ conn_reads cid es'"
  by (induction cid es rule: conn_reads.induct) simp_all

text \<open>The command a message becomes.\<close>

fun command_for :: "socket_addr \<Rightarrow> message \<Rightarrow> routing_command option" where
  "command_for p (MsgSubscribe v) = Some (CmdSubscribe p v)"
| "command_for p (MsgUnsubscribe v) = Some (CmdUnsubscribe p v)"
| "command_for p (MsgUpdate act v d h) = Some (CmdUpdate p act v d h)"
| "command_for p _ = None"

definition commands_of :: "socket_addr \<Rightarrow> message list \<Rightarrow> routing_command list" where
  "commands_of p ms = List.map_filter (command_for p) ms"

lemma commands_of_append [simp]: "commands_of p (ms @ ms') = commands_of p ms @ commands_of p ms'"
  by (simp add: commands_of_def List.map_filter_def)

lemma commands_of_simps [simp]:
  "commands_of p [] = []" "commands_of p (m # ms) = (case command_for p m of None \<Rightarrow> [] | Some cmd \<Rightarrow> [cmd]) @ commands_of p ms"
  by (simp_all add: commands_of_def List.map_filter_def split: option.split)

section \<open>What the actor hears\<close>

definition queued :: "socket_addr \<Rightarrow> command_queue \<Rightarrow> routing_command list" where
  "queued p q = filter (\<lambda>cmd. command_peer cmd = Some p) (map snd q)"

lemma queued_simps [simp]:
  "queued p [] = []" "queued p (q @ q') = queued p q @ queued p q'"
  "queued p ((tx, cmd) # q) = (if command_peer cmd = Some p then [cmd] else []) @ queued p q"
  by (simp_all add: queued_def)

fun handled :: "socket_addr \<Rightarrow> sys_event list \<Rightarrow> routing_command list" where
  "handled p [] = []"
| "handled p (SysCmd cmd reply # ev) = (if command_peer cmd = Some p then [cmd] else []) @ handled p ev"
| "handled p (_ # ev) = handled p ev"

lemma handled_append [simp]: "handled p (ev @ ev') = handled p ev @ handled p ev'"
  by (induction p ev rule: handled.induct) simp_all

text \<open>What happened since the actor was told of the connection.\<close>

fun is_connect :: "socket_addr \<Rightarrow> chan_id \<Rightarrow> sys_event \<Rightarrow> bool" where
  "is_connect p cid (SysCmd (PeerConnected q tx) reply) \<longleftrightarrow> q = p \<and> tx = cid"
| "is_connect p cid _ \<longleftrightarrow> False"

definition told :: "socket_addr \<Rightarrow> chan_id \<Rightarrow> sys_event list \<Rightarrow> bool" where
  "told p cid ev \<longleftrightarrow> (\<exists>e \<in> set ev. is_connect p cid e)"

definition since :: "socket_addr \<Rightarrow> chan_id \<Rightarrow> sys_event list \<Rightarrow> sys_event list" where
  "since p cid ev = tl (dropWhile (\<lambda>e. \<not> is_connect p cid e) ev)"

lemma told_simps [simp]:
  "\<not> told p cid []" "told p cid (ev @ ev') \<longleftrightarrow> told p cid ev \<or> told p cid ev'"
  "told p cid (e # ev) \<longleftrightarrow> is_connect p cid e \<or> told p cid ev"
  by (auto simp: told_def)

lemma since_append: "told p cid ev \<Longrightarrow> since p cid (ev @ ev') = since p cid ev @ ev'"
  by (induction ev) (auto simp: since_def)

lemma since_connect: "\<not> told p cid ev \<Longrightarrow> is_connect p cid e \<Longrightarrow> since p cid (ev @ e # ev') = ev'"
  by (induction ev) (auto simp: since_def)

lemma is_connect_iff: "is_connect p cid e \<longleftrightarrow> (\<exists>reply. e = SysCmd (PeerConnected p cid) reply)"
  by (cases "(p, cid, e)" rule: is_connect.cases) auto

lemma since_split:
  assumes "told p cid ev"
  obtains ev0 reply where "ev = ev0 @ SysCmd (PeerConnected p cid) reply # since p cid ev"
proof -
  have "\<exists>ev0 e. is_connect p cid e \<and> ev = ev0 @ e # since p cid ev"
    using assms
  proof (induction ev)
    case (Cons e ev)
    show ?case
    proof (cases "is_connect p cid e")
      case True
      then show ?thesis by (intro exI [of _ "[]"] exI [of _ e]) (simp add: since_def)
    next
      case False
      then have "since p cid (e # ev) = since p cid ev" by (simp add: since_def)
      with Cons False show ?thesis by simp (metis append_Cons)
    qed
  qed simp
  with that show thesis by (auto simp: is_connect_iff)
qed

lemma filter_concerns: "map (\<lambda>e. case e of SysCmd cmd reply \<Rightarrow> Some cmd | _ \<Rightarrow> None) (filter (concerns p v) ev) =
    map Some (filter (\<lambda>cmd. command_vni cmd = Some v) (handled p ev))"
  by (induction p ev rule: handled.induct) auto

section \<open>The invariant\<close>

fun unread :: "handler_phase \<Rightarrow> u8 list" where
  "unread (HWait (SLoop n last_received round_start buf)) = buf"
| "unread (HHandle n now buf) = buf"
| "unread (HSubscribe n now buf v) = buf"
| "unread _ = []"

text \<open>
  A connection in its main loop that has read \<open>b\<close>: the messages it is done with are the
  commands the actor was sent.
\<close>

definition cut_messages :: "externals \<Rightarrow> message list \<Rightarrow> u8 list \<Rightarrow> message list \<times> u8 list \<times> error option" where
  "cut_messages x ms buf = (case frames (message_decode x) need_more_data buf of (ms', rest, e) \<Rightarrow> (ms @ ms', rest, e))"

definition talks :: "externals \<Rightarrow> socket_addr \<Rightarrow> chan_id \<Rightarrow> u8 list \<Rightarrow> sys_event list \<Rightarrow> server \<Rightarrow> message list \<Rightarrow> bool" where
  "talks x p cid b ev s ms \<longleftrightarrow>
     frames (message_decode x) need_more_data b = cut_messages x ms (unread (hd_phase (sv_conns s ! cid))) \<and>
     (\<forall>n t0 t1 buf. hd_phase (sv_conns s ! cid) = HWait (SLoop n t0 t1 buf) \<longrightarrow> cut_messages x [] buf = ([], buf, None)) \<and>
     (if told p cid ev then handled p (since p cid ev) @ queued p (sv_queue s) = commands_of p ms
      else \<exists>q1 q2. sv_queue s = q1 @ (cid, PeerConnected p cid) # q2 \<and> queued p q2 = commands_of p ms)"

definition talk_inv :: "externals \<Rightarrow> chan_id \<Rightarrow> u8 list \<Rightarrow> sys_event list \<Rightarrow> server \<Rightarrow> bool" where
  "talk_inv x cid b ev s \<longleftrightarrow>
     (if cid < length (sv_conns s) \<and> conn_stage s cid \<noteq> Before
      then conn_stage s cid = During \<longrightarrow> (\<exists>ms. talks x (hd_addr (sv_conns s ! cid)) cid b ev s ms)
      else b = [] \<and> (\<forall>p. \<not> told p cid ev))"

section \<open>Steps of others\<close>

definition quiet :: "sys_event list \<Rightarrow> bool" where
  "quiet ev \<longleftrightarrow> (\<forall>cmd reply. SysCmd cmd reply \<notin> set ev)"

lemma quiet_events:
  assumes "quiet evs"
  shows "handled p evs = []" and "\<not> told p cid evs"
proof -
  show "\<not> told p cid evs" using assms by (auto simp: told_def is_connect_iff quiet_def)
  show "handled p evs = []" using assms by (induction p evs rule: handled.induct) (auto simp: quiet_def)
qed

lemma routing_events_commands: "e \<noteq> ActorStep \<Longrightarrow> quiet (routing_events s e)"
  by (cases "(s, e)" rule: routing_events.cases) (auto simp: quiet_def)

lemma talks_more:
  assumes t: "talks x p cid b ev s ms" and "quiet evs" and "sv_queue s' = sv_queue s @ new" and "queued p new = commands_of p ms2"
    and read: "frames (message_decode x) need_more_data b' = cut_messages x (ms @ ms2) (unread (hd_phase (sv_conns s' ! cid)))"
    and wait: "\<And>n t0 t1 buf. hd_phase (sv_conns s' ! cid) = HWait (SLoop n t0 t1 buf) \<Longrightarrow> cut_messages x [] buf = ([], buf, None)"
  shows "talks x p cid b' (ev @ evs) s' (ms @ ms2)"
proof (cases "told p cid ev")
  case True
  with assms quiet_events [OF assms(2)] show ?thesis
    by (auto simp: talks_def since_append)
next
  case False
  then obtain q1 q2 where "sv_queue s = q1 @ (cid, PeerConnected p cid) # q2" "queued p q2 = commands_of p ms"
    using t by (auto simp: talks_def)
  then have q: "sv_queue s' = q1 @ (cid, PeerConnected p cid) # (q2 @ new)" "queued p (q2 @ new) = commands_of p (ms @ ms2)"
    using assms(3,4) by simp_all
  have untold: "\<not> told p cid (ev @ evs)" using False quiet_events(2) [OF assms(2)] by simp
  show ?thesis
    unfolding talks_def if_not_P [OF untold] by (intro conjI allI impI exI [of _ q1] exI [of _ "q2 @ new"] read q) (rule wait)
qed

lemma talk_inv_others:
  assumes inv: "talk_inv x cid b ev s" and "quiet evs" and queue: "sv_queue s' = sv_queue s @ new"
    and old: "cid < length (sv_conns s) \<Longrightarrow> cid < length (sv_conns s') \<and>
      hd_phase (sv_conns s' ! cid) = hd_phase (sv_conns s ! cid) \<and> hd_addr (sv_conns s' ! cid) = hd_addr (sv_conns s ! cid)"
    and fresh: "\<not> cid < length (sv_conns s) \<Longrightarrow> cid < length (sv_conns s') \<Longrightarrow> conn_stage s' cid = Before"
    and others: "\<And>p. serving s cid p \<Longrightarrow> queued p new = []"
  shows "talk_inv x cid b (ev @ evs) s'"
proof (cases "cid < length (sv_conns s) \<and> conn_stage s cid \<noteq> Before")
  case True
  note old = old [OF conjunct1 [OF True]]
  have "\<exists>ms. talks x (hd_addr (sv_conns s ! cid)) cid b (ev @ evs) s' ms" if during: "conn_stage s cid = During"
  proof -
    obtain ms where ms: "talks x (hd_addr (sv_conns s ! cid)) cid b ev s ms" using inv True during by (auto simp: talk_inv_def)
    have "queued (hd_addr (sv_conns s ! cid)) new = []" using others True during by (simp add: serving_def)
    then have "talks x (hd_addr (sv_conns s ! cid)) cid b (ev @ evs) s' (ms @ [])"
      by (intro talks_more [OF ms assms(2) queue]) (use ms in \<open>simp_all add: talks_def old\<close>)
    then show ?thesis by blast
  qed
  with True old show ?thesis by (simp add: talk_inv_def)
next
  case False
  then have "b = [] \<and> (\<forall>p. \<not> told p cid ev)" using inv by (auto simp: talk_inv_def)
  moreover have "cid < length (sv_conns s') \<Longrightarrow> conn_stage s' cid = Before"
    using False old fresh by (cases "cid < length (sv_conns s)") auto
  ultimately show ?thesis using quiet_events(2) [OF assms(2)] by (auto simp: talk_inv_def)
qed

text \<open>Another connection says nothing in the name of the peer.\<close>

lemma moves_others_queue:
  assumes m: "handler_moves tx s s'" and "tx \<noteq> cid" and inv: "sessions_inv s"
  obtains new where "sv_queue s' = sv_queue s @ new" and "\<And>p. serving s cid p \<Longrightarrow> queued p new = []"
proof -
  obtain h' new where tx: "tx < length (sv_conns s)" "sv_conns s' = (sv_conns s)[tx := h']" "sv_queue s' = sv_queue s @ new"
      "hd_phase (sv_conns s ! tx) \<noteq> HEnded"
    and move: "session_move tx (hd_addr (sv_conns s ! tx)) (conn_stage s tx) (stage_of (hd_phase h')) new
      (sv_peers s) (sv_peers s')"
    by (rule handler_movesE [OF m])
  have "queued p new = []" if serve: "serving s cid p" for p
  proof -
    have "hd_addr (sv_conns s ! tx) \<noteq> p"
      using addrs_distinctD [of s tx cid] inv tx serve serving_live [OF serve] assms(2) by (auto simp: sessions_inv_def serving_def)
    then have "command_peer (snd e) \<noteq> Some p" if "e \<in> set new" for e using session_move_tagged [OF move that] by simp
    then show ?thesis by (auto simp: queued_def filter_empty_conv)
  qed
  with tx(3) show ?thesis using that by blast
qed

section \<open>Steps of the connection itself\<close>

text \<open>What a connection in its main loop does with an event: it keeps its buffer, or takes data.\<close>

lemma loop_event:
  assumes ev: "conn_event x cid ev s = Some s'" and ph: "hd_phase (sv_conns s ! cid) = HWait (SLoop n t0 t1 buf)"
    and during: "conn_stage s' cid = During"
  shows "sv_queue s' = sv_queue s \<and>
    ((\<exists>t0' t1'. hd_phase (sv_conns s' ! cid) = HWait (SLoop n t0' t1' buf)) \<and> conn_reads cid [ConnEvent cid ev] = [] \<or>
     (\<exists>b data now. ev = SDataRead (Inr (b # data)) now \<and> hd_phase (sv_conns s' ! cid) = HHandle n now (buf @ b # data)))"
proof (cases "\<exists>b data now. ev = SDataRead (Inr (b # data)) now")
  case True
  with assms conn_event_phases(1) [OF ev] show ?thesis by (auto simp: conn_event_def Let_def set_conn_def)
next
  case False
  let ?h = "sv_conns s ! cid"
  have cid: "cid < length (sv_conns s)" by (rule conn_event_phases(1) [OF ev])
  obtain c where c: "server_step x (enqueue cid) (sv_config s) (hd_addr ?h) cid ev (conn_view s ?h (SLoop n t0 t1 buf)) = Some c"
    and s': "sv_queue s' = sc_routing c" "hd_phase (sv_conns s' ! cid) = HWait (sc_phase c)"
    using ev cid ph False by (auto simp: conn_event_def Let_def split: if_splits server_event.splits sum.splits list.splits)
  have nodata: "data = []" if "ev = SDataRead (Inr data) now" for data now
    using False that by (metis list.exhaust)
  have "sc_phase (conn_view s ?h (SLoop n t0 t1 buf)) = SLoop n t0 t1 buf" by simp
  note step = c [unfolded server_step_def this server_phase.case]
  show ?thesis
  proof (cases ev)
    case (STimer now)
    with step during show ?thesis by (auto simp: s' server_cleanup_def split: if_splits)
  next
    case (SDataRead r now)
    with step during nodata show ?thesis
      by (cases r) (auto simp: s' server_cleanup_def server_data_def)
  next
    case (SBatch batch now)
    with step during show ?thesis
      by (auto simp: s' server_batch_def server_cleanup_def split: if_splits prod.splits sum.splits)
  qed (use step during in \<open>auto simp: s' server_cleanup_def\<close>)
qed

text \<open>A step of the message loop: it goes on, waits for more, or sends the command of a message.\<close>

lemma loop_step:
  assumes step: "handle_step x cid t s = Some s'" and during: "conn_stage s' cid = During"
  shows "sv_queue s' = sv_queue s \<and> unread (hd_phase (sv_conns s' ! cid)) = unread (hd_phase (sv_conns s ! cid)) \<and>
      (\<forall>n t0 t1 buf. hd_phase (sv_conns s' ! cid) = HWait (SLoop n t0 t1 buf) \<longrightarrow> cut_messages x [] buf = ([], buf, None)) \<or>
    (\<exists>m k. message_decode x (unread (hd_phase (sv_conns s ! cid))) = Inr (m, k) \<and>
      unread (hd_phase (sv_conns s' ! cid)) = drop k (unread (hd_phase (sv_conns s ! cid))) \<and>
      sv_queue s' = sv_queue s @ (case command_for (hd_addr (sv_conns s ! cid)) m of None \<Rightarrow> [] | Some cmd \<Rightarrow> [(cid, cmd)]) \<and>
      (\<forall>ph. hd_phase (sv_conns s' ! cid) \<noteq> HWait ph))"
proof -
  let ?h = "sv_conns s ! cid"
  have cid: "cid < length (sv_conns s)" using step by (simp add: handle_step_def split: if_splits)
  show ?thesis
  proof (cases "hd_phase ?h")
    case (HHandle n now buf)
    show ?thesis
    proof (cases "buf = []")
      case True
      with step cid HHandle show ?thesis
        by (auto simp: handle_step_def Let_def set_conn_def cut_messages_def wire_frames.frames_Nil)
    next
      case False
      show ?thesis
      proof (cases "message_decode x buf")
        case (Inl e)
        have "cut_messages x [] buf = ([], buf, None)" if "need_more_data e"
          using wire_frames.frames_stop [OF False Inl] that by (simp add: cut_messages_def)
        with step cid HHandle False Inl during show ?thesis
          by (auto simp: handle_step_def Let_def set_conn_def server_cleanup_def split: if_splits)
      next
        case (Inr mk)
        obtain m k where mk: "mk = (m, k)" by (cases mk)
        with step cid HHandle False Inr show ?thesis
          by (cases m) (auto simp: handle_step_def Let_def set_conn_def enqueue_def split: prod.splits)
      qed
    qed
  next
    case (HSubscribe n now buf v)
    with step cid show ?thesis by (auto simp: handle_step_def Let_def set_conn_def split: option.splits)
  qed (use step cid in \<open>simp_all add: handle_step_def Let_def\<close>)
qed

lemma cut_messages_decode:
  "message_decode x buf = Inr (m, k) \<Longrightarrow> cut_messages x ms buf = cut_messages x (ms @ [m]) (drop k buf)"
  using wire_frames.frames_msg [of x buf m k] by (simp add: cut_messages_def split: prod.split)

lemma handle_step_talk_inv:
  assumes step: "handle_step x cid t s = Some s'" and inv: "talk_inv x cid b ev s"
  shows "talk_inv x cid b ev s'"
proof -
  note m = handle_step_moves [OF step]
  have cid: "cid < length (sv_conns s)" and "conn_stage s cid = During"
    using step by (cases "hd_phase (sv_conns s ! cid)" rule: stage_of.cases; auto simp: handle_step_def Let_def split: if_splits)+
  then obtain ms where ms: "talks x (hd_addr (sv_conns s ! cid)) cid b ev s ms" using inv by (auto simp: talk_inv_def)
  let ?p = "hd_addr (sv_conns s ! cid)"
  have "\<exists>ms. talks x ?p cid b ev s' ms" if "conn_stage s' cid = During"
    using loop_step [OF step that]
  proof
    assume same: "sv_queue s' = sv_queue s \<and> unread (hd_phase (sv_conns s' ! cid)) = unread (hd_phase (sv_conns s ! cid)) \<and>
      (\<forall>n t0 t1 buf. hd_phase (sv_conns s' ! cid) = HWait (SLoop n t0 t1 buf) \<longrightarrow> cut_messages x [] buf = ([], buf, None))"
    then have "talks x ?p cid b ev s' ms" using ms by (simp add: talks_def)
    then show ?thesis by blast
  next
    assume "\<exists>m k. message_decode x (unread (hd_phase (sv_conns s ! cid))) = Inr (m, k) \<and>
      unread (hd_phase (sv_conns s' ! cid)) = drop k (unread (hd_phase (sv_conns s ! cid))) \<and>
      sv_queue s' = sv_queue s @ (case command_for ?p m of None \<Rightarrow> [] | Some cmd \<Rightarrow> [(cid, cmd)]) \<and>
      (\<forall>ph. hd_phase (sv_conns s' ! cid) \<noteq> HWait ph)"
    then obtain m k where mk: "message_decode x (unread (hd_phase (sv_conns s ! cid))) = Inr (m, k)"
      "unread (hd_phase (sv_conns s' ! cid)) = drop k (unread (hd_phase (sv_conns s ! cid)))"
      "sv_queue s' = sv_queue s @ (case command_for ?p m of None \<Rightarrow> [] | Some cmd \<Rightarrow> [(cid, cmd)])"
      "\<forall>ph. hd_phase (sv_conns s' ! cid) \<noteq> HWait ph" by blast
    have "queued ?p (case command_for ?p m of None \<Rightarrow> [] | Some cmd \<Rightarrow> [(cid, cmd)]) = commands_of ?p [m]"
      by (cases m) simp_all
    moreover have "frames (message_decode x) need_more_data b = cut_messages x (ms @ [m]) (unread (hd_phase (sv_conns s' ! cid)))"
      using ms cut_messages_decode [OF mk(1)] by (simp add: talks_def mk(2))
    ultimately have "talks x ?p cid b (ev @ []) s' (ms @ [m])"
      by (intro talks_more [OF ms _ mk(3)]) (use mk(4) in \<open>simp_all add: quiet_def\<close>)
    then show ?thesis by auto
  qed
  with cid moves_own(1) [OF m] moves_length [OF m] moves_own(2) [OF m] \<open>conn_stage s cid = During\<close> show ?thesis
    by (simp add: talk_inv_def)
qed

lemma handshake_event:
  assumes ev: "conn_event x cid ev s = Some s'" and before: "conn_stage s cid = Before"
  shows "conn_reads cid [ConnEvent cid ev] = [] \<and>
    (conn_stage s' cid = During \<longrightarrow> (\<exists>n t0 t1. hd_phase (sv_conns s' ! cid) = HWait (SLoop n t0 t1 [])) \<and>
       sv_queue s' = sv_queue s @ [(cid, PeerConnected (hd_addr (sv_conns s ! cid)) cid)])"
proof -
  let ?h = "sv_conns s ! cid"
  have cid: "cid < length (sv_conns s)" by (rule conn_event_phases(1) [OF ev])
  show ?thesis
  proof (cases "hd_phase ?h" rule: stage_of.cases)
    case 1
    then obtain read where read: "ev = SHelloRead read"
      using ev cid by (cases ev) (auto simp: conn_event_def Let_def server_step_def split: if_splits sum.splits list.splits)
    with ev cid 1 show ?thesis
      by (auto simp: conn_event_def Let_def server_step_def server_hello_def split: sum.splits option.splits prod.splits)
  next
    case (2 n)
    then obtain read now where read: "ev = SKeepaliveRead read now"
      using ev cid by (cases ev) (auto simp: conn_event_def Let_def server_step_def split: if_splits sum.splits list.splits)
    with ev cid 2 show ?thesis
      by (auto simp: conn_event_def Let_def server_step_def server_keepalive_def enqueue_def split: sum.splits prod.splits if_splits)
  qed (use before in simp_all)
qed

lemma conn_event_talk_inv:
  assumes ev: "conn_event x cid ev s = Some s'" and inv: "talk_inv x cid b evs s"
  shows "talk_inv x cid (b @ conn_reads cid [ConnEvent cid ev]) (evs @ routing_events s (ConnEvent cid ev)) s'"
proof -
  note m = conn_event_moves [OF ev]
  have cid: "cid < length (sv_conns s)" by (rule conn_event_phases(1) [OF ev])
  have quiet: "quiet (routing_events s (ConnEvent cid ev))" by (rule routing_events_commands) simp
  let ?p = "hd_addr (sv_conns s ! cid)" and ?b = "b @ conn_reads cid [ConnEvent cid ev]"
    and ?evs = "evs @ routing_events s (ConnEvent cid ev)"
  obtain ph where ph: "hd_phase (sv_conns s ! cid) = HWait ph" using conn_event_phases(2) [OF ev] by blast
  show ?thesis
  proof (cases "conn_stage s cid = Before")
    case True
    note shake = handshake_event [OF ev True]
    have b: "b = []" "\<not> told p cid ?evs" for p
      using inv True quiet_events(2) [OF quiet] by (simp_all add: talk_inv_def)
    have "\<exists>ms. talks x ?p cid ?b ?evs s' ms" if during: "conn_stage s' cid = During"
    proof -
      from shake during obtain n t0 t1 where "hd_phase (sv_conns s' ! cid) = HWait (SLoop n t0 t1 [])"
        "sv_queue s' = sv_queue s @ [(cid, PeerConnected ?p cid)]" by blast
      then have "talks x ?p cid ?b ?evs s' []"
        using shake b by (simp add: talks_def cut_messages_def wire_frames.frames_Nil)
          (intro exI [of _ "sv_queue s"] exI [of _ "[]"], simp)
      then show ?thesis by blast
    qed
    with shake b moves_own(1) [OF m] show ?thesis by (simp add: talk_inv_def)
  next
    case False
    have "\<exists>ms. talks x ?p cid ?b ?evs s' ms" if during: "conn_stage s' cid = During"
    proof -
      have "conn_stage s cid = During" using moves_stage_after [OF m] during False by (cases "conn_stage s cid") auto
      with ph obtain n t0 t1 buf where loop: "hd_phase (sv_conns s ! cid) = HWait (SLoop n t0 t1 buf)" by (cases ph) auto
      obtain ms where ms: "talks x ?p cid b evs s ms" using inv cid \<open>conn_stage s cid = During\<close> by (auto simp: talk_inv_def)
      have wait: "frames (message_decode x) need_more_data buf = ([], buf, None)"
        and read: "frames (message_decode x) need_more_data b = (ms, buf, None)"
        using ms loop by (simp_all add: talks_def cut_messages_def split: prod.splits)
      from loop_event [OF ev loop during] have queue: "sv_queue s' = sv_queue s @ []"
        and "(\<exists>t0' t1'. hd_phase (sv_conns s' ! cid) = HWait (SLoop n t0' t1' buf)) \<and> conn_reads cid [ConnEvent cid ev] = [] \<or>
          (\<exists>b data now. ev = SDataRead (Inr (b # data)) now \<and> hd_phase (sv_conns s' ! cid) = HHandle n now (buf @ b # data))"
        by simp_all
      then have "frames (message_decode x) need_more_data ?b = cut_messages x (ms @ []) (unread (hd_phase (sv_conns s' ! cid))) \<and>
          (\<forall>n t0 t1 buf. hd_phase (sv_conns s' ! cid) = HWait (SLoop n t0 t1 buf) \<longrightarrow> cut_messages x [] buf = ([], buf, None))"
        using wait read wire_frames.frames_append [OF read] by (auto simp: cut_messages_def)
      then have "talks x ?p cid ?b ?evs s' (ms @ [])"
        by (intro talks_more [OF ms quiet queue]) simp_all
      then show ?thesis by blast
    qed
    with False cid moves_own(1) [OF m] moves_length [OF m] moves_own(2) [OF m False] show ?thesis
      by (simp add: talk_inv_def)
  qed
qed

text \<open>The actor handles the next command.\<close>

lemma actor_step_talk_inv:
  assumes a: "actor_step s = Some s'" and inv: "talk_inv x cid b ev s" and tags: "tags_inv s"
  shows "talk_inv x cid b (ev @ routing_events s ActorStep) s'"
proof -
  obtain tx cmd q reply a' chans hs where q: "sv_queue s = (tx, cmd) # q" and queue: "sv_queue s' = q"
    by (rule actor_step_cases [OF a]) simp
  define e where "e = SysCmd cmd (fst (actor_handle cmd (routing s)))"
  have events: "routing_events s ActorStep = [e]" by (simp add: q e_def)
  note same = actor_step_same [OF a]
  have len: "cid < length (sv_conns s') \<longleftrightarrow> cid < length (sv_conns s)" using same by (simp add: same_handlers_def)
  show ?thesis
  proof (cases "cid < length (sv_conns s) \<and> conn_stage s cid \<noteq> Before")
    case True
    then have ph: "hd_phase (sv_conns s' ! cid) = hd_phase (sv_conns s ! cid)" "hd_addr (sv_conns s' ! cid) = hd_addr (sv_conns s ! cid)"
      using same by (simp_all add: same_handlers_def)
    let ?p = "hd_addr (sv_conns s ! cid)"
    have "\<exists>ms. talks x ?p cid b (ev @ [e]) s' ms" if during: "conn_stage s cid = During"
    proof -
      obtain ms where ms: "talks x ?p cid b ev s ms" using inv True during by (auto simp: talk_inv_def)
      have "talks x ?p cid b (ev @ [e]) s' ms"
      proof (cases "told ?p cid ev")
        case True
        with ms show ?thesis by (simp add: talks_def ph queue q since_append e_def)
      next
        case False
        then obtain q1 q2 where split: "(tx, cmd) # q = q1 @ (cid, PeerConnected ?p cid) # q2" "queued ?p q2 = commands_of ?p ms"
          using ms by (auto simp: talks_def q)
        show ?thesis
        proof (cases q1)
          case Nil
          then have "is_connect ?p cid e" "q = q2" using split(1) by (simp_all add: e_def)
          then show ?thesis using ms False split(2) since_connect [OF False, of e "[]"] by (simp add: talks_def ph queue)
        next
          case (Cons e' q1')
          have "cid \<in> set (connects q)" using split(1) Cons by simp
          then have "tx \<noteq> cid" using tags by (auto simp: tags_inv_def q)
          then have "\<not> is_connect ?p cid e" using tags by (auto simp: tags_inv_def q tagged_def e_def is_connect_iff)
          with ms False split Cons show ?thesis by (auto simp: talks_def ph queue)
        qed
      qed
      then show ?thesis by blast
    qed
    with True ph len show ?thesis by (simp add: talk_inv_def events del: routing_events.simps)
  next
    case False
    have "\<not> is_connect p cid e" for p
      using tags False by (auto simp: tags_inv_def q tagged_def e_def is_connect_iff)
    moreover have "\<not> (cid < length (sv_conns s') \<and> conn_stage s' cid \<noteq> Before)" using False same len by (auto simp: same_handlers_def)
    ultimately show ?thesis using inv False by (auto simp: talk_inv_def events simp del: routing_events.simps)
  qed
qed

section \<open>The actor hears what the peer says\<close>

lemma sv_step_talk_inv:
  assumes step: "sv_step x s e s'" and inv: "talk_inv x cid b ev s" and all: "all_inv s" and tags: "tags_inv s"
  shows "talk_inv x cid (b @ conn_reads cid [e]) (ev @ routing_events s e) s'"
proof -
  have sessions: "sessions_inv s" using all by (simp add: all_inv_def)
  have other: "talk_inv x cid b (ev @ routing_events s e) s'" if m: "handler_moves tx s s'" and tx: "tx \<noteq> cid" and e: "e \<noteq> ActorStep" for tx
  proof -
    obtain new where new: "sv_queue s' = sv_queue s @ new" "\<And>p. serving s cid p \<Longrightarrow> queued p new = []"
      using moves_others_queue [OF m tx sessions] by blast
    show ?thesis
      by (rule talk_inv_others [OF inv routing_events_commands [OF e] new(1) _ _ new(2)])
        (use moves_other(1) [OF m tx] moves_length [OF m] in simp_all)
  qed
  have same: "talk_inv x cid b (ev @ routing_events s e) s'"
    if "same_handlers s s'" "sv_queue s' = sv_queue s @ []" "e \<noteq> ActorStep"
    by (rule talk_inv_others [OF inv routing_events_commands [OF that(3)] that(2)]) (use that(1) in \<open>simp_all add: same_handlers_def\<close>)
  show ?thesis
    using step
  proof (cases rule: sv_step.cases)
    case (sv_accept addr budget)
    have "talk_inv x cid b (ev @ []) s'"
      by (rule talk_inv_others [OF inv, where new = "[]"])
        (auto simp: sv_accept quiet_def accept_conn_def nth_append new_handler_def split: if_splits)
    then show ?thesis by (simp add: sv_accept)
  next
    case (sv_conn tx evt)
    show ?thesis
    proof (cases "tx = cid")
      case True
      with conn_event_talk_inv [OF _ inv, of evt s'] sv_conn show ?thesis by simp
    next
      case False
      then have "conn_reads cid [e] = []" by (cases "(cid, [e])" rule: conn_reads.cases) (auto simp: sv_conn)
      with other [OF conn_event_moves [OF sv_conn(2)] False] sv_conn(1) show ?thesis by simp
    qed
  next
    case (sv_handle tx t)
    then show ?thesis
      using handle_step_talk_inv [OF _ inv, of t s'] other [OF handle_step_moves [OF sv_handle(2)]]
      by (cases "tx = cid") simp_all
  next
    case (sv_return tx)
    note m = handler_return_moves [OF sv_return(2)]
    show ?thesis
    proof (cases "tx = cid")
      case False
      with other [OF m False] sv_return(1) show ?thesis by simp
    next
      case True
      have "cid < length (sv_conns s)" "conn_stage s cid = After"
        using sv_return True by (auto simp: handler_return_def Let_def split: if_splits handler_phase.splits server_phase.splits)
      with moves_stage_after [OF m] moves_length [OF m] True show ?thesis by (simp add: talk_inv_def)
    qed
  next
    case sv_actor
    with actor_step_talk_inv [OF sv_actor(2) inv tags] show ?thesis by simp
  qed (use same in \<open>simp_all add: same_handlers_def server_shutdown_def\<close>)
qed

lemma sv_run_talk_inv:
  "sv_run x s es evs s' \<Longrightarrow> talk_inv x cid b ev s \<Longrightarrow> all_inv s \<Longrightarrow> tags_inv s \<Longrightarrow>
     talk_inv x cid (b @ conn_reads cid es) (ev @ evs) s'"
proof (induction arbitrary: b ev rule: sv_run.induct)
  case (sv_nil s)
  then show ?case by simp
next
  case (sv_cons s e s' es rs s'')
  note step = sv_cons.hyps(1)
  have "chans_inv s" using sv_cons.prems(2) by (simp add: all_inv_def)
  from sv_cons.IH [OF sv_step_talk_inv [OF step sv_cons.prems] sv_step_all_inv [OF step sv_cons.prems(2)]
      sv_step_tags_inv [OF step this sv_cons.prems(3)]]
  show ?case using conn_reads_append [of cid "[e]" es] by simp
qed

text \<open>
  When a connection waits in its main loop, its buffer is what is left of what it has read; the
  messages before are the commands of the peer, handled since the actor was told of the
  connection or still queued; if the queue is empty, the actor was told.
\<close>

lemma session_heard:
  assumes run: "sv_run x (server_init config) es ev s" and cid: "cid < length (sv_conns s)"
    and phase: "hd_phase (sv_conns s ! cid) = HWait (SLoop n last_received round_start buf)"
    and p: "hd_addr (sv_conns s ! cid) = p" and idle: "sv_queue s = []"
  obtains ev0 ev1 reply ms where "ev = ev0 @ SysCmd (PeerConnected p cid) reply # ev1"
    and "frames (message_decode x) need_more_data (conn_reads cid es) = (ms, buf, None)" and "handled p ev1 = commands_of p ms"
proof -
  have "all_inv (server_init config)" by (rule server_run_all_inv [OF sv_nil])
  moreover have "talk_inv x cid [] [] (server_init config)" by (simp add: talk_inv_def server_init_def)
  ultimately have "talk_inv x cid ([] @ conn_reads cid es) ([] @ ev) s"
    by (intro sv_run_talk_inv [OF run]) (simp_all add: tags_inv_init)
  then obtain ms where ms: "talks x p cid (conn_reads cid es) ev s ms" using cid phase p by (auto simp: talk_inv_def)
  then have told: "told p cid ev" and "handled p (since p cid ev) = commands_of p ms"
    using idle by (simp_all add: talks_def split: if_splits)
  moreover have "frames (message_decode x) need_more_data (conn_reads cid es) = (ms, buf, None)"
    using ms phase by (auto simp: talks_def cut_messages_def split: prod.splits)
  ultimately show ?thesis using that since_split [OF told] by metis
qed


section \<open>One subscription\<close>

text \<open>The messages of a peer that are about a VNI.\<close>

fun about :: "vni \<Rightarrow> message \<Rightarrow> bool" where
  "about v (MsgSubscribe w) \<longleftrightarrow> w = v"
| "about v (MsgUnsubscribe w) \<longleftrightarrow> w = v"
| "about v (MsgUpdate act w d h) \<longleftrightarrow> w = v"
| "about v _ \<longleftrightarrow> False"

lemma commands_about: "filter (\<lambda>cmd. command_vni cmd = Some v) (commands_of p ms) = commands_of p (filter (about v) ms)"
proof (induction ms)
  case (Cons m ms)
  then show ?case by (cases "(v, m)" rule: about.cases) simp_all
qed simp

text \<open>
  A peer that says one thing of a VNI, that it subscribes, is heard to say this and nothing
  else of the VNI.
\<close>

lemma subscription_heard:
  assumes "sv_run x (server_init config) es ev s" and "cid < length (sv_conns s)"
    and "hd_phase (sv_conns s ! cid) = HWait (SLoop n last_received round_start buf)"
    and "hd_addr (sv_conns s ! cid) = p" and "sv_queue s = []"
    and sent: "frames (message_decode x) need_more_data (conn_reads cid es) = (ms, [], None)"
    and one: "filter (about v) ms = [MsgSubscribe v]"
  obtains ev0 reply0 ev1 reply where "ev = ev0 @ SysCmd (PeerConnected p cid) reply0 # ev1"
    and "filter (concerns p v) ev1 = [SysCmd (CmdSubscribe p v) reply]"
proof -
  obtain ev0 ev1 reply0 ms' where ev: "ev = ev0 @ SysCmd (PeerConnected p cid) reply0 # ev1"
    and read: "frames (message_decode x) need_more_data (conn_reads cid es) = (ms', buf, None)"
    and heard: "handled p ev1 = commands_of p ms'"
    by (rule session_heard [OF assms(1-5)])
  have "map (\<lambda>e. case e of SysCmd cmd reply \<Rightarrow> Some cmd | _ \<Rightarrow> None) (filter (concerns p v) ev1) = [Some (CmdSubscribe p v)]"
    using heard read sent one by (simp add: filter_concerns commands_about)
  then obtain e where e: "filter (concerns p v) ev1 = [e]"
    and cmd: "(case e of SysCmd cmd reply \<Rightarrow> Some cmd | _ \<Rightarrow> None) = Some (CmdSubscribe p v)"
    by (auto simp: map_eq_Cons_conv)
  obtain reply where "e = SysCmd (CmdSubscribe p v) reply" using cmd by (cases e) simp_all
  with e have "filter (concerns p v) ev1 = [SysCmd (CmdSubscribe p v) reply]" by simp
  with ev that show ?thesis by blast
qed

end
