(* ===== verification/Route_Ownership.thy ===== *)
theory Route_Ownership
  imports Conversations
begin

text \<open>
  What the server stores of a route that only one peer speaks of is what this peer last said
  of it on its connection.
\<close>

section \<open>One peer speaks of a route\<close>

fun touches :: "route_key \<Rightarrow> sys_event \<Rightarrow> socket_addr option" where
  "touches k (SysCmd (CmdUpdate q act v d h) reply) = (if (v, d, h) = k then Some q else None)"
| "touches k _ = None"

definition speaks_only :: "socket_addr \<Rightarrow> route_key \<Rightarrow> sys_event list \<Rightarrow> bool" where
  "speaks_only p k ev \<longleftrightarrow> list_all (\<lambda>e. touches k e = None \<or> touches k e = Some p) ev"

lemma speaks_only_simps [simp]:
  "speaks_only p k []" "speaks_only p k (e # ev) \<longleftrightarrow> (touches k e = None \<or> touches k e = Some p) \<and> speaks_only p k ev"
  "speaks_only p k (ev @ ev') \<longleftrightarrow> speaks_only p k ev \<and> speaks_only p k ev'"
  by (auto simp: speaks_only_def)

fun command_log :: "routing_command list \<Rightarrow> (action \<times> route_key) list" where
  "command_log [] = []"
| "command_log (CmdUpdate q act v d h # cmds) = (act, (v, d, h)) # command_log cmds"
| "command_log (_ # cmds) = command_log cmds"

lemma command_log_append: "command_log (xs @ ys) = command_log xs @ command_log ys"
  by (induction xs rule: command_log.induct) simp_all

lemma command_log_commands: "command_log (commands_of p ms) = message_log ms"
  by (induction ms rule: message_log.induct) simp_all

abbreviation owner_of :: "actor \<times> channels \<Rightarrow> route_key \<Rightarrow> socket_addr option" where
  "owner_of s \<equiv> sp_owners (actor_abs (fst s))"

text \<open>A route that nobody else speaks of has no other owner; of its peer it follows the updates.\<close>

lemma cmd_owner:
  assumes sp: "sp_step cmd (S, chans) reply (S', chans')"
    and only: "touches k (SysCmd cmd reply) = None \<or> touches k (SysCmd cmd reply) = Some p"
    and own: "sp_owners S k = None \<or> sp_owners S k = Some p" and stay: "cmd \<noteq> PeerDisconnected p"
  shows "sp_owners S' k = (if k \<in> apply_log (command_log (handled p [SysCmd cmd reply])) {k. sp_owners S k = Some p}
    then Some p else None)"
proof (cases cmd)
  case (PeerDisconnected q)
  with sp own stay show ?thesis by (auto simp: Let_def sp_disown_def)
next
  case (CmdUpdate q act v d h)
  with sp own only show ?thesis by (cases act) (auto simp: Let_def sp_owned_def split: if_splits)
qed (use sp own in auto)

lemma step_owner:
  assumes step: "sys_step s e s'" and inv: "sys_inv s" and only: "speaks_only p k [e]"
    and own: "owner_of s k = None \<or> owner_of s k = Some p" and stay: "PeerDisconnected p \<notin> set (handled p [e])"
  shows "owner_of s' k = (if k \<in> apply_log (command_log (handled p [e])) {k. owner_of s k = Some p} then Some p else None)"
  using step
proof (cases rule: sys_step.cases)
  case (sys_cmd cmd reply)
  obtain a chans a' chans' where s: "s = (a, chans)" "s' = (a', chans')" by (cases s, cases s')
  have sp: "sp_step cmd (actor_abs a, chans) reply (actor_abs a', chans')"
    by (rule sys_cmd_spec) (use sys_cmd(3) inv s in simp_all)
  have "cmd \<noteq> PeerDisconnected p" using stay sys_cmd(1) by auto
  from cmd_owner [OF sp _ _ this, of k] only own show ?thesis by (simp add: s sys_cmd(1))
qed (use own in auto)

text \<open>The end of a connection of the peer ends its ownership.\<close>

lemma step_free:
  assumes step: "sys_step s e s'" and inv: "sys_inv s" and only: "speaks_only p k [e]"
    and own: "owner_of s k = None \<or> owner_of s k = Some p"
  shows "owner_of s' k = None \<or> owner_of s' k = Some p"
proof (cases "\<exists>reply. e = SysCmd (PeerDisconnected p) reply")
  case True
  then obtain reply where e: "e = SysCmd (PeerDisconnected p) reply" by blast
  obtain a chans a' chans' where s: "s = (a, chans)" "s' = (a', chans')" by (cases s, cases s')
  have "actor_handle (PeerDisconnected p) (a, chans) = (reply, a', chans')"
    using step by (auto simp: s e elim: sys_step_elims)
  from sys_cmd_spec [OF _ this] inv own show ?thesis by (auto simp: s Let_def sp_disown_def)
next
  case False
  then have "PeerDisconnected p \<notin> set (handled p [e])" by (cases "(p, [e])" rule: handled.cases) auto
  from step_owner [OF step inv only own this] show ?thesis by simp
qed

lemma run_free:
  "sys_run s ev s' \<Longrightarrow> sys_inv s \<Longrightarrow> speaks_only p k ev \<Longrightarrow> owner_of s k = None \<or> owner_of s k = Some p \<Longrightarrow>
     owner_of s' k = None \<or> owner_of s' k = Some p"
proof (induction rule: sys_run.induct)
  case (run_cons s e s' es s'')
  have "owner_of s' k = None \<or> owner_of s' k = Some p"
    by (rule step_free [OF run_cons.hyps(1) run_cons.prems(1)]) (use run_cons.prems in simp_all)
  with run_cons sys_step_inv show ?case by simp
qed simp

lemma apply_log_cong: "(k \<in> S \<longleftrightarrow> k \<in> T) \<Longrightarrow> k \<in> apply_log us S \<longleftrightarrow> k \<in> apply_log us T"
  by (simp add: apply_log_last)

lemma run_owner:
  "sys_run s ev s' \<Longrightarrow> sys_inv s \<Longrightarrow> speaks_only p k ev \<Longrightarrow> PeerDisconnected p \<notin> set (handled p ev) \<Longrightarrow>
     owner_of s k = None \<or> owner_of s k = Some p \<Longrightarrow>
     owner_of s' k = (if k \<in> apply_log (command_log (handled p ev)) {k. owner_of s k = Some p} then Some p else None)"
proof (induction rule: sys_run.induct)
  case (run_cons s e s' es s'')
  have split: "handled p (e # es) = handled p [e] @ handled p es" using handled_append [of p "[e]" es] by simp
  have "owner_of s' k = (if k \<in> apply_log (command_log (handled p [e])) {k. owner_of s k = Some p} then Some p else None)"
    by (rule step_owner [OF run_cons.hyps(1) run_cons.prems(1)]) (use run_cons.prems split in simp_all)
  moreover from this have "owner_of s'' k = (if k \<in> apply_log (command_log (handled p es)) {k. owner_of s' k = Some p} then Some p else None)"
    by (intro run_cons.IH sys_step_inv [OF run_cons.hyps(1)]) (use run_cons.prems split in auto)
  moreover have "k \<in> apply_log (command_log (handled p es)) {k. owner_of s' k = Some p} \<longleftrightarrow>
      k \<in> apply_log (command_log (handled p es)) (apply_log (command_log (handled p [e])) {k. owner_of s k = Some p})"
    by (rule apply_log_cong) (use calculation(1) in simp)
  ultimately show ?case by (simp add: split command_log_append)
qed auto

section \<open>The server stores what its peers say\<close>

lemma commands_of_no_end: "PeerDisconnected p \<notin> set (commands_of p ms)"
  by (induction ms) (auto simp: commands_of_def List.map_filter_def elim!: command_for.elims)

text \<open>When the actor is told of a connection of a peer, no route belongs to the peer.\<close>

lemma told_owns_nothing:
  assumes q: "sv_queue s = (tx, PeerConnected p cid) # q" and "all_inv s"
  shows "owner_of (routing s) k \<noteq> Some p"
proof -
  obtain A where "within A (actor_abs (sv_actor s))" "queue_ok A (sv_queue s)"
    using assms(2) by (auto simp: all_inv_def sessions_inv_def)
  then show ?thesis by (cases k) (auto simp: q within_def)
qed

text \<open>A connection in its main loop whose peer is the only one that spoke of a route.\<close>

definition in_main_loop :: "handler \<Rightarrow> bool" where
  "in_main_loop h \<longleftrightarrow> (case hd_phase h of HWait (SLoop n last_received round_start buf) \<Rightarrow> True | _ \<Rightarrow> False)"

definition sole_speaker :: "server \<Rightarrow> sys_event list \<Rightarrow> chan_id \<Rightarrow> route_key \<Rightarrow> bool" where
  "sole_speaker s ev cid k \<longleftrightarrow>
     cid < length (sv_conns s) \<and> in_main_loop (sv_conns s ! cid) \<and> speaks_only (hd_addr (sv_conns s ! cid)) k ev"

text \<open>The routes announced and not withdrawn in what a connection has read.\<close>

definition said :: "externals \<Rightarrow> chan_id \<Rightarrow> system_event list \<Rightarrow> route_key set" where
  "said x cid es = apply_log (message_log (fst (frames (message_decode x) need_more_data (conn_reads cid es)))) {}"

lemma spoken_routes:
  assumes run: "sv_run x (server_init config) es ev s" and idle: "sv_queue s = []" and sole: "sole_speaker s ev cid k"
  shows "k \<in> rt_abs (a_routes (sv_actor s)) \<longleftrightarrow> k \<in> said x cid es"
proof -
  obtain n last_received round_start buf p where cid: "cid < length (sv_conns s)"
    and phase: "hd_phase (sv_conns s ! cid) = HWait (SLoop n last_received round_start buf)"
    and p: "hd_addr (sv_conns s ! cid) = p" and only: "speaks_only p k ev"
    using sole by (auto simp: sole_speaker_def in_main_loop_def split: handler_phase.splits server_phase.splits)
  obtain ev0 ev1 reply ms where ev: "ev = ev0 @ SysCmd (PeerConnected p cid) reply # ev1"
    and read: "frames (message_decode x) need_more_data (conn_reads cid es) = (ms, buf, None)"
    and heard: "handled p ev1 = commands_of p ms"
    by (rule session_heard [OF run cid phase p idle])
  obtain es0 es1 s0 where run0: "sv_run x (server_init config) es0 ev0 s0"
    and rest: "sv_run x s0 (ActorStep # es1) (SysCmd (PeerConnected p cid) reply # ev1) s"
    using sv_run_split [OF run ev] by blast
  obtain tx q s1 where q: "sv_queue s0 = (tx, PeerConnected p cid) # q" and step: "sv_step x s0 ActorStep s1"
    and run1: "sv_run x s1 es1 ev1 s"
    by (rule sv_run_actor [OF rest])
  have inv0: "all_inv s0" by (rule server_run_all_inv [OF run0])
  have inv1: "all_inv s1" by (rule sv_step_all_inv [OF step inv0])
  have sys: "sys_inv (routing s0)" "sys_inv (routing s1)" using inv0 inv1 by (simp_all add: all_inv_def chans_inv_def)
  have "sys_run sys_init ev0 (routing s0)"
    using sv_run_inv [OF run0 chans_inv_init sessions_inv_init] by (simp add: server_init_def sys_init_def)
  then have "owner_of (routing s0) k = None \<or> owner_of (routing s0) k = Some p"
    by (rule run_free) (use only ev sys_init_inv in \<open>simp_all add: sys_init_def actor_abs_def actor_new_def hm_get_def\<close>)
  then have none: "owner_of (routing s0) k = None" using told_owns_nothing [OF q inv0] by auto
  have "owner_of (routing s1) k = None"
  proof -
    have "sv_actor s1 = (sv_actor s0)\<lparr>a_peers := hm_insert p cid (a_peers (sv_actor s0))\<rparr>"
      using step q by (auto elim!: sv_step_elims simp: actor_step_def)
    then show ?thesis using none by (simp add: actor_abs_def)
  qed
  moreover have "sys_run (routing s1) ev1 (routing s)"
    using sv_run_inv [OF run1] inv1 by (simp add: all_inv_def)
  then have "owner_of (routing s) k =
      (if k \<in> apply_log (command_log (handled p ev1)) {k. owner_of (routing s1) k = Some p} then Some p else None)"
    by (rule run_owner) (use sys only ev calculation in \<open>simp_all add: heard commands_of_no_end\<close>)
  moreover have "k \<in> apply_log (message_log ms) {k. owner_of (routing s1) k = Some p} \<longleftrightarrow> k \<in> apply_log (message_log ms) {}"
    by (rule apply_log_cong) (use calculation(1) in simp)
  moreover have "actor_wf (sv_actor s)"
    using sv_run_all_inv [OF run1 inv1] by (simp add: all_inv_def chans_inv_def sys_inv_def)
  ultimately have "k \<in> rt_abs (a_routes (sv_actor s)) \<longleftrightarrow> k \<in> apply_log (message_log ms) {}"
    by (auto simp: actor_wf_routes heard command_log_commands simp del: rt_abs_iff split: if_splits)
  then show ?thesis by (simp add: said_def read)
qed

end
