(* ===== verification/Session_Runs.thy ===== *)
theory Session_Runs
  imports Route_Ownership Peer_Properties
begin

text \<open>
  Runs of the server that serve what its peers send: a handshake, an update, a subscription, a
  batch, each as the events of one exchange with the state after it; and an example of two
  peers, one of which subscribes to what the other announces.
\<close>

section \<open>Exchanges\<close>

text \<open>Steps that are nothing for the routing side, and a step of the actor.\<close>

lemma sv_quiet: "sv_step x s e s' \<Longrightarrow> routing_events s e = [] \<Longrightarrow> sv_run x s' es rs s'' \<Longrightarrow> sv_run x s (e # es) rs s''"
  using sv_cons [of x s e s' es rs s''] by simp

lemma sv_command:
  assumes "sv_queue s = (cid, cmd) # q" and "sv_step x s ActorStep s'" and "sv_run x s' es rs s''"
  shows "sv_run x s (ActorStep # es) (SysCmd cmd (fst (actor_handle cmd (routing s))) # rs) s''"
  using sv_cons [OF assms(2,3)] assms(1) by simp

text \<open>The handler of a connection after the handshake, in which its peer offered the interval \<open>k\<close>.\<close>

definition session_handler :: "externals \<Rightarrow> u32 \<Rightarrow> socket_addr \<Rightarrow> u32 \<Rightarrow> nat \<Rightarrow> handler" where
  "session_handler x own p k budget =
     \<lparr>hd_addr = p, hd_stream = \<lparr>ts_written = wire_bytes x [MsgHello own True, MsgKeepalive], ts_budget = budget\<rparr>,
      hd_phase = HWait (SLoop (negotiated_keepalive own k) 0 0 []), hd_reply = None, hd_signalled = False\<rparr>"

context externals_ok
begin

lemma decode_wire:
  assumes "sound_message m"
  shows "message_decode x (wire_bytes x [m]) = Inr (m, length (wire_bytes x [m]))" and "wire_bytes x [m] \<noteq> []"
proof -
  obtain b where b: "message_encode x m = Inr b" using message_encode_total by blast
  then show "message_decode x (wire_bytes x [m]) = Inr (m, length (wire_bytes x [m]))"
    using message_roundtrip [OF _ b, of "[]"] assms by (simp add: sound_message_def)
  show "wire_bytes x [m] \<noteq> []" using message_encode_length [OF b] b by auto
qed

text \<open>Sound messages are cut from the wire as they were put on it.\<close>

lemma frames_sound:
  assumes "\<forall>m \<in> set ms. sound_message m"
  shows "frames (message_decode x) need_more_data (wire_bytes x ms) = (ms, [], None)"
proof -
  have "map message_canon ms = ms" using assms by (simp add: map_idI sound_message_def)
  with frames_wire_bytes [of ms] assms show ?thesis by (simp add: sound_message_def)
qed

text \<open>A peer connects and shakes hands, and the actor is told.\<close>

lemma session_starts:
  assumes "sv_accepting s" and "addr_free p s" and "sv_queue s = []" and own: "cfg_keepalive_interval (sv_config s) = own"
    and cid: "cid = length (sv_conns s)"
  shows "sv_run x s
    [Accept p (budget + 2), ConnEvent cid (SHelloRead (Inr (wire_bytes x [MsgHello k False]))),
     ConnEvent cid (SKeepaliveRead (Some (Inr (wire_bytes x [MsgKeepalive]))) 0), ActorStep]
    [SysCmd (PeerConnected p cid) NoReply]
    (s\<lparr>sv_actor := (sv_actor s)\<lparr>a_peers := hm_insert p cid (a_peers (sv_actor s))\<rparr>,
       sv_peers := hm_insert p \<lparr>ph_tx = cid, ph_state = Established\<rparr> (sv_peers s),
       sv_conns := sv_conns s @ [session_handler x own p k budget]\<rparr>)" (is "sv_run x s _ _ ?s4")
proof -
  let ?h = "\<lambda>w b ph. \<lparr>hd_addr = p, hd_stream = \<lparr>ts_written = wire_bytes x w, ts_budget = b\<rparr>,
      hd_phase = HWait ph, hd_reply = None, hd_signalled = False\<rparr>"
  let ?s1 = "s\<lparr>sv_conns := sv_conns s @ [?h [] (budget + 2) SHello]\<rparr>"
  let ?s2 = "s\<lparr>sv_conns := sv_conns s @ [?h [MsgHello own True] (budget + 1) (SKeepalive (negotiated_keepalive own k))]\<rparr>"
  let ?s3 = "?s4\<lparr>sv_actor := sv_actor s, sv_queue := [(cid, PeerConnected p cid)]\<rparr>"
  have w: "wire_bytes x [] = []" "wire_bytes x [m] @ wire_bytes x [m'] = wire_bytes x [m, m']" for m m'
    using wire_bytes_simps(3) [of x "[m]" "[m']"] by simp_all
  note defs = w conn_event_def Let_def server_step_def put_conn_def set_conn_def conn_view_def
    send_message_ok session_handler_def assms(3) own cid
  have s1: "sv_step x s (Accept p (budget + 2)) ?s1"
    using sv_accept [OF assms(1,2), of x "budget + 2"] by (simp add: accept_conn_def new_handler_def w(1))
  have s2: "sv_step x ?s1 (ConnEvent cid (SHelloRead (Inr (wire_bytes x [MsgHello k False])))) ?s2"
    by (rule sv_conn) (simp_all add: defs server_hello_def receive_hello_bytes del: wire_bytes_simps)
  have s3: "sv_step x ?s2 (ConnEvent cid (SKeepaliveRead (Some (Inr (wire_bytes x [MsgKeepalive]))) 0)) ?s3"
    by (rule sv_conn)
      (simp_all add: defs server_keepalive_def receive_keepalive_bytes enqueue_def ROUTING_QUEUE_def del: wire_bytes_simps)
  have s4: "sv_step x ?s3 ActorStep ?s4" by (rule sv_actor) (simp add: actor_step_def assms(3))
  have "sv_run x ?s3 [ActorStep] [SysCmd (PeerConnected p cid) NoReply] ?s4"
    using sv_command [OF _ s4 sv_nil] by simp
  then show ?thesis
    by (intro sv_quiet [OF s1] sv_quiet [OF s2] sv_quiet [OF s3]) simp_all
qed

text \<open>An update is read, and the actor stores and distributes it.\<close>

lemma session_updates:
  assumes cid: "cid < length (sv_conns s)" and h: "sv_conns s ! cid = h" and ph: "hd_phase h = HWait (SLoop n t0 t1 [])"
    and addr: "hd_addr h = p" and q: "sv_queue s = []" and m: "m = MsgUpdate act v d hop" "sound_message m"
    and a: "handle_update p act v d hop (routing s) = (a, chans)"
  shows "sv_run x s [ConnEvent cid (SDataRead (Inr (wire_bytes x [m])) now), Handle cid now, Handle cid now, ActorStep]
    [SysCmd (CmdUpdate p act v d hop) NoReply]
    (s\<lparr>sv_conns := (sv_conns s)[cid := h\<lparr>hd_phase := HWait (SLoop n now now [])\<rparr>], sv_actor := a, sv_chans := chans\<rparr>)"
proof -
  let ?at = "\<lambda>ph q. s\<lparr>sv_conns := (sv_conns s)[cid := h\<lparr>hd_phase := ph\<rparr>], sv_queue := q\<rparr>"
  let ?cmd = "CmdUpdate p act v d hop"
  obtain b bs where bs: "wire_bytes x [m] = b # bs" using decode_wire(2) [OF m(2)] by (cases "wire_bytes x [m]") auto
  have dec: "message_decode x (b # bs) = Inr (m, length (b # bs))" using decode_wire(1) [OF m(2)] by (simp only: bs)
  have s1: "sv_step x s (ConnEvent cid (SDataRead (Inr (wire_bytes x [m])) now)) (?at (HHandle n now (b # bs)) [])"
    unfolding bs by (rule sv_conn) (use cid h ph q in \<open>simp_all add: conn_event_def Let_def set_conn_def\<close>)
  have s2: "sv_step x (?at (HHandle n now (b # bs)) []) (Handle cid now) (?at (HHandle n now []) [(cid, ?cmd)])"
    by (rule sv_handle) (use cid h addr q dec m(1) in
      \<open>simp_all add: handle_step_def Let_def set_conn_def enqueue_def ROUTING_QUEUE_def\<close>)
  have s3: "sv_step x (?at (HHandle n now []) [(cid, ?cmd)]) (Handle cid now) (?at (HWait (SLoop n now now [])) [(cid, ?cmd)])"
    by (rule sv_handle) (use cid h q in \<open>simp_all add: handle_step_def Let_def set_conn_def ROUTING_QUEUE_def\<close>)
  let ?s4 = "s\<lparr>sv_conns := (sv_conns s)[cid := h\<lparr>hd_phase := HWait (SLoop n now now [])\<rparr>], sv_actor := a, sv_chans := chans\<rparr>"
  have s4: "sv_step x (?at (HWait (SLoop n now now [])) [(cid, ?cmd)]) ActorStep ?s4"
    by (rule sv_actor) (use a q in \<open>simp add: actor_step_def\<close>)
  have "sv_run x (?at (HWait (SLoop n now now [])) [(cid, ?cmd)]) [ActorStep] [SysCmd ?cmd NoReply] ?s4"
    using sv_command [OF _ s4 sv_nil] by simp
  then show ?thesis
    by (intro sv_quiet [OF s1] sv_quiet [OF s2] sv_quiet [OF s3]) simp_all
qed

text \<open>A subscription is read, answered by the actor and the answer written.\<close>

lemma session_subscribes:
  assumes cid: "cid < length (sv_conns s)" and h: "sv_conns s ! cid = h" and ph: "hd_phase h = HWait (SLoop n t0 t1 [])"
    and addr: "hd_addr h = p" "hd_reply h = None" and q: "sv_queue s = []"
    and a: "handle_subscribe p v (sv_actor s) = (rs, a)"
    and st: "snd (send_all x (snapshot_messages v (RoutesReply rs)) (hd_stream h)) = st"
  shows "sv_run x s [ConnEvent cid (SDataRead (Inr (wire_bytes x [MsgSubscribe v])) now), Handle cid now, ActorStep,
      Handle cid now, Handle cid now] [SysCmd (CmdSubscribe p v) (RoutesReply rs)]
    (s\<lparr>sv_conns := (sv_conns s)[cid := h\<lparr>hd_stream := st, hd_phase := HWait (SLoop n now now [])\<rparr>], sv_actor := a\<rparr>)"
proof -
  let ?m = "MsgSubscribe v"
  let ?at = "\<lambda>ph q. s\<lparr>sv_conns := (sv_conns s)[cid := h\<lparr>hd_phase := ph\<rparr>], sv_queue := q\<rparr>"
  let ?cmd = "CmdSubscribe p v"
  have "sound_message ?m" by simp
  note dec' = decode_wire [OF this]
  obtain b bs where bs: "wire_bytes x [?m] = b # bs" using dec'(2) by (cases "wire_bytes x [?m]") auto
  have dec: "message_decode x (b # bs) = Inr (?m, length (b # bs))" using dec'(1) by (simp only: bs)
  have s1: "sv_step x s (ConnEvent cid (SDataRead (Inr (wire_bytes x [?m])) now)) (?at (HHandle n now (b # bs)) [])"
    unfolding bs by (rule sv_conn) (use cid h ph q in \<open>simp_all add: conn_event_def Let_def set_conn_def\<close>)
  have "h\<lparr>hd_reply := None\<rparr> = h" using addr(2) by (cases h) simp
  then have noreply: "h\<lparr>hd_phase := ph, hd_reply := None\<rparr> = h\<lparr>hd_phase := ph\<rparr>" for ph by (cases h) simp
  have s2: "sv_step x (?at (HHandle n now (b # bs)) []) (Handle cid now) (?at (HSubscribe n now [] v) [(cid, ?cmd)])"
    by (rule sv_handle) (use cid h addr q dec in
      \<open>simp_all add: noreply handle_step_def Let_def set_conn_def enqueue_def ROUTING_QUEUE_def\<close>)
  let ?s3 = "s\<lparr>sv_conns := (sv_conns s)[cid := h\<lparr>hd_phase := HSubscribe n now [] v, hd_reply := Some (RoutesReply rs)\<rparr>],
      sv_actor := a\<rparr>"
  have s3: "sv_step x (?at (HSubscribe n now [] v) [(cid, ?cmd)]) ActorStep ?s3"
    by (rule sv_actor) (use a q cid in \<open>simp add: actor_step_def set_conn_def\<close>)
  let ?s4 = "s\<lparr>sv_conns := (sv_conns s)[cid := h\<lparr>hd_stream := st, hd_phase := HHandle n now []\<rparr>], sv_actor := a\<rparr>"
  have "h\<lparr>hd_stream := w, hd_phase := ph, hd_reply := None\<rparr> = h\<lparr>hd_stream := w, hd_phase := ph\<rparr>" for ph w
    using addr(2) by (cases h) simp
  then have s4: "sv_step x ?s3 (Handle cid now) ?s4"
    by (intro sv_handle) (use cid st q in \<open>simp_all add: handle_step_def Let_def set_conn_def\<close>)
  let ?s5 = "s\<lparr>sv_conns := (sv_conns s)[cid := h\<lparr>hd_stream := st, hd_phase := HWait (SLoop n now now [])\<rparr>], sv_actor := a\<rparr>"
  have s5: "sv_step x ?s4 (Handle cid now) ?s5"
    by (rule sv_handle) (use cid q in \<open>simp_all add: handle_step_def Let_def set_conn_def\<close>)
  have "sv_run x ?s3 [Handle cid now, Handle cid now] [] ?s5"
    by (intro sv_quiet [OF s4] sv_quiet [OF s5]) simp_all
  then have "sv_run x (?at (HSubscribe n now [] v) [(cid, ?cmd)]) [ActorStep, Handle cid now, Handle cid now]
      [SysCmd ?cmd (RoutesReply rs)] ?s5"
    using sv_command [OF _ s3] a by simp
  then show ?thesis
    by (intro sv_quiet [OF s1] sv_quiet [OF s2]) simp_all
qed

text \<open>A batch is taken off the channel and written.\<close>

lemma session_writes:
  assumes cid: "cid < length (sv_conns s)" and h: "sv_conns s ! cid = h" and ph: "hd_phase h = HWait (SLoop n t0 t1 [])"
    and q: "sv_queue s = []" and batch: "prefix batch (ch_queue (sv_chans s cid))" "batch \<noteq> []" "length batch \<le> BATCH_LIMIT"
    and left: "0 < ts_budget (hd_stream h)"
  shows "sv_run x s [ConnEvent cid (SBatch batch now)] (map (SysTake cid) batch)
    (s\<lparr>sv_conns := (sv_conns s)[cid := h\<lparr>
         hd_stream := (hd_stream h)\<lparr>ts_written := ts_written (hd_stream h) @ wire_bytes x batch,
           ts_budget := ts_budget (hd_stream h) - 1\<rparr>, hd_phase := HWait (SLoop n t0 now [])\<rparr>],
       sv_chans := (sv_chans s)(cid := take_batch batch (sv_chans s cid))\<rparr>)" (is "sv_run x s _ _ ?s'")
proof -
  have "sv_step x s (ConnEvent cid (SBatch batch now)) ?s'"
    by (rule sv_conn) (use cid h ph q batch left in
      \<open>simp_all add: conn_event_def Let_def server_step_def server_batch_def write_all_def batch_bytes_wire
         put_conn_def set_conn_def conn_view_def not_less\<close>)
  from sv_cons [OF this sv_nil] show ?thesis by simp
qed

end

section \<open>An example\<close>

text \<open>A run in which the first two connections read \<open>b0\<close> and \<open>b1\<close> in their main loops.\<close>

definition exchange :: "externals \<Rightarrow> server \<Rightarrow> u8 list \<Rightarrow> u8 list \<Rightarrow> sys_event list \<Rightarrow> server \<Rightarrow> bool" where
  "exchange x s b0 b1 ev s' \<longleftrightarrow> (\<exists>es. sv_run x s es ev s' \<and> conn_reads 0 es = b0 \<and> conn_reads 1 es = b1)"

lemma exchangeI: "sv_run x s es ev s' \<Longrightarrow> conn_reads 0 es = b0 \<Longrightarrow> conn_reads 1 es = b1 \<Longrightarrow> exchange x s b0 b1 ev s'"
  by (auto simp: exchange_def)

lemma exchange_append:
  "exchange x s b0 b1 ev s' \<Longrightarrow> exchange x s' c0 c1 ev' s'' \<Longrightarrow> exchange x s (b0 @ c0) (b1 @ c1) (ev @ ev') s''"
  unfolding exchange_def by (metis sv_run_append conn_reads_append)

text \<open>
  Two peers connect, and the second announces a route. The first subscribes to its VNI and is
  answered with the route; then the second announces another one, which the first is sent.
\<close>

lemma example_mirror:
  obtains es s where "sv_run reference_externals (server_init server_config_default) es
      [SysCmd (PeerConnected peer1 0) NoReply, SysCmd (PeerConnected peer2 1) NoReply,
       SysCmd (CmdUpdate peer2 Add vni100 net24 hop1) NoReply, SysCmd (CmdSubscribe peer1 vni100) (RoutesReply [(net24, hop1)]),
       SysCmd (CmdUpdate peer2 Add vni100 net24 hop2) NoReply, SysTake 0 (MsgUpdate Add vni100 net24 hop2)] s"
    and "0 < length (sv_conns s) \<and> hd_addr (sv_conns s ! 0) = peer1" and "sv_queue s = []"
    and "conn_reads 0 es = wire_bytes reference_externals [MsgSubscribe vni100]"
    and "said reference_externals 1 es = {(vni100, net24, hop1), (vni100, net24, hop2)}"
    and "1 < length (sv_conns s) \<and> in_main_loop (sv_conns s ! 1) \<and> hd_addr (sv_conns s ! 1) = peer2"
    and "hd_phase (sv_conns s ! 0) = HWait (SLoop 5 1 3 [])" and "0 < ts_budget (hd_stream (sv_conns s ! 0))"
    and "ch_queue (sv_chans s 0) = []" and "hm_get (a_peers (sv_actor s)) peer1 = Some 0"
    and "rt_abs (a_routes (sv_actor s)) = {(vni100, net24, hop1), (vni100, net24, hop2)}"
    and "ts_written (hd_stream (sv_conns s ! 0)) = wire_bytes reference_externals
      [MsgHello 5 True, MsgKeepalive, MsgUpdate Add vni100 net24 hop1, MsgUpdate Add vni100 net24 hop2]"
proof -
  let ?x = reference_externals
  let ?m1 = "MsgUpdate Add vni100 net24 hop1" and ?m2 = "MsgUpdate Add vni100 net24 hop2"
  let ?h = "\<lambda>p ms t0 t1 b. \<lparr>hd_addr = p, hd_stream = \<lparr>ts_written = wire_bytes ?x (MsgHello 5 True # MsgKeepalive # ms), ts_budget = b\<rparr>,
      hd_phase = HWait (SLoop 5 t0 t1 []), hd_reply = None, hd_signalled = False\<rparr>"
  let ?ps = "[(peer1, \<lparr>ph_tx = 0, ph_state = Established\<rparr>), (peer2, \<lparr>ph_tx = 1, ph_state = Established\<rparr>)]"
  let ?actc = "actor_new\<lparr>a_peers := [(peer1, 0), (peer2, 1)]\<rparr>"
  let ?actd = "store_update peer2 Add vni100 net24 hop1 ?actc"
  let ?acte = "?actd\<lparr>a_subs := [(vni100, [peer1])]\<rparr>"
  let ?actf = "store_update peer2 Add vni100 net24 hop2 ?acte"
  let ?sva = "server_init server_config_default"
  let ?at = "\<lambda>a chans h1 h2. ?sva\<lparr>sv_actor := a, sv_chans := chans, sv_peers := ?ps, sv_conns := [h1, h2]\<rparr>"
  let ?none = "\<lambda>_ :: chan_id. new_channel"
  let ?new = "?none(0 := new_channel\<lparr>ch_queue := [?m2]\<rparr>)"
  note init = server_init_def server_config_default_def DEFAULT_KEEPALIVE_INTERVAL_def
  have u1: "handle_update peer2 Add vni100 net24 hop1 (?actc, ?none) = (?actd, ?none)"
    by (simp add: handle_update_store hm_or_default_def hm_get_def actor_new_def)
  have u2: "handle_update peer2 Add vni100 net24 hop2 (?acte, ?none) = (?actf, ?new)"
    by (simp add: handle_update_store hm_or_default_def hm_get_def try_send_def actor_new_def
        new_channel_def MAX_PENDING_MESSAGES_def)
  have sub: "handle_subscribe peer1 vni100 ?actd = ([(net24, hop1)], ?acte)"
    by (simp add: handle_subscribe_def Let_def actor_new_def hm_or_default_def hm_insert_def hs_insert_def
        get_destinations_by_vni_def rt_new_def store_update_def add_next_hop_def hm_get_def)
  have sound: "sound_route (net24, hop1)" "sound_route (net24, hop2)"
    by (simp_all add: sound_route_def next_hop_canon_def next_hop_standard_def next_hop_nat_def)
  have app: "wire_bytes ?x (MsgHello 5 True # MsgKeepalive # ms) @ wire_bytes ?x [m] =
      wire_bytes ?x (MsgHello 5 True # MsgKeepalive # ms @ [m])" for ms m
    using wire_bytes_simps(3) [of ?x "MsgHello 5 True # MsgKeepalive # ms" "[m]"] by simp
  have answer: "snd (send_all ?x (snapshot_messages vni100 (RoutesReply [(net24, hop1)])) \<lparr>ts_written = w, ts_budget = 7\<rparr>) =
      \<lparr>ts_written = w @ wire_bytes ?x [?m1], ts_budget = 6\<rparr>" for w
    by (simp add: snapshot_messages_def externals_ok.send_all_ok [OF reference.externals_ok_axioms] del: wire_bytes_simps send_all.simps)
  let ?svb = "?sva\<lparr>sv_actor := actor_new\<lparr>a_peers := [(peer1, 0)]\<rparr>,
      sv_peers := [(peer1, \<lparr>ph_tx = 0, ph_state = Established\<rparr>)], sv_conns := [?h peer1 [] 0 0 7]\<rparr>"
  let ?svc = "?at ?actc ?none (?h peer1 [] 0 0 7) (?h peer2 [] 0 0 7)"
  let ?svd = "?at ?actd ?none (?h peer1 [] 0 0 7) (?h peer2 [] 1 1 7)"
  let ?sve = "?at ?acte ?none (?h peer1 [?m1] 1 1 6) (?h peer2 [] 1 1 7)"
  let ?svf = "?at ?actf ?new (?h peer1 [?m1] 1 1 6) (?h peer2 [] 2 2 7)"
  let ?svg = "?at ?actf (?none(0 := take_batch [?m2] (?new 0))) (?h peer1 [?m1, ?m2] 1 3 5) (?h peer2 [] 2 2 7)"
  have "exchange ?x ?sva [] [] [SysCmd (PeerConnected peer1 0) NoReply] ?svb"
    using exchangeI [OF reference.session_starts [of ?sva peer1 5 0, where k = 5 and budget = 7] refl refl]
    by (auto simp: init addr_free_def session_handler_def actor_new_def hm_insert_def negotiated_keepalive_def
        simp del: wire_bytes_simps)
  moreover have "exchange ?x ?svb [] [] [SysCmd (PeerConnected peer2 1) NoReply] ?svc"
    using exchangeI [OF reference.session_starts [of ?svb peer2 5 1, where k = 5 and budget = 7] refl refl]
    by (auto simp: init addr_free_def session_handler_def actor_new_def hm_insert_def negotiated_keepalive_def
        simp del: wire_bytes_simps)
  moreover have "exchange ?x ?svc [] (wire_bytes ?x [?m1]) [SysCmd (CmdUpdate peer2 Add vni100 net24 hop1) NoReply] ?svd"
    using exchangeI [OF reference.session_updates [of 1 ?svc "?h peer2 [] 0 0 7" 5 0 0 peer2 ?m1 Add vni100 net24 hop1 ?actd ?none 1] refl refl] u1 sound
    by (auto simp: init simp del: wire_bytes_simps)
  moreover have "exchange ?x ?svd (wire_bytes ?x [MsgSubscribe vni100]) [] [SysCmd (CmdSubscribe peer1 vni100) (RoutesReply [(net24, hop1)])] ?sve"
    using exchangeI [OF reference.session_subscribes [of 0 ?svd "?h peer1 [] 0 0 7" 5 0 0 peer1 vni100 "[(net24, hop1)]" ?acte _ 1] refl refl] sub
    by (auto simp: init app answer simp del: wire_bytes_simps)
  moreover have "exchange ?x ?sve [] (wire_bytes ?x [?m2]) [SysCmd (CmdUpdate peer2 Add vni100 net24 hop2) NoReply] ?svf"
    using exchangeI [OF reference.session_updates [of 1 ?sve "?h peer2 [] 1 1 7" 5 1 1 peer2 ?m2 Add vni100 net24 hop2 ?actf ?new 2] refl refl] u2 sound
    by (auto simp: init simp del: wire_bytes_simps)
  moreover have "exchange ?x ?svf [] [] [SysTake 0 ?m2] ?svg"
    using exchangeI [OF reference.session_writes [of 0 ?svf "?h peer1 [?m1] 1 1 6" 5 1 1 "[?m2]" 3] refl refl]
    by (auto simp: init app BATCH_LIMIT_def simp del: wire_bytes_simps)
  ultimately have "exchange ?x ?sva ([] @ [] @ [] @ wire_bytes ?x [MsgSubscribe vni100] @ [] @ [])
      ([] @ [] @ wire_bytes ?x [?m1] @ [] @ wire_bytes ?x [?m2] @ [])
      ([SysCmd (PeerConnected peer1 0) NoReply] @ [SysCmd (PeerConnected peer2 1) NoReply] @
       [SysCmd (CmdUpdate peer2 Add vni100 net24 hop1) NoReply] @ [SysCmd (CmdSubscribe peer1 vni100) (RoutesReply [(net24, hop1)])] @
       [SysCmd (CmdUpdate peer2 Add vni100 net24 hop2) NoReply] @ [SysTake 0 ?m2]) ?svg"
    by (intro exchange_append)
  then obtain es where run: "sv_run ?x ?sva es
      [SysCmd (PeerConnected peer1 0) NoReply, SysCmd (PeerConnected peer2 1) NoReply,
       SysCmd (CmdUpdate peer2 Add vni100 net24 hop1) NoReply, SysCmd (CmdSubscribe peer1 vni100) (RoutesReply [(net24, hop1)]),
       SysCmd (CmdUpdate peer2 Add vni100 net24 hop2) NoReply, SysTake 0 ?m2] ?svg"
    and reads: "conn_reads 0 es = wire_bytes ?x [MsgSubscribe vni100]" "conn_reads 1 es = wire_bytes ?x [?m1] @ wire_bytes ?x [?m2]"
    by (auto simp: exchange_def simp del: wire_bytes_simps)
  have wf: "actor_wf ?actc" using actor_new_wf by (simp add: actor_wf_def actor_new_def hm_wf_def)
  then have "actor_wf ?acte"
    using handle_subscribe_wf [OF store_update_wf [OF wf], of peer1 vni100 peer2 Add vni100 net24 hop1] sub by simp
  with wf have "rt_abs (a_routes ?actf) = {(vni100, net24, hop1), (vni100, net24, hop2)}"
    by (simp add: store_update_routes actor_new_def del: rt_abs_iff) auto
  moreover have "said ?x 1 es = {(vni100, net24, hop1), (vni100, net24, hop2)}"
  proof -
    have "conn_reads 1 es = wire_bytes ?x [?m1, ?m2]" using reads(2) wire_bytes_simps(3) [of ?x "[?m1]" "[?m2]"] by simp
    then have "frames (message_decode ?x) need_more_data (conn_reads 1 es) = ([?m1, ?m2], [], None)"
      using reference.frames_sound [of "[?m1, ?m2]"] sound by (simp del: wire_bytes_simps)
    then show ?thesis by (auto simp: said_def)
  qed
  ultimately show ?thesis
    by (intro that [OF run _ _ reads(1)]) (simp_all add: in_main_loop_def take_batch_def hm_get_def actor_new_def new_channel_def server_init_def del: rt_abs_iff wire_bytes_simps)
qed

end
