(* ===== verification/System_Properties.thy ===== *)
theory System_Properties
  imports Session_Runs
begin

text \<open>
  Properties of the whole server: its runs refine the actor's, a connection that ends leaves
  nothing behind, the shutdown comes to an end except for connections that never sent a HELLO,
  and what is written to a subscriber is the server's table.
\<close>

section \<open>An example session\<close>

text \<open>A peer connects, and the actor has heard of it.\<close>

definition session_start :: "nat \<Rightarrow> system_event list" where
  "session_start budget =
     [Accept peer1 budget, ConnEvent 0 (SHelloRead (Inr (wire_bytes reference_externals [MsgHello 5 False]))),
      ConnEvent 0 (SKeepaliveRead (Some (Inr (wire_bytes reference_externals [MsgKeepalive]))) 0), ActorStep]"

definition session_server :: "nat \<Rightarrow> server" where
  "session_server budget = (server_init server_config_default)
     \<lparr>sv_actor := actor_new\<lparr>a_peers := [(peer1, 0)]\<rparr>,
      sv_peers := [(peer1, \<lparr>ph_tx = 0, ph_state = Established\<rparr>)],
      sv_conns := [\<lparr>hd_addr = peer1,
        hd_stream = \<lparr>ts_written = wire_bytes reference_externals [MsgHello 5 True, MsgKeepalive], ts_budget = budget\<rparr>,
        hd_phase = HWait (SLoop 5 0 0 []), hd_reply = None, hd_signalled = False\<rparr>]\<rparr>"

lemma example_session: "\<exists>rs. sv_run reference_externals (server_init server_config_default)
    (session_start (budget + 2)) rs (session_server budget)"
  using reference.session_starts [of "server_init server_config_default" peer1 5 0, where k = 5 and budget = budget]
  by (auto simp: session_start_def session_server_def server_init_def server_config_default_def addr_free_def actor_new_def
      hm_insert_def DEFAULT_KEEPALIVE_INTERVAL_def session_handler_def negotiated_keepalive_def simp del: wire_bytes_simps)

section \<open>Refinement\<close>

lemma sv_step_queue_bound:
  assumes "sv_step x s e s'" and "length (sv_queue s) \<le> ROUTING_QUEUE"
  shows "length (sv_queue s') \<le> ROUTING_QUEUE"
  using assms
proof (cases rule: sv_step.cases)
  case (sv_return cid)
  with assms(2) show ?thesis
    by (auto simp: handler_return_def Let_def set_conn_def split: if_splits handler_phase.splits server_phase.splits)
next
  case sv_actor
  from sv_actor(2) obtain cid cmd q reply a chans hs where "sv_queue s = (cid, cmd) # q"
    "s' = s\<lparr>sv_queue := q, sv_actor := a, sv_chans := chans, sv_conns := hs\<rparr>"
    by (rule actor_step_cases)
  with assms(2) show ?thesis by simp
qed (auto simp: accept_conn_def server_shutdown_def)

lemma sv_run_queue_bound:
  "sv_run x s es rs s' \<Longrightarrow> length (sv_queue s) \<le> ROUTING_QUEUE \<Longrightarrow> length (sv_queue s') \<le> ROUTING_QUEUE"
  by (induction rule: sv_run.induct) (auto dest: sv_step_queue_bound)

text \<open>C3: whatever the connections, the actor and the user of a server do, in whatever order, is for
  the routing side a run of the actor among its channels; so what holds of every such run
  holds of the server. The queue of commands never exceeds its capacity.\<close>

theorem system_refines_actor:
  assumes "sv_run x (server_init config) es rs s"
  shows "sys_run sys_init rs (sv_actor s, sv_chans s) \<and> sys_inv (sv_actor s, sv_chans s) \<and>
    length (sv_queue s) \<le> ROUTING_QUEUE"
proof -
  have "chans_inv s" "sys_run sys_init rs (routing s)" using server_run_inv [OF assms] by simp_all
  moreover have "length (sv_queue s) \<le> ROUTING_QUEUE"
    using sv_run_queue_bound [OF assms] by (simp add: server_init_def)
  ultimately show ?thesis by (simp add: chans_inv_def)
qed

theorem system_refines_actor_witness:
  "\<exists>rs. sys_run sys_init rs (actor_new\<lparr>a_peers := [(peer1, 0)]\<rparr>, \<lambda>_. new_channel)"
proof -
  obtain rs where "sv_run reference_externals (server_init server_config_default) (session_start (0 + 2)) rs (session_server 0)"
    using example_session by blast
  from system_refines_actor [OF this] show ?thesis by (auto simp: session_server_def server_init_def)
qed

section \<open>Well-formed contents\<close>

text \<open>C13: whatever bytes its peers send, a server stores and queues only what the protocol can
  express: the network of every stored route has a prefix no longer than its addresses and
  its next hop no target VNI that is present and 0, and so has every update in a command or
  in a channel, so that it arrives at a subscriber as it was sent.\<close>

theorem server_holds_sound_routes:
  assumes "externals_ok x" and "sv_run x (server_init config) es rs s"
  shows "(\<forall>(v, d, h) \<in> rt_abs (a_routes (sv_actor s)). destination_valid d \<and> next_hop_canon h = h) \<and>
    (\<forall>(cid, cmd) \<in> set (sv_queue s). sound_command cmd) \<and>
    (\<forall>cid. \<forall>m \<in> set (ch_queue (sv_chans s cid)). message_valid m \<and> message_canon m = m)"
proof -
  have "all_inv (server_init config)" using server_run_all_inv [OF sv_nil] .
  then have sound: "sound_inv s" using sv_run_sound_inv [OF assms(2,1) sound_inv_init] by blast
  have "sys_inv (routing s)" using server_run_inv [OF assms(2)] by (simp add: chans_inv_def)
  then have "rt_abs (a_routes (sv_actor s)) = dom (sp_owners (actor_abs (sv_actor s)))"
    using actor_wf_routes by (simp add: sys_inv_def)
  then have "sound_route (d, h)" if "(v, d, h) \<in> rt_abs (a_routes (sv_actor s))" for v d h
    using sound that by (force simp: sound_inv_def actor_abs_def dom_def simp del: rt_abs_iff)
  moreover have "sound_message m" if "m \<in> set (ch_queue (sv_chans s cid))" for cid m
    using sound that by (auto simp: sound_inv_def ch_history_def)
  moreover have "\<forall>(cid, cmd) \<in> set (sv_queue s). sound_command cmd" using sound by (auto simp: sound_inv_def)
  ultimately show ?thesis by (auto simp: sound_route_def sound_message_def simp del: rt_abs_iff)
qed

theorem server_holds_sound_routes_witness:
  "list_all (\<lambda>(cid, cmd). sound_command cmd) (sv_queue (session_server 0))"
proof -
  obtain rs where "sv_run reference_externals (server_init server_config_default) (session_start (0 + 2)) rs (session_server 0)"
    using example_session by blast
  from server_holds_sound_routes [OF reference.externals_ok_axioms this] show ?thesis by (simp add: list_all_iff)
qed

section \<open>Ended connections\<close>



section \<open>The end of the server\<close>

text \<open>Each step the server takes by itself brings it closer to the end.\<close>

definition distance :: "server \<Rightarrow> nat" where
  "distance s = 2 * work_left s + length (sv_queue s)"

lemma own_handle_less:
  assumes "handle_step x cid t s = Some s'"
  shows "work_left s' < work_left s"
proof -
  have cid: "cid < length (sv_conns s)" using assms by (simp add: handle_step_def split: if_splits)
  let ?h = "sv_conns s ! cid"
  have "\<exists>h'. sv_conns s' = (sv_conns s)[cid := h'] \<and> left_to_do (hd_phase h') < left_to_do (hd_phase ?h)"
  proof (cases "hd_phase ?h")
    case (HHandle n now buf)
    show ?thesis
    proof (cases "buf = []")
      case True
      with assms cid HHandle show ?thesis by (auto simp: handle_step_def Let_def set_conn_def)
    next
      case False
      show ?thesis
      proof (cases "message_decode x buf")
        case (Inl e)
        with assms cid HHandle False show ?thesis
          by (auto simp: handle_step_def Let_def set_conn_def server_cleanup_def split: if_splits)
      next
        case (Inr mk)
        obtain m k where mk: "mk = (m, k)" by (cases mk)
        have "length (drop k buf) < length buf" using decode_shorter [of x buf m k] Inr mk False by simp
        with assms cid HHandle False Inr mk show ?thesis
          by (cases m) (auto simp: handle_step_def Let_def set_conn_def split: prod.splits)
      qed
    qed
  next
    case (HSubscribe n now buf v)
    with assms cid show ?thesis
      by (auto simp: handle_step_def Let_def set_conn_def split: option.splits)
  qed (use assms cid in \<open>simp_all add: handle_step_def Let_def\<close>)
  then show ?thesis using work_left_less [OF cid] by blast
qed

lemma own_shutdown_less:
  assumes "conn_event x cid SShutdown s = Some s'"
  shows "work_left s' < work_left s"
proof -
  have cid: "cid < length (sv_conns s)" using conn_event_phases(1) [OF assms] .
  obtain ph where ph: "hd_phase (sv_conns s ! cid) = HWait ph" using conn_event_phases(2) [OF assms] by blast
  obtain c where c: "server_step x (enqueue cid) (sv_config s) (hd_addr (sv_conns s ! cid)) cid SShutdown
      (conn_view s (sv_conns s ! cid) ph) = Some c" and s': "s' = put_conn cid (sv_conns s ! cid) c s"
    using assms cid ph by (auto simp: conn_event_def Let_def split: if_splits)
  have "left_to_do (HWait (sc_phase c)) < left_to_do (HWait ph)"
    using c by (auto simp: server_step_def server_cleanup_def split: server_phase.splits)
  then show ?thesis
    by (intro work_left_less [OF cid put_conn_fields(5) [of cid "sv_conns s ! cid" c s, folded s']]) (simp add: ph)
qed

lemma moves_queue_grows:
  assumes "handler_moves cid s s'"
  shows "length (sv_queue s') \<le> Suc (length (sv_queue s))"
proof -
  obtain h' new where h': "sv_conns s' = (sv_conns s)[cid := h']" and queue: "sv_queue s' = sv_queue s @ new"
    and move: "session_move cid (hd_addr (sv_conns s ! cid)) (conn_stage s cid) (stage_of (hd_phase h')) new
      (sv_peers s) (sv_peers s')"
    by (rule handler_movesE [OF assms])
  from move show ?thesis using queue by (cases rule: session_move.cases) auto
qed

lemma own_step_less:
  assumes "sv_step x s e s'" and "own_step e"
  shows "distance s' < distance s"
  using assms(1)
proof (cases rule: sv_step.cases)
  case (sv_conn cid ev)
  then have ev: "conn_event x cid SShutdown s = Some s'" using assms(2) by (cases ev) simp_all
  with own_shutdown_less [OF ev] moves_queue_grows [OF conn_event_moves [OF ev]] show ?thesis
    by (simp add: distance_def)
next
  case (sv_handle cid t)
  with own_handle_less [of x cid t s s'] moves_queue_grows [OF handle_step_moves, of x cid t s s'] show ?thesis
    by (simp add: distance_def)
next
  case sv_actor
  from sv_actor(2) obtain cid cmd q reply a chans hs where "sv_queue s = (cid, cmd) # q"
    "s' = s\<lparr>sv_queue := q, sv_actor := a, sv_chans := chans, sv_conns := hs\<rparr>"
    by (rule actor_step_cases)
  with work_left_same [OF actor_step_same [OF sv_actor(2)]] show ?thesis by (simp add: distance_def)
qed (use assms(2) in simp_all)

lemma own_run_bound:
  "sv_run x s es rs s' \<Longrightarrow> list_all own_step es \<Longrightarrow> length es + distance s' \<le> distance s"
  by (induction rule: sv_run.induct) (auto dest!: own_step_less)

lemma own_step_enabled:
  assumes "all_inv s" and "closing s" and "registered s \<noteq> {} \<or> sv_queue s \<noteq> []"
  shows "\<exists>e s'. sv_step x s e s' \<and> own_step e"
proof (cases "sv_queue s = []")
  case True
  with closing_progress [OF assms(1,2) True] assms(3) show ?thesis by blast
next
  case False
  then have "actor_step s \<noteq> None"
    by (cases "sv_queue s") (auto simp: actor_step_def Let_def split: prod.splits)
  then obtain s' where "actor_step s = Some s'" by blast
  then show ?thesis using sv_actor by (metis own_step.simps(1))
qed

lemma closing_run: "sv_run x s es rs s' \<Longrightarrow> closing s \<Longrightarrow> list_all own_step es \<Longrightarrow> closing s'"
proof (induction rule: sv_run.induct)
  case (sv_cons s e s' es rs s'')
  have "closing s'"
    using sv_cons.hyps(1)
  proof (cases rule: sv_step.cases)
    case (sv_conn cid ev)
    then show ?thesis
      using sv_cons.prems(1) by (auto simp: closing_def elim!: handler_movesE [OF conn_event_moves])
  next
    case (sv_handle cid t)
    then show ?thesis
      using sv_cons.prems(1) by (auto simp: closing_def elim!: handler_movesE [OF handle_step_moves])
  next
    case sv_actor
    from sv_actor(2) obtain cid cmd q reply a chans hs where
      "s' = s\<lparr>sv_queue := q, sv_actor := a, sv_chans := chans, sv_conns := hs\<rparr>"
      by (rule actor_step_cases)
    with sv_cons.prems(1) show ?thesis by (simp add: closing_def)
  qed (use sv_cons.prems in simp_all)
  with sv_cons show ?case by simp
qed simp

text \<open>C8: the shutdown terminates. Once the user has let go of the server and the accept loop has
  ended, every sequence of steps the server takes by itself (the actor handles a command, a
  handler goes on with a read or sees the signal) is of bounded length, and when no such step
  is left no connection is in its main loop, the queue is empty and the actor and the table
  of peers hold nothing.\<close>

theorem shutdown_terminates:
  assumes "sv_run x (server_init config) es rs s" and "\<not> sv_owner s" and "\<not> sv_accepting s"
    and "sv_run x s es' rs' s'" and "list_all own_step es'"
  shows "length es' \<le> distance s \<and>
    ((\<forall>e s''. own_step e \<longrightarrow> \<not> sv_step x s' e s'') \<longrightarrow>
       (\<forall>cid p. \<not> serving s' cid p) \<and> sv_queue s' = [] \<and> sv_peers s' = [] \<and>
       rt_abs (a_routes (sv_actor s')) = {} \<and> a_owners (sv_actor s') = [] \<and> a_peers (sv_actor s') = [] \<and>
       (\<forall>p v. \<not> subscribed p v (sv_actor s')))"
proof -
  have inv: "all_inv s'" by (rule sv_run_all_inv [OF assms(4) server_run_all_inv [OF assms(1)]])
  have "closing s'" using closing_run [OF assms(4) _ assms(5)] assms(2,3) by (simp add: closing_def)
  from own_step_enabled [OF inv this, of x]
  have "registered s' = {} \<and> sv_queue s' = []" if "\<forall>e s''. own_step e \<longrightarrow> \<not> sv_step x s' e s''"
    using that by blast
  with own_run_bound [OF assms(4,5)] nobody_left [OF inv] show ?thesis
    by (auto simp: registered_def simp del: rt_abs_iff)
qed

lemma example_shutdown: "\<exists>rs. sv_run reference_externals (server_init server_config_default)
    (session_start (budget + 2) @ [Shutdown, AcceptEnd]) rs
    ((server_shutdown (session_server budget))\<lparr>sv_accepting := False\<rparr>)"
proof -
  let ?x = reference_externals
  let ?s1 = "server_shutdown (session_server budget)"
  obtain rs where "sv_run ?x (server_init server_config_default) (session_start (budget + 2)) rs (session_server budget)"
    using example_session by blast
  moreover have "sv_step ?x (session_server budget) Shutdown ?s1"
    by (rule sv_shutdown) (simp add: session_server_def server_init_def)
  moreover have "sv_step ?x ?s1 AcceptEnd (?s1\<lparr>sv_accepting := False\<rparr>)"
    by (rule sv_accept_end) (simp_all add: session_server_def server_init_def server_shutdown_def)
  ultimately show ?thesis by (blast intro: sv_run_append sv_cons sv_nil)
qed

theorem shutdown_terminates_witness:
  "\<exists>s rs s'. sv_run reference_externals s [ConnEvent 0 SShutdown] rs s' \<and> 1 \<le> distance s"
proof -
  let ?x = reference_externals
  let ?s = "(server_shutdown (session_server 0))\<lparr>sv_accepting := False\<rparr>"
  obtain rs where run: "sv_run ?x (server_init server_config_default) (session_start (0 + 2) @ [Shutdown, AcceptEnd]) rs ?s"
    using example_shutdown by blast
  have "\<exists>s'. conn_event ?x 0 SShutdown ?s = Some s' \<and> length (sv_queue s') \<le> ROUTING_QUEUE"
    by (simp add: conn_event_def server_shutdown_def session_server_def server_init_def Let_def server_step_def
        sees_shutdown_def server_cleanup_def enqueue_def ROUTING_QUEUE_def)
  then obtain s' where s': "sv_step ?x ?s (ConnEvent 0 SShutdown) s'" using sv_conn by blast
  then obtain rs' where run': "sv_run ?x ?s [ConnEvent 0 SShutdown] rs' s'" using sv_run_single by blast
  have gone: "\<not> sv_owner ?s" "\<not> sv_accepting ?s" by (simp_all add: server_shutdown_def)
  have "length [ConnEvent 0 SShutdown] \<le> distance ?s"
    using shutdown_terminates [OF run gone run'] by simp
  with run' show ?thesis by fastforce
qed

section \<open>Connections without a HELLO\<close>

lemma moves_same_conn:
  assumes "handler_moves tx s s'" and "tx \<noteq> cid"
  shows "sv_conns s' ! cid = sv_conns s ! cid"
  by (rule handler_movesE [OF assms(1)]) (use assms(2) in simp)

text \<open>Only its own read moves a handler that waits for the HELLO.\<close>

lemma hello_wait_step:
  assumes "sv_step x s e s'" and "cid < length (sv_conns s)" and wait: "hd_phase (sv_conns s ! cid) = HWait SHello"
    and "\<And>read. e \<noteq> ConnEvent cid (SHelloRead read)"
  shows "cid < length (sv_conns s') \<and> hd_phase (sv_conns s' ! cid) = HWait SHello"
proof -
  have moved: ?thesis if m: "handler_moves tx s s'" and "tx \<noteq> cid" for tx
    by (rule handler_movesE [OF m]) (use moves_same_conn [OF that] assms(2) wait in simp)
  show ?thesis
    using assms(1)
  proof (cases rule: sv_step.cases)
    case (sv_accept addr budget)
    with assms(2) wait show ?thesis by (simp add: accept_conn_def nth_append)
  next
    case (sv_conn tx ev)
    have "tx \<noteq> cid"
    proof
      assume "tx = cid"
      then have "\<exists>read. ev = SHelloRead read"
        using sv_conn assms(2) wait
        by (auto simp: conn_event_def Let_def server_step_def split: server_event.splits sum.splits list.splits if_splits)
      with assms(4) sv_conn(1) \<open>tx = cid\<close> show False by blast
    qed
    with moved [OF conn_event_moves [OF sv_conn(2)]] show ?thesis .
  next
    case (sv_handle tx t)
    have "tx \<noteq> cid" using sv_handle wait by (auto simp: handle_step_def Let_def split: if_splits)
    with moved [OF handle_step_moves [OF sv_handle(2)]] show ?thesis .
  next
    case (sv_return tx)
    have "tx \<noteq> cid" using sv_return wait by (auto simp: handler_return_def Let_def split: if_splits)
    with moved [OF handler_return_moves [OF sv_return(2)]] show ?thesis .
  next
    case sv_actor
    from actor_step_same [OF sv_actor(2)] assms(2) wait show ?thesis by (simp add: same_handlers_def)
  qed (use assms(2) wait in \<open>simp_all add: server_shutdown_def\<close>)
qed



section \<open>The stream of a subscriber\<close>

text \<open>C4: what a subscriber is written is the server's table. The actor was told of a connection of
  \<open>p\<close>, and all it handled since of \<open>p\<close> and the VNI is one subscription. When the connection is
  in its main loop, no write failed, its channel is empty and it is still registered, then
  the bytes written to it since it was accepted are the handshake and messages, which a
  reader cuts from them as they are, whose updates of the VNI build exactly the routes of the
  VNI that the server stores.\<close>

theorem subscriber_stream_mirrors:
  assumes x: "externals_ok x" and run: "sv_run x (server_init config) es ev s"
    and ev: "ev = ev0 @ SysCmd (PeerConnected p cid) reply0 # ev1"
    and one: "filter (concerns p v) ev1 = [SysCmd (CmdSubscribe p v) reply]"
    and phase: "hd_phase (sv_conns s ! cid) = HWait (SLoop n last_received round_start buf)"
    and left: "0 < ts_budget (hd_stream (sv_conns s ! cid))"
    and drained: "ch_queue (sv_chans s cid) = []" and still: "hm_get (a_peers (sv_actor s)) p = Some cid"
  shows "\<exists>k ms. frames (message_decode x) need_more_data (ts_written (hd_stream (sv_conns s ! cid))) =
      (MsgHello k True # MsgKeepalive # ms, [], None) \<and>
    apply_log (chan_log v ms) {} = {(d, h). (v, d, h) \<in> rt_abs (a_routes (sv_actor s))}"
proof -
  obtain k ms where ms: "ts_written (hd_stream (sv_conns s ! cid)) = wire_bytes x (MsgHello k True # MsgKeepalive # ms)"
    "apply_log (chan_log v ms) {} = {(d, h). (v, d, h) \<in> rt_abs (a_routes (sv_actor s))}" "\<forall>m \<in> set ms. sound_message m"
    using session_mirrors [OF assms] by blast
  let ?all = "MsgHello k True # MsgKeepalive # ms"
  have "\<forall>m \<in> set ?all. sound_message m" using ms(3) by simp
  from externals_ok.frames_sound [OF x this] ms(1,2) show ?thesis by (intro exI [of _ k] exI [of _ ms]) (simp only: simp_thms)
qed

theorem subscriber_stream_mirrors_witness:
  "\<exists>es ev s k ms. sv_run reference_externals (server_init server_config_default) es ev s \<and>
    frames (message_decode reference_externals) need_more_data (ts_written (hd_stream (sv_conns s ! 0))) =
      (MsgHello k True # MsgKeepalive # ms, [], None) \<and>
    apply_log (chan_log vni100 ms) {} = {(net24, hop1), (net24, hop2)}"
proof (rule example_mirror)
  fix es s
  let ?ev = "[SysCmd (PeerConnected peer2 1) NoReply,
       SysCmd (CmdUpdate peer2 Add vni100 net24 hop1) NoReply, SysCmd (CmdSubscribe peer1 vni100) (RoutesReply [(net24, hop1)]),
       SysCmd (CmdUpdate peer2 Add vni100 net24 hop2) NoReply, SysTake 0 (MsgUpdate Add vni100 net24 hop2)]"
  assume run: "sv_run reference_externals (server_init server_config_default) es (SysCmd (PeerConnected peer1 0) NoReply # ?ev) s"
    and s: "hd_phase (sv_conns s ! 0) = HWait (SLoop 5 1 3 [])" "0 < ts_budget (hd_stream (sv_conns s ! 0))"
      "ch_queue (sv_chans s 0) = []" "hm_get (a_peers (sv_actor s)) peer1 = Some 0"
    and routes: "rt_abs (a_routes (sv_actor s)) = {(vni100, net24, hop1), (vni100, net24, hop2)}"
  have one: "filter (concerns peer1 vni100) ?ev = [SysCmd (CmdSubscribe peer1 vni100) (RoutesReply [(net24, hop1)])]"
    by simp
  have "{(d, h). (vni100, d, h) \<in> rt_abs (a_routes (sv_actor s))} = {(net24, hop1), (net24, hop2)}"
    unfolding routes by auto
  with run subscriber_stream_mirrors [OF reference.externals_ok_axioms run append_Nil [symmetric] one s] show ?thesis
    by (simp only:) blast
qed


section \<open>What a peer says is stored\<close>

text \<open>C5: the server stores what its peers say. A server runs, whatever its connections do, and has
  handled all its commands. Of a route that no other peer has spoken of, it holds what
  the peer of a connection in its main loop last said in the bytes the connection has read:
  the route is stored when that was an announcement, and not when it was a withdrawal or
  nothing.\<close>

theorem peer_routes_stored:
  assumes "sv_run x (server_init config) es ev s" and "sv_queue s = []" and "sole_speaker s ev cid k"
  shows "k \<in> rt_abs (a_routes (sv_actor s)) \<longleftrightarrow> k \<in> said x cid es"
  using spoken_routes [OF assms] .

theorem peer_routes_stored_witness:
  "\<exists>es ev s. sv_run reference_externals (server_init server_config_default) es ev s \<and>
    said reference_externals 1 es = {(vni100, net24, hop1), (vni100, net24, hop2)} \<and>
    (\<forall>k. sole_speaker s ev 1 k) \<and> rt_abs (a_routes (sv_actor s)) = said reference_externals 1 es"
proof (rule example_mirror)
  fix es s
  let ?ev = "[SysCmd (PeerConnected peer1 0) NoReply, SysCmd (PeerConnected peer2 1) NoReply,
       SysCmd (CmdUpdate peer2 Add vni100 net24 hop1) NoReply, SysCmd (CmdSubscribe peer1 vni100) (RoutesReply [(net24, hop1)]),
       SysCmd (CmdUpdate peer2 Add vni100 net24 hop2) NoReply, SysTake 0 (MsgUpdate Add vni100 net24 hop2)]"
  assume run: "sv_run reference_externals (server_init server_config_default) es ?ev s" and idle: "sv_queue s = []"
    and said: "said reference_externals 1 es = {(vni100, net24, hop1), (vni100, net24, hop2)}"
    and speaker: "1 < length (sv_conns s) \<and> in_main_loop (sv_conns s ! 1) \<and> hd_addr (sv_conns s ! 1) = peer2"
  have sole: "sole_speaker s ?ev 1 k" for k using speaker by (simp add: sole_speaker_def)
  then have "rt_abs (a_routes (sv_actor s)) = said reference_externals 1 es"
    using peer_routes_stored [OF run idle sole] by blast
  with run said sole show ?thesis by blast
qed

end
