(* ===== verification/Text_Forms.thy ===== *)
theory Text_Forms
  imports Bond_Types
begin

text \<open>
  The textual forms of numbers and addresses in the standard library, as far as the program
  prints and parses them: decimal and hexadecimal numbers, \<open>Display\<close> of \<open>Ipv4Addr\<close> and
  \<open>Ipv6Addr\<close> (with the compression of zeros), \<open>FromStr\<close> of \<open>Ipv6Addr\<close> and of unsigned integers.
\<close>

section \<open>Numbers\<close>

definition hex_char :: "nat \<Rightarrow> char" where
  "hex_char d = (if d < 10 then char_of (48 + d) else char_of (87 + d))"

fun show_hex :: "nat \<Rightarrow> string" where
  "show_hex n = (if n < 16 then [hex_char n] else show_hex (n div 16) @ [hex_char (n mod 16)])"

declare show_hex.simps [simp del]

text \<open>\<open>char::to_digit\<close>.\<close>

definition to_digit :: "nat \<Rightarrow> char \<Rightarrow> nat option" where
  "to_digit radix c =
     (let k = of_char c :: nat;
          d = (if 48 \<le> k \<and> k \<le> 57 then k - 48 else if 97 \<le> k \<and> k \<le> 122 then k - 87
               else if 65 \<le> k \<and> k \<le> 90 then k - 55 else 36)
      in if d < radix then Some d else None)"

definition is_digit :: "nat \<Rightarrow> char \<Rightarrow> bool" where
  "is_digit radix c \<longleftrightarrow> to_digit radix c \<noteq> None"

definition digits_value :: "nat \<Rightarrow> string \<Rightarrow> nat" where
  "digits_value radix ds = foldl (\<lambda>n c. n * radix + the (to_digit radix c)) 0 ds"

text \<open>
  \<open>Parser::read_number\<close> in \<open>core::net\<close>: all digits there are, at most \<open>max_digits\<close> of them,
  below \<open>bound\<close>, and without a superfluous leading zero unless that is allowed. What is left
  of the input comes with the result.
\<close>

definition read_number :: "nat \<Rightarrow> nat \<Rightarrow> bool \<Rightarrow> nat \<Rightarrow> string \<Rightarrow> (nat \<times> string) option" where
  "read_number radix max_digits allow_zero_prefix bound s =
     (let ds = takeWhile (is_digit radix) s in
      if ds = [] \<or> max_digits < length ds then None
      else if \<not> allow_zero_prefix \<and> hd ds = CHR ''0'' \<and> 1 < length ds then None
      else if bound \<le> digits_value radix ds then None
      else Some (digits_value radix ds, dropWhile (is_digit radix) s))"

lemma hex_char_digit: "d < 16 \<Longrightarrow> to_digit 16 (hex_char d) = Some d"
  by (auto simp: to_digit_def hex_char_def Let_def)

lemma digit_char_digit: "d < 10 \<Longrightarrow> to_digit 10 (digit_char d) = Some d"
  by (auto simp: to_digit_def digit_char_def Let_def)

lemma is_digit_chars: "d < 16 \<Longrightarrow> is_digit 16 (hex_char d)" "d < 10 \<Longrightarrow> is_digit 10 (digit_char d)"
  by (simp_all add: is_digit_def hex_char_digit digit_char_digit)

lemma digits_value_snoc: "digits_value radix (ds @ [c]) = digits_value radix ds * radix + the (to_digit radix c)"
  by (simp add: digits_value_def)

lemma show_nat_props:
  "list_all (is_digit 10) (show_nat n) \<and> digits_value 10 (show_nat n) = n \<and> show_nat n \<noteq> [] \<and>
     (hd (show_nat n) = CHR ''0'' \<longrightarrow> n = 0)"
proof (induction n rule: show_nat.induct)
  case (1 n)
  show ?case
  proof (cases "n < 10")
    case True
    have "to_digit 10 (CHR ''0'') = Some 0" by (simp add: to_digit_def)
    then have "digit_char n = CHR ''0'' \<longrightarrow> n = 0" using digit_char_digit [OF True] by auto
    with True show ?thesis
      by (simp add: show_nat.simps [of n] is_digit_chars digit_char_digit digits_value_def)
  next
    case False
    with 1 show ?thesis
      by (subst (1 2 3 4) show_nat.simps) (auto simp: is_digit_chars digit_char_digit digits_value_snoc)
  qed
qed

lemma show_hex_props:
  "list_all (is_digit 16) (show_hex n) \<and> digits_value 16 (show_hex n) = n \<and> show_hex n \<noteq> []"
proof (induction n rule: show_hex.induct)
  case (1 n)
  then show ?case
    by (cases "n < 16"; subst (1 2 3) show_hex.simps) (auto simp: is_digit_chars hex_char_digit digits_value_snoc digits_value_def)
qed

lemma show_nat_length: "n < 1000 \<Longrightarrow> length (show_nat n) \<le> 3"
  by (subst show_nat.simps, subst show_nat.simps, subst show_nat.simps) auto

lemma show_hex_length: "n < 65536 \<Longrightarrow> length (show_hex n) \<le> 4"
  by (subst show_hex.simps, subst show_hex.simps, subst show_hex.simps, subst show_hex.simps) auto

text \<open>A number followed by something else than a digit.\<close>

definition no_digit :: "nat \<Rightarrow> string \<Rightarrow> bool" where
  "no_digit radix s \<longleftrightarrow> s = [] \<or> \<not> is_digit radix (hd s)"

lemma take_digits:
  assumes "list_all (is_digit radix) ds" and "no_digit radix s"
  shows "takeWhile (is_digit radix) (ds @ s) = ds" and "dropWhile (is_digit radix) (ds @ s) = s"
proof -
  have all: "\<And>c. c \<in> set ds \<Longrightarrow> is_digit radix c" using assms(1) by (simp add: list_all_iff)
  have "takeWhile (is_digit radix) s = []" "dropWhile (is_digit radix) s = s"
    using assms(2) by (cases s; simp add: no_digit_def)+
  then show "takeWhile (is_digit radix) (ds @ s) = ds" "dropWhile (is_digit radix) (ds @ s) = s"
    using all by (simp_all add: takeWhile_append2 dropWhile_append2)
qed

lemma read_nat: "n < bound \<Longrightarrow> n < 1000 \<Longrightarrow> no_digit 10 s \<Longrightarrow> read_number 10 3 False bound (show_nat n @ s) = Some (n, s)"
  using show_nat_props [of n] show_nat_length [of n] take_digits [of 10 "show_nat n" s]
  by (cases "n = 0") (auto simp: read_number_def Let_def show_nat.simps [of 0])

lemma read_hex: "n < 65536 \<Longrightarrow> no_digit 16 s \<Longrightarrow> read_number 16 4 True 65536 (show_hex n @ s) = Some (n, s)"
  using show_hex_props [of n] show_hex_length [of n] take_digits [of 16 "show_hex n" s]
  by (simp add: read_number_def Let_def)

lemma read_number_none: "no_digit radix s \<Longrightarrow> read_number radix m z bound s = None"
  by (cases s) (simp_all add: no_digit_def read_number_def)

text \<open>\<open>FromStr\<close> of the unsigned integers: digits, after an optional plus, below \<open>bound\<close>.\<close>

datatype int_error = IntEmpty | IntInvalidDigit | IntOverflow

fun int_error_display :: "int_error \<Rightarrow> string" where
  "int_error_display IntEmpty = ''cannot parse integer from empty string''"
| "int_error_display IntInvalidDigit = ''invalid digit found in string''"
| "int_error_display IntOverflow = ''number too large to fit in target type''"

fun parse_digits :: "nat \<Rightarrow> nat \<Rightarrow> string \<Rightarrow> int_error + nat" where
  "parse_digits bound n [] = Inr n"
| "parse_digits bound n (c # cs) =
     (case to_digit 10 c of
        None \<Rightarrow> Inl IntInvalidDigit
      | Some d \<Rightarrow> if bound \<le> n * 10 + d then Inl IntOverflow else parse_digits bound (n * 10 + d) cs)"

definition parse_uint :: "nat \<Rightarrow> string \<Rightarrow> int_error + nat" where
  "parse_uint bound s =
     (if s = [] then Inl IntEmpty
      else if s = ''+'' \<or> s = ''-'' then Inl IntInvalidDigit
      else parse_digits bound 0 (if hd s = CHR ''+'' then tl s else s))"

lemma parse_digits_snoc:
  "parse_digits bound n (ds @ [c]) =
     and_then (parse_digits bound n ds) (\<lambda>m. parse_digits bound m [c])"
  by (induction ds arbitrary: n) (auto split: option.split)

lemma parse_digits_show: "n < bound \<Longrightarrow> parse_digits bound 0 (show_nat n) = Inr n"
proof (induction n rule: show_nat.induct)
  case (1 n)
  show ?case
  proof (cases "n < 10")
    case True
    with 1 show ?thesis by (subst show_nat.simps) (simp add: digit_char_digit)
  next
    case False
    then have "parse_digits bound 0 (show_nat (n div 10)) = Inr (n div 10)"
      using 1 by simp
    with False 1(2) show ?thesis
      by (subst show_nat.simps) (simp add: parse_digits_snoc digit_char_digit)
  qed
qed

lemma parse_uint_show: "n < bound \<Longrightarrow> parse_uint bound (show_nat n) = Inr n"
proof -
  assume n: "n < bound"
  have all: "list_all (is_digit 10) (show_nat n)" "show_nat n \<noteq> []" using show_nat_props [of n] by simp_all
  have "\<not> is_digit 10 (CHR ''+'')" "\<not> is_digit 10 (CHR ''-'')" by (simp_all add: is_digit_def to_digit_def)
  then have "show_nat n \<noteq> ''+''" "show_nat n \<noteq> ''-''" "hd (show_nat n) \<noteq> CHR ''+''"
    using all by (auto, cases "show_nat n", auto)
  with all(2) parse_digits_show [OF n] show ?thesis by (simp add: parse_uint_def)
qed

lemma parse_digits_less: "parse_digits bound n s = Inr m \<Longrightarrow> n < bound \<Longrightarrow> m < bound"
  by (induction s arbitrary: n) (auto split: option.splits if_splits)

lemma parse_uint_less: "parse_uint bound s = Inr m \<Longrightarrow> 0 < bound \<Longrightarrow> m < bound"
  using parse_digits_less [of bound 0] by (auto simp: parse_uint_def split: if_splits)

section \<open>Addresses\<close>

fun join :: "string \<Rightarrow> string list \<Rightarrow> string" where
  "join sep [] = []"
| "join sep [x] = x"
| "join sep (x # xs) = x @ sep @ join sep xs"

lemma join_Cons: "join sep (x # xs) = (if xs = [] then x else x @ sep @ join sep xs)"
  by (cases xs) simp_all

text \<open>The eight groups of 16 bits of an IPv6 address, and back.\<close>

fun be_groups :: "nat \<Rightarrow> nat \<Rightarrow> nat list" where
  "be_groups 0 v = []"
| "be_groups (Suc n) v = be_groups n (v div 65536) @ [v mod 65536]"

definition groups_value :: "nat list \<Rightarrow> nat" where
  "groups_value gs = foldl (\<lambda>v g. v * 65536 + g) 0 gs"

definition ipv6_segments :: "ipv6_addr \<Rightarrow> nat list" where
  "ipv6_segments a = be_groups 8 (unat a)"

definition ipv6_from_segments :: "nat list \<Rightarrow> ipv6_addr" where
  "ipv6_from_segments gs = word_of_nat (groups_value gs)"

lemma length_be_groups [simp]: "length (be_groups n v) = n"
  by (induction n arbitrary: v) simp_all

lemma be_groups_less: "g \<in> set (be_groups n v) \<Longrightarrow> g < 65536"
  by (induction n arbitrary: v) auto

lemma groups_value_be_groups: "groups_value (be_groups n v) = v mod 65536 ^ n"
proof (induction n arbitrary: v)
  case 0
  then show ?case by (simp add: groups_value_def)
next
  case (Suc n)
  have "v mod (65536 * 65536 ^ n) = 65536 * (v div 65536 mod 65536 ^ n) + v mod 65536"
    by (rule mod_mult2_eq)
  with Suc [of "v div 65536"] show ?case by (simp add: groups_value_def mult.commute)
qed

lemma ipv6_from_segments [simp]: "ipv6_from_segments (ipv6_segments a) = a"
  using unsigned_less [of a, where ?'a = nat]
  by (simp add: ipv6_from_segments_def ipv6_segments_def groups_value_be_groups)

lemma length_ipv6_segments [simp]: "length (ipv6_segments a) = 8"
  by (simp add: ipv6_segments_def)

text \<open>\<open>Display\<close>: the first longest run of zero groups, if longer than one, becomes \<open>::\<close>.\<close>

fun next_span :: "(nat \<times> nat) \<times> nat \<times> nat \<Rightarrow> nat \<times> nat \<Rightarrow> (nat \<times> nat) \<times> nat \<times> nat" where
  "next_span (longest, start, len) (i, segment) =
     (if segment = 0 then
        let current = (if len = 0 then i else start, len + 1)
        in (if snd longest < snd current then current else longest, current)
      else (longest, 0, 0))"

definition zero_span :: "nat list \<Rightarrow> nat \<times> nat" where
  "zero_span segments = fst (foldl next_span ((0, 0), 0, 0) (enumerate 0 segments))"

definition show_groups :: "nat list \<Rightarrow> string" where
  "show_groups gs = join '':'' (map show_hex gs)"

definition show_octets :: "nat list \<Rightarrow> string" where
  "show_octets os = join ''.'' (map show_nat os)"

definition show_ipv4 :: "ipv4_addr \<Rightarrow> string" where
  "show_ipv4 a = show_octets (map unat (ipv4_octets a))"

definition show_ipv6 :: "ipv6_addr \<Rightarrow> string" where
  "show_ipv6 a =
     (let segments = ipv6_segments a in
      if take 6 segments = [0, 0, 0, 0, 0, 65535] then
        ''::ffff:'' @ show_octets [segments ! 6 div 256, segments ! 6 mod 256, segments ! 7 div 256, segments ! 7 mod 256]
      else
        (case zero_span segments of
           (start, len) \<Rightarrow>
             if 1 < len then show_groups (take start segments) @ ''::'' @ show_groups (drop (start + len) segments)
             else show_groups segments))"

fun show_ip_addr :: "ip_addr \<Rightarrow> string" where
  "show_ip_addr (AddrV4 a) = show_ipv4 a"
| "show_ip_addr (AddrV6 a) = show_ipv6 a"

text \<open>\<open>FromStr\<close> (the parser of \<open>core::net\<close>); \<open>read_sep\<close> is \<open>read_separator\<close>.\<close>

definition read_sep :: "char \<Rightarrow> nat \<Rightarrow> (string \<Rightarrow> ('a \<times> string) option) \<Rightarrow> string \<Rightarrow> ('a \<times> string) option" where
  "read_sep c i p s = (if 0 < i then (case s of [] \<Rightarrow> None | d # s' \<Rightarrow> if d = c then p s' else None) else p s)"

fun read_octets :: "nat \<Rightarrow> nat \<Rightarrow> string \<Rightarrow> (nat list \<times> string) option" where
  "read_octets i 0 s = Some ([], s)"
| "read_octets i (Suc n) s =
     (case read_sep (CHR ''.'') i (read_number 10 3 False 256) s of
        None \<Rightarrow> None
      | Some (b, s') \<Rightarrow> map_option (\<lambda>(bs, s''). (b # bs, s'')) (read_octets (Suc i) n s'))"

text \<open>\<open>read_ipv4_addr\<close>, as the two groups an embedded address stands for.\<close>

definition read_ipv4 :: "string \<Rightarrow> (nat list \<times> string) option" where
  "read_ipv4 s = map_option (\<lambda>(bs, s'). ([bs ! 0 * 256 + bs ! 1, bs ! 2 * 256 + bs ! 3], s')) (read_octets 0 4 s)"

text \<open>\<open>read_groups\<close> from group \<open>i\<close> on, with room for \<open>k\<close> more: the groups, whether they end in
  an IPv4 address, and the rest.\<close>

fun read_groups :: "nat \<Rightarrow> nat \<Rightarrow> string \<Rightarrow> nat list \<times> bool \<times> string" where
  "read_groups i 0 s = ([], False, s)"
| "read_groups i (Suc k) s =
     (case (if 0 < k then read_sep (CHR '':'') i read_ipv4 s else None) of
        Some (gs, s') \<Rightarrow> (gs, True, s')
      | None \<Rightarrow>
          (case read_sep (CHR '':'') i (read_number 16 4 True 65536) s of
             None \<Rightarrow> ([], False, s)
           | Some (g, s') \<Rightarrow> (case read_groups (Suc i) k s' of (gs, v4, s'') \<Rightarrow> (g # gs, v4, s''))))"

definition read_ipv6 :: "string \<Rightarrow> (nat list \<times> string) option" where
  "read_ipv6 s =
     (case read_groups 0 8 s of
        (head, head_ipv4, s1) \<Rightarrow>
          if length head = 8 then Some (head, s1)
          else if head_ipv4 then None
          else if prefix ''::'' s1 then
            (case read_groups 0 (8 - (length head + 1)) (drop 2 s1) of
               (tail, _, s2) \<Rightarrow> Some (head @ replicate (8 - length head - length tail) 0 @ tail, s2))
          else None)"

definition parse_ipv6 :: "string \<Rightarrow> ipv6_addr option" where
  "parse_ipv6 s =
     (case read_ipv6 s of
        Some (gs, []) \<Rightarrow> Some (ipv6_from_segments gs)
      | _ \<Rightarrow> None)"

section \<open>An IPv6 address is read back as it is printed\<close>

text \<open>The groups of an address from group \<open>i\<close> on, each but the first after a colon.\<close>

fun groups_text :: "nat \<Rightarrow> nat list \<Rightarrow> string" where
  "groups_text i [] = []"
| "groups_text i (g # gs) = (if 0 < i then '':'' else []) @ show_hex g @ groups_text (Suc i) gs"

lemma groups_text_join: "groups_text (Suc i) gs = (if gs = [] then [] else '':'' @ show_groups gs)"
proof (induction gs arbitrary: i)
  case (Cons g gs)
  then show ?case by (cases gs) (simp_all add: show_groups_def join_Cons)
qed simp

lemma show_groups_text: "show_groups gs = groups_text 0 gs"
proof (cases gs)
  case (Cons g gs')
  then show ?thesis by (simp add: groups_text_join show_groups_def join_Cons)
qed (simp add: show_groups_def)

definition at_stop :: "string \<Rightarrow> bool" where
  "at_stop s \<longleftrightarrow> s = [] \<or> prefix ''::'' s"

definition at_sep :: "string \<Rightarrow> bool" where
  "at_sep s \<longleftrightarrow> s = [] \<or> hd s = CHR '':''"

lemma sep_no_digit: "\<not> is_digit 10 (CHR '':'')" "\<not> is_digit 16 (CHR '':'')" "\<not> is_digit 10 (CHR ''.'')" "\<not> is_digit 16 (CHR ''.'')"
  by (simp_all add: is_digit_def to_digit_def)

lemma at_sep_no_digit: "at_sep s \<Longrightarrow> no_digit 10 s" "at_sep s \<Longrightarrow> no_digit 16 s"
  by (auto simp: at_sep_def no_digit_def sep_no_digit)

lemma at_stop_sep: "at_stop s \<Longrightarrow> at_sep s"
  by (auto simp: at_stop_def at_sep_def prefix_def)

lemma groups_text_sep: "at_stop rest \<Longrightarrow> at_sep (groups_text (Suc i) gs @ rest)"
  by (cases gs) (auto simp: at_sep_def dest: at_stop_sep)

text \<open>A hexadecimal group is not the beginning of an IPv4 address.\<close>

lemma read_ipv4_none:
  assumes "list_all (is_digit 16) ds" and "at_sep s"
  shows "read_ipv4 (ds @ s) = None"
proof -
  define rest where "rest = dropWhile (is_digit 10) (ds @ s)"
  have "hd rest \<noteq> CHR ''.''" if "rest \<noteq> []"
    using assms(1) that unfolding rest_def
  proof (induction ds)
    case Nil
    then show ?case using assms(2) by (cases s) (auto simp: at_sep_def sep_no_digit)
  next
    case (Cons d ds)
    then show ?case using sep_no_digit(4) by auto
  qed
  then have "read_sep (CHR ''.'') (Suc 0) p rest = None" for p :: "string \<Rightarrow> (nat \<times> string) option"
    by (cases rest) (simp_all add: read_sep_def)
  then have "read_octets 0 (Suc (Suc n)) (ds @ s) = None" for n
    by (auto simp: read_sep_def [of _ 0] read_number_def Let_def rest_def [symmetric] split: option.split)
  from this [of 2] have "read_octets 0 4 (ds @ s) = None" by (simp only: Suc_numeral add_num_simps)
  then show ?thesis by (simp add: read_ipv4_def)
qed

lemma read_sep_stop:
  assumes "at_stop s" and "\<And>s. at_sep s \<Longrightarrow> p s = None"
  shows "read_sep (CHR '':'') i p s = None"
  using assms by (auto simp: read_sep_def at_stop_def prefix_def at_sep_def split: list.split)

lemma read_groups_text:
  "\<forall>g \<in> set gs. g < 65536 \<Longrightarrow> length gs \<le> k \<Longrightarrow> at_stop rest \<Longrightarrow>
     read_groups i k (groups_text i gs @ rest) = (gs, False, rest)"
proof (induction gs arbitrary: i k)
  case Nil
  have "read_ipv4 s = None" if "at_sep s" for s using read_ipv4_none [of "[]" s] that by simp
  moreover have "read_number 16 4 True 65536 s = None" if "at_sep s" for s
    using read_number_none at_sep_no_digit(2) [OF that] .
  ultimately show ?case using Nil(3) by (cases k) (simp_all add: read_sep_stop)
next
  case (Cons g gs)
  then obtain k' where k: "k = Suc k'" "length gs \<le> k'" by (cases k) auto
  let ?s = "groups_text (Suc i) gs @ rest"
  have sep: "at_sep ?s" by (rule groups_text_sep [OF Cons.prems(3)])
  have "read_ipv4 (show_hex g @ ?s) = None" using read_ipv4_none [OF _ sep] show_hex_props [of g] by blast
  moreover have "read_number 16 4 True 65536 (show_hex g @ ?s) = Some (g, ?s)"
    by (rule read_hex) (use Cons.prems(1) at_sep_no_digit(2) [OF sep] in simp_all)
  moreover have "read_groups (Suc i) k' ?s = (gs, False, rest)"
    by (rule Cons.IH) (use Cons.prems k in simp_all)
  ultimately show ?case using k(2) by (cases "i = 0"; cases "k' = 0") (simp_all add: k(1) read_sep_def)
qed

text \<open>The zeros that are left out are zeros.\<close>

lemma zero_span_fold:
  "foldl next_span ((0, 0), 0, 0) (enumerate 0 gs) = ((st, len), start, n) \<Longrightarrow>
     (\<exists>xs ys. gs = xs @ replicate len 0 @ ys \<and> length xs = st) \<and>
     (\<exists>zs. gs = zs @ replicate n 0 \<and> (n \<noteq> 0 \<longrightarrow> length zs = start))"
proof (induction gs arbitrary: st len start n rule: rev_induct)
  case Nil
  then show ?case by simp
next
  case (snoc g gs)
  obtain st0 len0 start0 n0 where fold: "foldl next_span ((0, 0), 0, 0) (enumerate 0 gs) = ((st0, len0), start0, n0)"
    by (cases "foldl next_span ((0, 0), 0, 0) (enumerate 0 gs)") auto
  obtain xs ys zs where best: "gs = xs @ replicate len0 0 @ ys" "length xs = st0"
    and current: "gs = zs @ replicate n0 0" "n0 \<noteq> 0 \<longrightarrow> length zs = start0"
    using snoc.IH [OF fold] by blast
  have step: "next_span ((st0, len0), start0, n0) (length gs, g) = ((st, len), start, n)"
    using snoc.prems fold by (simp add: enumerate_append_eq)
  have kept: "\<exists>xs ys. gs @ [g] = xs @ replicate len0 0 @ ys \<and> length xs = st0"
    using best by (intro exI [of _ xs] exI [of _ "ys @ [g]"]) simp
  show ?case
  proof (cases "g = 0")
    case False
    then have "st = st0" "len = len0" "n = 0" using step by simp_all
    then show ?thesis using kept by simp
  next
    case True
    define start' where "start' = (if n0 = 0 then length gs else start0)"
    have n: "n = n0 + 1" "start = start'" and best': "(st, len) = (if len0 < n0 + 1 then (start', n0 + 1) else (st0, len0))"
      using step True by (auto simp: start'_def Let_def split: if_splits)
    have zs: "gs @ [g] = zs @ replicate n 0" "length zs = start'"
      using current True by (simp_all add: n start'_def replicate_append_same flip: replicate_Suc)
    have "\<exists>xs ys. gs @ [g] = xs @ replicate len 0 @ ys \<and> length xs = st"
    proof (cases "len0 < n0 + 1")
      case True
      with zs best' n show ?thesis by (intro exI [of _ zs] exI [of _ "[]"]) simp
    qed (use kept best' in simp)
    with zs n show ?thesis by blast
  qed
qed

lemma zero_span_zeros:
  assumes "zero_span gs = (st, len)"
  shows "take st gs @ replicate len 0 @ drop (st + len) gs = gs" and "st + len \<le> length gs"
proof -
  obtain start n where "foldl next_span ((0, 0), 0, 0) (enumerate 0 gs) = ((st, len), start, n)"
    using assms by (metis zero_span_def prod.collapse)
  from zero_span_fold [OF this] obtain xs ys where "gs = xs @ replicate len 0 @ ys" "length xs = st" by blast
  then show "take st gs @ replicate len 0 @ drop (st + len) gs = gs" "st + len \<le> length gs" by auto
qed

lemma read_groups_show:
  "\<forall>g \<in> set gs. g < 65536 \<Longrightarrow> length gs \<le> k \<Longrightarrow> at_stop rest \<Longrightarrow>
     read_groups 0 k (show_groups gs @ rest) = (gs, False, rest)"
  using read_groups_text [of gs k rest 0] by (simp add: show_groups_text)

lemma at_stop_simps: "at_stop []" "at_stop (''::'' @ s)"
  by (simp_all add: at_stop_def)

lemma read_octets_show:
  "\<forall>b \<in> set bs. b < 256 \<Longrightarrow> read_octets (Suc i) (length bs) (concat (map (\<lambda>b. ''.'' @ show_nat b) bs)) = Some (bs, [])"
proof (induction bs arbitrary: i)
  case (Cons b bs)
  have "no_digit 10 (concat (map (\<lambda>b. ''.'' @ show_nat b) bs))"
    by (cases bs) (simp_all add: no_digit_def sep_no_digit)
  with Cons show ?case by (simp add: read_sep_def read_nat)
qed simp

lemma join_concat: "join sep (x # xs) = x @ concat (map (\<lambda>y. sep @ y) xs)"
  by (induction xs arbitrary: x) (simp_all add: join_Cons)

lemma read_octets_whole:
  assumes "\<forall>b \<in> {b0, b1, b2, b3}. b < 256"
  shows "read_octets 0 4 (show_octets [b0, b1, b2, b3]) = Some ([b0, b1, b2, b3], [])"
proof -
  let ?s = "concat (map (\<lambda>b. ''.'' @ show_nat b) [b1, b2, b3])"
  have shown: "show_octets [b0, b1, b2, b3] = show_nat b0 @ ?s" by (simp add: show_octets_def)
  have "read_number 10 3 False 256 (show_nat b0 @ ?s) = Some (b0, ?s)"
    by (rule read_nat) (use assms in \<open>simp_all add: no_digit_def sep_no_digit\<close>)
  moreover have "read_octets (Suc 0) (length [b1, b2, b3]) ?s = Some ([b1, b2, b3], [])"
    by (rule read_octets_show) (use assms in simp)
  moreover have "(4::nat) = Suc (length [b1, b2, b3])" by simp
  ultimately show ?thesis unfolding shown by (simp only: read_octets.simps) (simp add: read_sep_def)
qed

lemma read_ipv4_show:
  "\<forall>b \<in> {b0, b1, b2, b3}. b < 256 \<Longrightarrow>
     read_ipv4 (show_octets [b0, b1, b2, b3]) = Some ([b0 * 256 + b1, b2 * 256 + b3], [])"
  by (simp add: read_ipv4_def read_octets_whole)

text \<open>The mapped form.\<close>

lemma read_mapped:
  assumes "\<forall>b \<in> {b0, b1, b2, b3}. b < 256"
  shows "read_ipv6 (''::ffff:'' @ show_octets [b0, b1, b2, b3]) =
    Some ([0, 0, 0, 0, 0, 65535, b0 * 256 + b1, b2 * 256 + b3], [])"
proof -
  let ?o = "show_octets [b0, b1, b2, b3]"
  have "read_groups 0 8 ([] @ ''::ffff:'' @ ?o) = ([], False, ''::ffff:'' @ ?o)"
    using read_groups_show [of "[]" 8 "''::ffff:'' @ ?o"] by (simp add: show_groups_def at_stop_def)
  moreover have "read_groups 0 7 (''ffff:'' @ ?o) = ([65535, b0 * 256 + b1, b2 * 256 + b3], True, [])"
  proof -
    have ffff: "show_hex 65535 = ''ffff''"
    proof -
      have "char_of (102 :: nat) = CHR ''f''" by code_simp
      then show ?thesis by (simp add: show_hex.simps hex_char_def)
    qed
    have colon: "no_digit 16 (CHR '':'' # ?o)" by (simp add: no_digit_def sep_no_digit)
    have "read_number 16 4 True 65536 (''ffff'' @ CHR '':'' # ?o) = Some (65535, CHR '':'' # ?o)"
      using read_hex [OF _ colon, of 65535] by (simp add: ffff)
    moreover have "read_ipv4 (''ffff'' @ CHR '':'' # ?o) = None"
      using read_ipv4_none [of "show_hex 65535" "CHR '':'' # ?o"] show_hex_props [of 65535] by (simp add: ffff at_sep_def)
    moreover have "read_groups (Suc 0) (Suc 5) (CHR '':'' # ?o) = ([b0 * 256 + b1, b2 * 256 + b3], True, [])"
      using read_ipv4_show [OF assms] by (subst read_groups.simps) (simp add: read_sep_def)
    moreover have "(7::nat) = Suc (Suc 5)" by simp
    ultimately show ?thesis by (simp only: read_groups.simps) (simp add: read_sep_def)
  qed
  moreover have "replicate 5 (0 :: nat) = [0, 0, 0, 0, 0]" by (simp add: numeral_eq_Suc)
  ultimately show ?thesis by (simp add: read_ipv6_def)
qed

lemma read_groups_whole:
  assumes "\<forall>g \<in> set gs. g < 65536" and "length gs = 8"
  shows "read_ipv6 (show_groups gs) = Some (gs, [])"
  using read_groups_show [of gs 8 "[]"] assms by (simp add: read_ipv6_def at_stop_def)

lemma read_compressed:
  assumes "\<forall>g \<in> set hs. g < 65536" and "\<forall>g \<in> set ts. g < 65536" and "length hs + length ts < 8"
  shows "read_ipv6 (show_groups hs @ ''::'' @ show_groups ts) = Some (hs @ replicate (8 - length hs - length ts) 0 @ ts, [])"
proof -
  have "read_groups 0 8 (show_groups hs @ ''::'' @ show_groups ts) = (hs, False, ''::'' @ show_groups ts)"
    by (rule read_groups_show) (use assms in \<open>simp_all add: at_stop_def\<close>)
  moreover have "read_groups 0 (8 - (length hs + 1)) (show_groups ts @ []) = (ts, False, [])"
    by (rule read_groups_show) (use assms in \<open>simp_all add: at_stop_def\<close>)
  ultimately show ?thesis using assms(3) by (simp add: read_ipv6_def numeral_2_eq_2)
qed

text \<open>Printing an IPv6 address and parsing the text gives the address back.\<close>

theorem ipv6_text_roundtrip: "parse_ipv6 (show_ipv6 a) = Some a"
proof -
  define gs where "gs = ipv6_segments a"
  have gs: "\<forall>g \<in> set gs. g < 65536" "length gs = 8"
    by (simp_all add: gs_def ipv6_segments_def be_groups_less)
  have "read_ipv6 (show_ipv6 a) = Some (gs, [])"
  proof (cases "take 6 gs = [0, 0, 0, 0, 0, 65535]")
    case True
    have "gs = take 6 gs @ drop 6 gs" by simp
    also have "drop 6 gs = [gs ! 6, gs ! 7]" 
      by (rule nth_equalityI) (auto simp: gs(2) less_2_cases_iff)
    finally have all: "gs = [0, 0, 0, 0, 0, 65535, gs ! 6, gs ! 7]" using True by simp
    have "gs ! 6 < 256 * 256" "gs ! 7 < 256 * 256" using gs by simp_all
    then have bytes: "gs ! 6 div 256 < 256" "gs ! 7 div 256 < 256" "gs ! 6 mod 256 < 256" "gs ! 7 mod 256 < 256"
      by (simp_all add: less_mult_imp_div_less)
    have shown: "show_ipv6 a = ''::ffff:'' @ show_octets [gs ! 6 div 256, gs ! 6 mod 256, gs ! 7 div 256, gs ! 7 mod 256]"
      unfolding show_ipv6_def Let_def gs_def [symmetric] by (rule if_P [OF True])
    show ?thesis
      unfolding shown by (subst read_mapped) (simp_all only: bytes ball_simps simp_thms ball_empty, simp add: all [symmetric])
  next
    case False
    obtain st len where span: "zero_span gs = (st, len)" by fastforce
    show ?thesis
    proof (cases "1 < len")
      case True
      have shown: "show_ipv6 a = show_groups (take st gs) @ ''::'' @ show_groups (drop (st + len) gs)"
        using \<open>take 6 gs \<noteq> _\<close> span True by (simp add: show_ipv6_def gs_def Let_def)
      have le: "st + len \<le> 8" using zero_span_zeros(2) [OF span] gs(2) by simp
      have parts: "\<forall>g \<in> set (take st gs). g < 65536" "\<forall>g \<in> set (drop (st + len) gs). g < 65536"
        using gs(1) in_set_takeD in_set_dropD by fast+
      have "read_ipv6 (show_ipv6 a) =
          Some (take st gs @ replicate (8 - length (take st gs) - length (drop (st + len) gs)) 0 @ drop (st + len) gs, [])"
        unfolding shown
        by (rule read_compressed [OF parts]) (use gs(2) le True in simp)
      moreover have "8 - length (take st gs) - length (drop (st + len) gs) = len" using le gs(2) by simp
      ultimately show ?thesis using zero_span_zeros(1) [OF span] by simp
    next
      case short: False
      have "show_ipv6 a = show_groups gs"
        using False span short by (simp add: show_ipv6_def gs_def Let_def)
      then show ?thesis using read_groups_whole [OF gs] by simp
    qed
  qed
  then show ?thesis by (simp add: parse_ipv6_def gs_def)
qed

section \<open>The characters of an address\<close>

lemma set_join: "set (join sep xs) \<subseteq> set sep \<union> \<Union> (set ` set xs)"
  by (induction xs) (auto simp: join_Cons)

lemma hex_digit_chars: "c \<in> set (show_hex n) \<Longrightarrow> is_digit 16 c" "c \<in> set (show_nat n) \<Longrightarrow> is_digit 10 c"
  using show_hex_props [of n] show_nat_props [of n] by (auto simp: list_all_iff)

lemma decimal_hex: "is_digit 10 c \<Longrightarrow> is_digit 16 c"
  by (auto simp: is_digit_def to_digit_def Let_def split: if_splits)

lemma show_groups_chars: "c \<in> set (show_groups gs) \<Longrightarrow> is_digit 16 c \<or> c = CHR '':''"
  using set_join [of "'':''" "map show_hex gs"] hex_digit_chars(1) by (auto simp: show_groups_def)

lemma show_ipv6_chars: "c \<in> set (show_ipv6 a) \<Longrightarrow> is_digit 16 c \<or> c = CHR '':'' \<or> c = CHR ''.''"
proof -
  assume c: "c \<in> set (show_ipv6 a)"
  have f: "is_digit 16 (CHR ''f'')" by (simp add: is_digit_def to_digit_def)
  have octets: "c \<in> set (show_octets os) \<Longrightarrow> is_digit 16 c \<or> c = CHR ''.''" for os
    using set_join [of "''.''" "map show_nat os"] hex_digit_chars(2) decimal_hex by (auto simp: show_octets_def)
  show ?thesis
    using c f octets show_groups_chars [of c] by (auto simp: show_ipv6_def Let_def split: if_splits prod.splits)
qed

lemma show_ipv4_chars: "c \<in> set (show_ipv4 a) \<Longrightarrow> is_digit 10 c \<or> c = CHR ''.''"
  using set_join [of "''.''" "map show_nat (map unat (ipv4_octets a))"] hex_digit_chars(2)
  by (auto simp: show_ipv4_def show_octets_def)

lemma show_ipv6_colon: "CHR '':'' \<in> set (show_ipv6 a)"
proof -
  have "CHR '':'' \<in> set (show_groups gs)" if "length gs = 8" for gs
    using that by (cases gs; cases "tl gs") (auto simp: show_groups_def join_Cons)
  then show ?thesis by (cases "zero_span (ipv6_segments a)") (auto simp: show_ipv6_def Let_def)
qed

definition parse_ipv4 :: "string \<Rightarrow> ipv4_addr option" where
  "parse_ipv4 s =
     (case read_octets 0 4 s of
        Some (bs, []) \<Rightarrow> Some (ipv4_from_octets (map of_nat bs))
      | _ \<Rightarrow> None)"

lemma list_of_four: "length xs = 4 \<Longrightarrow> \<exists>a b c d. xs = [a, b, c, d]"
  by (auto simp: numeral_eq_Suc length_Suc_conv)

lemma ipv4_text_roundtrip: "parse_ipv4 (show_ipv4 a) = Some a"
proof -
  obtain b0 b1 b2 b3 where bs: "ipv4_octets a = [b0, b1, b2, b3]"
    using list_of_four [OF length_ipv4_octets] by blast
  have "\<forall>b \<in> {unat b0, unat b1, unat b2, unat b3}. b < 256"
    using unsigned_less [where ?'a = nat and ?'b = 8] by simp
  then have "parse_ipv4 (show_ipv4 a) = Some (ipv4_from_octets (ipv4_octets a))"
    using read_octets_whole [of "unat b0" "unat b1" "unat b2" "unat b3"]
    by (simp add: parse_ipv4_def show_ipv4_def bs)
  then show ?thesis by simp
qed

section \<open>Prefixes\<close>

fun net_addr :: "ip_net \<Rightarrow> ip_addr" where
  "net_addr (NetV4 a l) = AddrV4 a"
| "net_addr (NetV6 a l) = AddrV6 a"

text \<open>
  \<open>Display\<close> and \<open>FromStr\<close> of \<open>ipnet::IpNet\<close>: the crate prints a prefix as its address, a
  slash and its length, parses what it prints, and refuses a length that does not fit the
  family. What it refuses comes with the text of its error.
\<close>

locale ipnet_text =
  fixes show_net :: "ip_net \<Rightarrow> string"
    and parse_net :: "string \<Rightarrow> string + ip_net"
  assumes show_net: "show_net p = show_ip_addr (net_addr p) @ ''/'' @ show_nat (unat (net_prefix_len p))"
    and parse_show: "destination_valid (Destination p) \<Longrightarrow> parse_net (show_net p) = Inr p"
    and parse_valid: "parse_net s = Inr p \<Longrightarrow> destination_valid (Destination p)"
begin

lemma show_net_chars: "c \<in> set (show_net p) \<Longrightarrow> is_digit 16 c \<or> c \<in> {CHR '':'', CHR ''.'', CHR ''/''}"
  by (cases p) (auto simp: show_net dest: show_ipv4_chars show_ipv6_chars hex_digit_chars(2) decimal_hex)

end

text \<open>An instance: the longest part up to the slash decides the address, and its colon the family.\<close>

definition documented_show_net :: "ip_net \<Rightarrow> string" where
  "documented_show_net p = show_ip_addr (net_addr p) @ ''/'' @ show_nat (unat (net_prefix_len p))"

definition documented_parse_net :: "string \<Rightarrow> string + ip_net" where
  "documented_parse_net s =
     (let a = takeWhile (\<lambda>c. c \<noteq> CHR ''/'') s;
          l = tl (dropWhile (\<lambda>c. c \<noteq> CHR ''/'') s)
      in ok_or ''invalid IP address syntax''
           (if CHR '':'' \<in> set a then
              (case (parse_ipv6 a, parse_uint 129 l) of
                 (Some a, Inr n) \<Rightarrow> Some (NetV6 a (of_nat n))
               | _ \<Rightarrow> None)
            else
              (case (parse_ipv4 a, parse_uint 33 l) of
                 (Some a, Inr n) \<Rightarrow> Some (NetV4 a (of_nat n))
               | _ \<Rightarrow> None)))"

lemma take_token: "c \<notin> set xs \<Longrightarrow> takeWhile (\<lambda>d. d \<noteq> c) (xs @ c # s) = xs \<and> dropWhile (\<lambda>d. d \<noteq> c) (xs @ c # s) = c # s"
  by (induction xs) auto

lemma no_slash: "CHR ''/'' \<notin> set (show_ip_addr a)"
proof -
  have "\<not> is_digit 16 (CHR ''/'')" by (simp add: is_digit_def to_digit_def)
  then show ?thesis using show_ipv4_chars show_ipv6_chars decimal_hex by (cases a) fastforce+
qed

lemma ipv4_no_colon: "CHR '':'' \<notin> set (show_ipv4 a)"
  using show_ipv4_chars sep_no_digit(1) by fastforce

interpretation documented_text: ipnet_text documented_show_net documented_parse_net
proof
  fix p
  show "documented_show_net p = show_ip_addr (net_addr p) @ ''/'' @ show_nat (unat (net_prefix_len p))"
    by (rule documented_show_net_def)
next
  fix p
  assume valid: "destination_valid (Destination p)"
  show "documented_parse_net (documented_show_net p) = Inr p"
  proof (cases p)
    case (NetV4 a l)
    have "unat l < 33" using valid by (simp add: NetV4 word_le_nat_alt)
    then show ?thesis
      using take_token [OF no_slash, of "AddrV4 a"]
      by (simp add: NetV4 documented_parse_net_def documented_show_net_def ipv4_no_colon parse_uint_show ipv4_text_roundtrip)
  next
    case (NetV6 a l)
    have "unat l < 129" using valid by (simp add: NetV6 word_le_nat_alt)
    then show ?thesis
      using take_token [OF no_slash, of "AddrV6 a"]
      by (simp add: NetV6 documented_parse_net_def documented_show_net_def show_ipv6_colon parse_uint_show ipv6_text_roundtrip)
  qed
next
  fix s p
  have le: "parse_uint (Suc n) l = Inr m \<Longrightarrow> n < 256 \<Longrightarrow> (of_nat m :: u8) \<le> of_nat n" for n l m
    using parse_uint_less [of "Suc n" l m] by (simp add: word_le_nat_alt unat_of_nat)
  assume "documented_parse_net s = Inr p"
  then show "destination_valid (Destination p)"
    using le [of 32] le [of 128]
    by (auto simp: documented_parse_net_def Let_def ok_or_Inr_iff split: if_splits option.splits sum.splits)
qed

end
