(* ===== verification/Display.thy ===== *)
theory Display
  imports Text_Forms Route_Handler
begin

text \<open>
  What the program prints: \<open>Display\<close> of destinations, next hops (\<open>src/src/types.rs\<close>), routes
  (\<open>src/src/route.rs\<close>) and errors (\<open>src/src/error.rs\<close>), and the handler that logs its calls
  (\<open>src/src/client.rs\<close>). The texts of a prefix and of the errors of other crates are parameters.
\<close>

section \<open>Destinations, next hops and routes\<close>

type_synonym show_net = "ip_net \<Rightarrow> string"

definition destination_display :: "show_net \<Rightarrow> destination \<Rightarrow> string" where
  "destination_display show_net d = show_net (dest_prefix d)"

definition next_hop_display :: "next_hop \<Rightarrow> string" where
  "next_hop_display nh =
     show_ipv6 (target_address nh) @
     (case target_vni nh of Some vni \<Rightarrow> '' (VNI: '' @ show_nat (unat vni) @ '')'' | None \<Rightarrow> []) @
     (case hop_type nh of
        Standard \<Rightarrow> []
      | Nat \<Rightarrow> '' [NAT ports '' @ show_nat (unat (nat_port_range_from nh)) @ ''-'' @
          show_nat (unat (nat_port_range_to nh)) @ '']''
      | LoadBalancerTarget \<Rightarrow> '' [LB]'')"

definition route_display :: "show_net \<Rightarrow> route \<Rightarrow> string" where
  "route_display show_net r =
     destination_display show_net (route_destination r) @ '' via '' @ next_hop_display (route_next_hop r)"

section \<open>Errors\<close>

text \<open>The payload of an error of another crate is not part of the model, \<open>source\<close> is its text.\<close>

fun error_display :: "(error \<Rightarrow> string) \<Rightarrow> error \<Rightarrow> string" where
  "error_display source EConnection = ''connection error: '' @ source EConnection"
| "error_display source (EProtocol s) = ''protocol error: '' @ s"
| "error_display source EEncoding = ''encoding error: '' @ source EEncoding"
| "error_display source ENotEstablished = ''connection not established''"
| "error_display source EClosed = ''connection closed''"
| "error_display source ETimeout = ''timeout''"
| "error_display source EConnectionTimeout = ''connection timeout''"
| "error_display source (EAlreadySubscribed v) = ''already subscribed to VNI '' @ show_nat (unat v)"
| "error_display source (ENotSubscribed v) = ''not subscribed to VNI '' @ show_nat (unat v)"
| "error_display source ERouteAlreadyAnnounced = ''route already announced''"
| "error_display source ERouteNotFound = ''route not found''"
| "error_display source (ENetlink s) = ''netlink error: '' @ s"
| "error_display source ENetlinkConnection = ''netlink connection error: '' @ source ENetlinkConnection"

section \<open>The logging handler\<close>

text \<open>A log event at level \<open>INFO\<close>: its message and its fields, as the macro hands them to the subscriber.\<close>

record log_event =
  log_message :: string
  log_fields :: "(string \<times> string) list"

definition logging_handler :: "show_net \<Rightarrow> log_event list route_handler" where
  "logging_handler show_net =
     \<lparr>rh_add_route = (\<lambda>vni route log. log @
        [\<lparr>log_message = ''route added'',
          log_fields = [(''vni'', vni_display vni), (''route'', route_display show_net route)]\<rparr>]),
      rh_remove_route = (\<lambda>vni route log. log @
        [\<lparr>log_message = ''route removed'',
          log_fields = [(''vni'', vni_display vni), (''route'', route_display show_net route)]\<rparr>])\<rparr>"

section \<open>Reading a text back\<close>

text \<open>A text that is cut at the first character outside a class.\<close>

lemma token_eq:
  assumes "c \<notin> set xs" and "c \<notin> set ys"
  shows "xs @ c # s = ys @ c # t \<longleftrightarrow> xs = ys \<and> s = t"
  using take_token [OF assms(1), of s] take_token [OF assms(2), of t] by (metis list.inject)

lemma show_nat_eq [simp]: "show_nat m = show_nat n \<longleftrightarrow> m = n"
  by (metis show_nat_props)

lemma show_unat_eq: "show_nat (unat v) = show_nat (unat w) \<longleftrightarrow> v = w"
  using show_nat_eq [of "unat v" "unat w"] unsigned_word_eqI [of v w] by auto

lemma show_ipv6_eq [simp]: "show_ipv6 a = show_ipv6 b \<longleftrightarrow> a = b"
  by (metis ipv6_text_roundtrip option.inject)

lemma show_ipv4_eq [simp]: "show_ipv4 a = show_ipv4 b \<longleftrightarrow> a = b"
  by (metis ipv4_text_roundtrip option.inject)

lemma show_ip_addr_eq [simp]: "show_ip_addr a = show_ip_addr b \<longleftrightarrow> a = b"
  using show_ipv6_colon ipv4_no_colon by (cases a; cases b) (auto, metis+)

lemma separators_no_digit:
  "\<not> is_digit 16 (CHR '' '')" "\<not> is_digit 10 (CHR ''-'')" "\<not> is_digit 10 (CHR '']'')" "\<not> is_digit 10 (CHR '')'')"
  by (simp_all add: is_digit_def to_digit_def)

lemma show_nat_separators:
  "CHR ''-'' \<notin> set (show_nat n)" "CHR '']'' \<notin> set (show_nat n)" "CHR '')'' \<notin> set (show_nat n)"
  using hex_digit_chars(2) separators_no_digit by metis+

lemma show_ipv6_no_space: "CHR '' '' \<notin> set (show_ipv6 a)"
  using show_ipv6_chars separators_no_digit(1) by fastforce

text \<open>What follows the address of a next hop: its VNI and its type.\<close>

definition hop_vni_text :: "next_hop \<Rightarrow> string" where
  "hop_vni_text nh = (case target_vni nh of Some vni \<Rightarrow> '' (VNI: '' @ show_nat (unat vni) @ '')'' | None \<Rightarrow> [])"

definition hop_type_text :: "next_hop \<Rightarrow> string" where
  "hop_type_text nh =
     (case hop_type nh of
        Standard \<Rightarrow> []
      | Nat \<Rightarrow> '' [NAT ports '' @ show_nat (unat (nat_port_range_from nh)) @ ''-'' @
          show_nat (unat (nat_port_range_to nh)) @ '']''
      | LoadBalancerTarget \<Rightarrow> '' [LB]'')"

lemma next_hop_display_parts:
  "next_hop_display nh = show_ipv6 (target_address nh) @ hop_vni_text nh @ hop_type_text nh"
  by (simp add: next_hop_display_def hop_vni_text_def hop_type_text_def)

text \<open>The part of a next hop that is printed: the ports count for NAT only.\<close>

definition shown_alike :: "next_hop \<Rightarrow> next_hop \<Rightarrow> bool" where
  "shown_alike g h \<longleftrightarrow> target_address g = target_address h \<and> target_vni g = target_vni h \<and> hop_type g = hop_type h \<and>
     (hop_type g = Nat \<longrightarrow> nat_port_range_from g = nat_port_range_from h \<and> nat_port_range_to g = nat_port_range_to h)"

lemma hop_type_text_eq:
  "hop_type_text g = hop_type_text h \<longleftrightarrow>
     hop_type g = hop_type h \<and>
     (hop_type g = Nat \<longrightarrow> nat_port_range_from g = nat_port_range_from h \<and> nat_port_range_to g = nat_port_range_to h)"
proof (cases "hop_type g = Nat \<and> hop_type h = Nat")
  case True
  then show ?thesis
    by (simp add: hop_type_text_def show_unat_eq token_eq [OF show_nat_separators(1) show_nat_separators(1)] del: show_nat_eq)
next
  case False
  then show ?thesis by (auto simp: hop_type_text_def split: next_hop_type.split)
qed

lemma hop_texts_eq:
  "hop_vni_text g @ hop_type_text g = hop_vni_text h @ hop_type_text h \<longleftrightarrow>
     target_vni g = target_vni h \<and> hop_type_text g = hop_type_text h"
proof (cases "target_vni g"; cases "target_vni h")
  fix v w
  assume "target_vni g = Some v" and "target_vni h = Some w"
  then show ?thesis
    by (simp add: hop_vni_text_def show_unat_eq token_eq [OF show_nat_separators(3) show_nat_separators(3)] del: show_nat_eq)
next
  fix v
  assume "target_vni g = Some v" and "target_vni h = None"
  then show ?thesis by (cases "hop_type h") (auto simp: hop_vni_text_def hop_type_text_def)
next
  fix v
  assume "target_vni g = None" and "target_vni h = Some v"
  then show ?thesis by (cases "hop_type g") (auto simp: hop_vni_text_def hop_type_text_def)
qed (simp add: hop_vni_text_def)

text \<open>Two next hops print alike exactly when they agree in what is printed.\<close>

lemma next_hop_display_eq: "next_hop_display g = next_hop_display h \<longleftrightarrow> shown_alike g h"
proof -
  have cut: "takeWhile (\<lambda>c. c \<noteq> CHR '' '') (next_hop_display k) = show_ipv6 (target_address k)" for k
  proof (cases "hop_vni_text k @ hop_type_text k")
    case Nil
    then show ?thesis using show_ipv6_no_space by (simp add: next_hop_display_parts) (metis takeWhile_eq_all_conv)
  next
    case (Cons c s)
    then have "c = CHR '' ''"
      by (auto simp: hop_vni_text_def hop_type_text_def split: option.splits next_hop_type.splits)
    with Cons take_token [OF show_ipv6_no_space] show ?thesis by (simp add: next_hop_display_parts)
  qed
  have "next_hop_display g = next_hop_display h \<longleftrightarrow>
      target_address g = target_address h \<and> hop_vni_text g @ hop_type_text g = hop_vni_text h @ hop_type_text h"
    using cut [of g] cut [of h] by (auto simp: next_hop_display_parts)
  then show ?thesis by (simp add: hop_texts_eq hop_type_text_eq shown_alike_def)
qed

context ipnet_text
begin

lemma show_net_eq: "show_net p = show_net q \<longleftrightarrow> p = q"
proof -
  have "show_net p = show_net q \<longleftrightarrow> net_addr p = net_addr q \<and> net_prefix_len p = net_prefix_len q"
    by (simp add: show_net show_unat_eq token_eq [OF no_slash no_slash] del: show_nat_eq)
  then show ?thesis by (cases p; cases q) simp_all
qed

lemma show_net_no_space: "CHR '' '' \<notin> set (show_net p)"
  using show_net_chars [of "CHR '' ''" p] separators_no_digit(1) by auto

lemma route_display_eq:
  "route_display show_net r = route_display show_net s \<longleftrightarrow>
     route_destination r = route_destination s \<and> shown_alike (route_next_hop r) (route_next_hop s)"
proof -
  have "route_display show_net r = route_display show_net s \<longleftrightarrow>
      show_net (dest_prefix (route_destination r)) = show_net (dest_prefix (route_destination s)) \<and>
      next_hop_display (route_next_hop r) = next_hop_display (route_next_hop s)"
    by (simp add: route_display_def destination_display_def token_eq [OF show_net_no_space show_net_no_space])
  also have "\<dots> \<longleftrightarrow> route_destination r = route_destination s \<and> shown_alike (route_next_hop r) (route_next_hop s)"
    by (metis show_net_eq next_hop_display_eq destination.expand)
  finally show ?thesis .
qed

end

section \<open>Properties\<close>

text \<open>What a log of the handler's calls says: the calls, in order, with their texts.\<close>

definition call_event :: "show_net \<Rightarrow> handler_call \<Rightarrow> log_event" where
  "call_event show_net c =
     (case c of
        HandlerAdd v r \<Rightarrow> \<lparr>log_message = ''route added'', log_fields = [(''vni'', vni_display v), (''route'', route_display show_net r)]\<rparr>
      | HandlerRemove v r \<Rightarrow> \<lparr>log_message = ''route removed'', log_fields = [(''vni'', vni_display v), (''route'', route_display show_net r)]\<rparr>)"

lemma logging_call: "called (logging_handler show_net) c log = log @ [call_event show_net c]"
  by (cases c) (simp_all add: logging_handler_def call_event_def)

lemma logging_calls: "fold (called (logging_handler show_net)) cs log = log @ map (call_event show_net) cs"
  by (induction cs arbitrary: log) (simp_all add: logging_call)

lemma vni_display_eq [simp]: "vni_display v = vni_display w \<longleftrightarrow> v = w"
  by (simp add: vni_display_def show_unat_eq vni.expand del: show_nat_eq) (metis vni.expand)

text \<open>The log of \<open>LoggingHandler\<close> tells the calls apart as far as their routes are printed: its
  events are those of the calls, in order, and two calls have the same event exactly when they
  are both additions or both removals, of the same VNI, with the same destination, and with
  next hops that agree in address, VNI and type, and in their ports when the type is NAT. The
  ports of another type are not printed, although they make a different route of it.\<close>

theorem log_tells_calls:
  assumes "ipnet_text show_net parse_net"
  shows "fold (called (logging_handler show_net)) cs [] = map (call_event show_net) cs \<and>
    (call_event show_net c = call_event show_net c' \<longleftrightarrow>
       (\<exists>v r r'. (c = HandlerAdd v r \<and> c' = HandlerAdd v r' \<or> c = HandlerRemove v r \<and> c' = HandlerRemove v r') \<and>
          route_destination r = route_destination r' \<and> shown_alike (route_next_hop r) (route_next_hop r')))"
  using ipnet_text.route_display_eq [OF assms] by (cases c; cases c') (auto simp: logging_calls call_event_def)

theorem log_tells_calls_witness:
  "call_event documented_show_net (HandlerAdd vni100 (route_new net24 hop1)) \<noteq>
     call_event documented_show_net (HandlerAdd vni100 (route_new net24 hop2)) \<and>
   call_event documented_show_net (HandlerAdd vni100 (route_new net24 hop1)) =
     call_event documented_show_net (HandlerAdd vni100 (route_new net24 (hop1\<lparr>nat_port_range_from := 7\<rparr>)))"
  using log_tells_calls [OF documented_text.ipnet_text_axioms, of "[]" "HandlerAdd vni100 (route_new net24 hop1)"]
  by (auto simp: shown_alike_def route_new_def next_hop_standard_def next_hop_nat_def)

end
