(* ===== verification/Announcements.thy ===== *)
theory Announcements
  imports Display
begin

text \<open>
  The two little languages of the example client's command line (\<open>src/examples/client.rs\<close>):
  announcements \<open>VNI#prefix@nexthop[#type[#fromPort#toPort]]\<close> and the assignments of VNIs to
  kernel routing tables \<open>VNI#TABLE\<close>. An error is its text. Strings are taken to be ASCII where
  a letter's case matters.
\<close>

section \<open>Splitting\<close>

fun split_on :: "char \<Rightarrow> string \<Rightarrow> string list" where
  "split_on c [] = [[]]"
| "split_on c (d # s) = (if d = c then [] # split_on c s else (d # hd (split_on c s)) # tl (split_on c s))"

definition split_once :: "char \<Rightarrow> string \<Rightarrow> (string \<times> string) option" where
  "split_once c s =
     (if c \<in> set s then Some (takeWhile (\<lambda>d. d \<noteq> c) s, tl (dropWhile (\<lambda>d. d \<noteq> c) s)) else None)"

definition to_lowercase :: "string \<Rightarrow> string" where
  "to_lowercase s = map (\<lambda>c. let k = of_char c :: nat in if 65 \<le> k \<and> k \<le> 90 then char_of (k + 32) else c) s"

definition quoted :: "string \<Rightarrow> string" where
  "quoted s = [CHR 0x27] @ s @ [CHR 0x27]"

lemma split_on_nonempty [simp]: "split_on c s \<noteq> []"
  by (cases s) simp_all

lemma split_on_token: "c \<notin> set xs \<Longrightarrow> split_on c xs = [xs]"
  by (induction xs) auto

lemma split_on_append: "c \<notin> set xs \<Longrightarrow> split_on c (xs @ c # s) = xs # split_on c s"
  by (induction xs) auto

lemma split_once_append: "c \<notin> set xs \<Longrightarrow> split_once c (xs @ c # s) = Some (xs, s)"
  using take_token [of c xs s] by (simp add: split_once_def)

section \<open>Announcements\<close>

type_synonym parse_net = "string \<Rightarrow> string + ip_net"
type_synonym announcement = "vni \<times> destination \<times> next_hop"

definition announcement_format :: string where
  "announcement_format = ''expected format: VNI#prefix@nexthop[#type[#fromPort#toPort]]''"

text \<open>\<open>parse\<close> into a \<open>u16\<close>, with the error turned into its text by the question mark.\<close>

definition parse_u16 :: "string \<Rightarrow> string + u16" where
  "parse_u16 s = (case parse_uint 65536 s of Inl e \<Rightarrow> Inl (int_error_display e) | Inr n \<Rightarrow> Inr (of_nat n))"

definition parse_u32 :: "string \<Rightarrow> string \<Rightarrow> string + u32" where
  "parse_u32 err s = (case parse_uint 4294967296 s of Inl _ \<Rightarrow> Inl err | Inr n \<Rightarrow> Inr (of_nat n))"

definition parse_announcement :: "parse_net \<Rightarrow> string \<Rightarrow> string + announcement" where
  "parse_announcement parse_net s =
     (let parts = split_on (CHR ''#'') s in
      if length parts < 2 then Inl announcement_format
      else
        and_then (parse_u32 (''invalid VNI '' @ quoted (parts ! 0) @ '': must be a number'') (parts ! 0)) (\<lambda>vni.
        and_then (ok_or announcement_format (split_once (CHR ''@'') (parts ! 1))) (\<lambda>(prefix_str, addr_str).
        and_then (parse_net prefix_str) (\<lambda>pfx.
        let destination = destination_new pfx in
        and_then (ok_or ''invalid IPv6 address syntax'' (parse_ipv6 addr_str)) (\<lambda>addr.
        and_then
          (case if 2 < length parts then Some (to_lowercase (parts ! 2)) else None of
             Some t \<Rightarrow>
               if t = ''nat'' then
                 if length parts \<noteq> 5 then Inl ''nat routes require: VNI#prefix@nexthop#nat#fromPort#toPort''
                 else and_then (parse_u16 (parts ! 3)) (\<lambda>from.
                      and_then (parse_u16 (parts ! 4)) (\<lambda>to. Inr (next_hop_nat addr from to)))
               else if t = ''lb'' then Inr (next_hop_load_balancer addr)
               else if t = ''std'' then Inr (next_hop_standard addr)
               else Inl (''unknown route type '' @ quoted t @ '': expected std, nat, or lb'')
           | None \<Rightarrow> Inr (next_hop_standard addr)) (\<lambda>next_hop.
        Inr (Vni vni, destination, next_hop)))))))"

text \<open>An announcement written in its format.\<close>

definition announcement_text :: "show_net \<Rightarrow> announcement \<Rightarrow> string" where
  "announcement_text show_net a =
     (case a of (vni, destination, next_hop) \<Rightarrow>
        vni_display vni @ ''#'' @ destination_display show_net destination @ ''@'' @
        show_ipv6 (target_address next_hop) @
        (case hop_type next_hop of
           Standard \<Rightarrow> []
         | Nat \<Rightarrow> ''#nat#'' @ show_nat (unat (nat_port_range_from next_hop)) @ ''#'' @
             show_nat (unat (nat_port_range_to next_hop))
         | LoadBalancerTarget \<Rightarrow> ''#lb''))"

text \<open>What an announcement can say: no target VNI, and ports with NAT only.\<close>

definition announceable :: "announcement \<Rightarrow> bool" where
  "announceable a \<longleftrightarrow>
     (case a of (vni, destination, next_hop) \<Rightarrow>
        destination_valid destination \<and> target_vni next_hop = None \<and>
        (hop_type next_hop \<noteq> Nat \<longrightarrow> nat_port_range_from next_hop = 0 \<and> nat_port_range_to next_hop = 0))"

lemma parse_u32_show [simp]: "parse_u32 err (show_nat (unat n)) = Inr n"
  using unsigned_less [of n, where ?'a = nat] by (simp add: parse_u32_def parse_uint_show)

lemma parse_u16_show [simp]: "parse_u16 (show_nat (unat n)) = Inr n"
  using unsigned_less [of n, where ?'a = nat] by (simp add: parse_u16_def parse_uint_show)

lemma marks_no_digit:
  "\<not> is_digit 16 (CHR ''#'')" "\<not> is_digit 16 (CHR ''@'')" "\<not> is_digit 10 (CHR ''#'')" "\<not> is_digit 10 (CHR ''@'')"
  by (simp_all add: is_digit_def to_digit_def)

lemma no_marks:
  "CHR ''#'' \<notin> set (show_nat n)" "CHR ''@'' \<notin> set (show_nat n)" "CHR ''#'' \<notin> set (show_ipv6 a)"
  using hex_digit_chars(2) show_ipv6_chars marks_no_digit by fastforce+

context ipnet_text
begin

lemma net_no_marks: "CHR ''#'' \<notin> set (show_net p)" "CHR ''@'' \<notin> set (show_net p)"
  using show_net_chars [of _ p] marks_no_digit by auto

lemma announcement_parts:
  "split_on (CHR ''#'') (announcement_text show_net (v, d, h)) =
     [vni_display v, show_net (dest_prefix d) @ ''@'' @ show_ipv6 (target_address h)] @
     (case hop_type h of
        Standard \<Rightarrow> []
      | Nat \<Rightarrow> [''nat'', show_nat (unat (nat_port_range_from h)), show_nat (unat (nat_port_range_to h))]
      | LoadBalancerTarget \<Rightarrow> [''lb''])"
proof -
  let ?p = "show_net (dest_prefix d) @ ''@'' @ show_ipv6 (target_address h)"
  have p: "CHR ''#'' \<notin> set ?p" using net_no_marks no_marks by auto
  have hop: "split_on (CHR ''#'') (show_net (dest_prefix d) @ CHR ''@'' # show_ipv6 (target_address h) @ CHR ''#'' # s) =
      ?p # split_on (CHR ''#'') s" for s
    using split_on_append [OF p, of s] by simp
  show ?thesis
    using split_on_token [OF p]
    by (cases "hop_type h")
       (simp_all add: announcement_text_def destination_display_def vni_display_def hop
          split_on_append [OF no_marks(1)] split_on_token [OF no_marks(1)])
qed

lemma announcement_parse:
  assumes "announceable a"
  shows "parse_announcement parse_net (announcement_text show_net a) = Inr a"
proof -
  obtain v d h where a: "a = (v, d, h)" by (cases a)
  have once: "split_once (CHR ''@'') (show_net q @ CHR ''@'' # s) = Some (show_net q, s)" for q s
    by (rule split_once_append [OF net_no_marks(2)])
  have net: "parse_net (show_net (dest_prefix d)) = Inr (dest_prefix d)"
    using assms parse_show [of "dest_prefix d"] by (simp add: a announceable_def)
  show ?thesis
    using assms
    by (cases "hop_type h"; cases h; cases v)
       (simp_all add: a announceable_def parse_announcement_def announcement_parts once net ipv6_text_roundtrip
          vni_display_def destination_new_def to_lowercase_def next_hop_standard_def next_hop_nat_def
          next_hop_load_balancer_def)
qed

lemma parse_announceable:
  assumes "parse_announcement parse_net s = Inr a"
  shows "announceable a"
  using assms
  by (auto simp: parse_announcement_def Let_def and_then_Inr_iff announceable_def destination_new_def
      next_hop_standard_def next_hop_nat_def next_hop_load_balancer_def parse_valid
      split: if_splits option.splits)

end

section \<open>Tables\<close>

definition parse_table_mapping :: "string \<Rightarrow> string + vni \<times> u32" where
  "parse_table_mapping mapping =
     (let parts = split_on (CHR ''#'') mapping in
      if length parts \<noteq> 2 then
        Inl (''Invalid VNI#TABLE format: '' @ quoted mapping @ '' (expected e.g., '' @ quoted ''100#100'' @ '')'')
      else
        and_then (parse_u32 (''Invalid VNI in '' @ quoted mapping @ '': must be a number'') (parts ! 0)) (\<lambda>vni.
        and_then (parse_u32 (''Invalid table ID in '' @ quoted mapping @ '': must be a number'') (parts ! 1)) (\<lambda>table.
        Inr (Vni vni, table))))"

fun parse_vni_table_map :: "(vni, u32) hash_map \<Rightarrow> string list \<Rightarrow> string + (vni, u32) hash_map" where
  "parse_vni_table_map m [] = Inr m"
| "parse_vni_table_map m (mapping # mappings) =
     and_then (parse_table_mapping mapping) (\<lambda>(vni, table). parse_vni_table_map (hm_insert vni table m) mappings)"

text \<open>The loop succeeds when every mapping parses, and a VNI gets the table of its last mapping.\<close>

lemma parse_vni_table_map_outcome:
  "parse_vni_table_map m ms = Inr m' \<longleftrightarrow>
     (\<exists>es. map parse_table_mapping ms = map Inr es \<and> fold (\<lambda>(v, t). hm_insert v t) es m = m')"
proof (induction ms arbitrary: m)
  case (Cons s ms)
  have "map parse_table_mapping (s # ms) = map Inr es \<longleftrightarrow>
      (\<exists>v t es'. es = (v, t) # es' \<and> parse_table_mapping s = Inr (v, t) \<and> map parse_table_mapping ms = map Inr es')" for es
    by (cases es) auto
  with Cons show ?case by (auto simp: and_then_Inr_iff)
qed simp

lemma parse_vni_table_map_error:
  "parse_vni_table_map m ms = Inl e \<Longrightarrow> \<exists>s. s \<in> set ms \<and> parse_table_mapping s = Inl e"
  by (induction ms arbitrary: m) (auto simp: and_then_Inl_iff)

lemma fold_insert_get: "hm_get (fold (\<lambda>(v, t). hm_insert v t) es m) = (\<lambda>v. case map_of (rev es) v of None \<Rightarrow> hm_get m v | t \<Rightarrow> t)"
  by (induction es rule: rev_induct) (auto simp: fun_eq_iff split: option.split)

section \<open>Properties\<close>

text \<open>C23: what the command line of the example client can say is exactly the announceable routes. An
  announceable route, that is one with a valid prefix, without a target VNI and with ports only
  for NAT, written in the documented format is parsed back, whatever its VNI, addresses and
  ports; and whatever text is parsed gives an announceable route, so that writing it and parsing
  again changes nothing.\<close>

theorem announcement_roundtrip:
  assumes "ipnet_text show_net parse_net"
  shows "(announceable a \<longleftrightarrow> parse_announcement parse_net (announcement_text show_net a) = Inr a) \<and>
    (parse_announcement parse_net s = Inr a \<longrightarrow> announceable a)"
  using ipnet_text.announcement_parse [OF assms] ipnet_text.parse_announceable [OF assms] by blast

theorem announcement_roundtrip_witness:
  "parse_announcement documented_parse_net (announcement_text documented_show_net
     (vni100, net24, next_hop_nat 0x20010DB8000000000000000000000001 1024 2048)) =
   Inr (vni100, net24, next_hop_nat 0x20010DB8000000000000000000000001 1024 2048)"
  using announcement_roundtrip [OF documented_text.ipnet_text_axioms,
      of "(vni100, net24, next_hop_nat 0x20010DB8000000000000000000000001 1024 2048)" "[]"]
  by (simp add: announceable_def next_hop_nat_def)

text \<open>The mappings of VNIs to tables are refused with the error of one of them, or all of them
  parse, and then the table of a VNI is that of the last mapping that names it.\<close>

theorem table_map_exact:
  "case parse_vni_table_map [] ms of
     Inl e \<Rightarrow> \<exists>s. s \<in> set ms \<and> parse_table_mapping s = Inl e
   | Inr m \<Rightarrow> \<exists>es. map parse_table_mapping ms = map Inr es \<and> hm_get m = map_of (rev es)"
proof (cases "parse_vni_table_map [] ms")
  case (Inl e)
  then show ?thesis using parse_vni_table_map_error by auto
next
  case (Inr m)
  then obtain es where es: "map parse_table_mapping ms = map Inr es" "m = fold (\<lambda>(v, t). hm_insert v t) es []"
    by (auto simp: parse_vni_table_map_outcome)
  have "hm_get m = map_of (rev es)" by (auto simp: es(2) fold_insert_get fun_eq_iff split: option.split)
  with es(1) Inr show ?thesis by auto
qed

end
