(* ===== verification/Netlink.thy ===== *)
theory Netlink
  imports Text_Forms
begin

text \<open>
  Installing routes into the Linux kernel (\<open>src/src/netlink.rs\<close>). The kernel and the crates
  that talk to it are a parameter: a record of the operations the code calls, on a kernel
  state of any type. A dump of the kernel's routes is a list of messages that an error may
  cut short. What the theorems assume of the operations is said by \<open>kernel_ok\<close>.
\<close>

section \<open>The kernel interface\<close>

definition METALBOND_RT_PROTO :: u8 where "METALBOND_RT_PROTO = 254"

datatype route_attribute = AttrTable u32 | AttrDestination ip_addr | AttrOther

record kernel_route =
  kr_table :: u8
  kr_protocol :: u8
  kr_prefix_length :: u8
  kr_attributes :: "route_attribute list"

record route_request =
  rq_destination :: ip_addr
  rq_prefix_length :: u8
  rq_gateway :: "ipv6_addr option"
  rq_interface :: u32
  rq_table :: u32
  rq_protocol :: u8

record 'k kernel =
  k_links :: "'k \<Rightarrow> string \<Rightarrow> error + u32 option"
  k_dump :: "'k \<Rightarrow> ip_version \<Rightarrow> (error + kernel_route) list"
  k_add :: "route_request \<Rightarrow> 'k \<Rightarrow> string option \<times> 'k"
  k_del :: "kernel_route \<Rightarrow> 'k \<Rightarrow> string option \<times> 'k"

record netlink_config =
  vni_table_map :: "(vni, u32) hash_map"
  link_name :: string

record netlink_client =
  nl_config :: netlink_config
  nl_link_index :: u32

section \<open>Operations\<close>

definition get_link_index :: "'k kernel \<Rightarrow> string \<Rightarrow> 'k \<Rightarrow> error + u32" where
  "get_link_index K name k =
     and_then (k_links K k name) (\<lambda>link.
       case link of
         Some index \<Rightarrow> Inr index
       | None \<Rightarrow> Inl (ENetlink (''Cannot find tunnel device '' @ [CHR 0x27] @ name @ [CHR 0x27])))"

definition netlink_new :: "'k kernel \<Rightarrow> netlink_config \<Rightarrow> 'k \<Rightarrow> error + netlink_client" where
  "netlink_new K config k =
     and_then (get_link_index K (link_name config) k) (\<lambda>link_index.
       Inr \<lparr>nl_config = config, nl_link_index = link_index\<rparr>)"

text \<open>The table configured for a VNI.\<close>

definition table_for :: "netlink_client \<Rightarrow> vni \<Rightarrow> error + u32" where
  "table_for cl vni =
     ok_or (ENetlink (''No route table ID configured for VNI '' @ vni_display vni))
       (hm_get (vni_table_map (nl_config cl)) vni)"

text \<open>The text of an error of the kernel for a route.\<close>

definition route_error :: "string \<Rightarrow> ip_addr \<Rightarrow> u8 \<Rightarrow> u32 \<Rightarrow> string \<Rightarrow> error" where
  "route_error what dest prefix_len table e =
     ENetlink (what @ show_ip_addr dest @ ''/'' @ show_nat (unat prefix_len) @
       '' (table '' @ show_nat (unat table) @ ''): '' @ e)"

definition add_route_v4 ::
    "'k kernel \<Rightarrow> netlink_client \<Rightarrow> ipv4_addr \<Rightarrow> u8 \<Rightarrow> ipv6_addr \<Rightarrow> u32 \<Rightarrow> 'k \<Rightarrow> (error + unit) \<times> 'k" where
  "add_route_v4 K cl dest prefix_len gateway table k =
     (case k_add K \<lparr>rq_destination = AddrV4 dest, rq_prefix_length = prefix_len, rq_gateway = None,
             rq_interface = nl_link_index cl, rq_table = table, rq_protocol = METALBOND_RT_PROTO\<rparr> k of
        (None, k') \<Rightarrow> (Inr (), k')
      | (Some e, k') \<Rightarrow> (Inl (route_error ''Cannot add IPv4 route to '' (AddrV4 dest) prefix_len table e), k'))"

definition add_route_v6 ::
    "'k kernel \<Rightarrow> netlink_client \<Rightarrow> ipv6_addr \<Rightarrow> u8 \<Rightarrow> ipv6_addr \<Rightarrow> u32 \<Rightarrow> 'k \<Rightarrow> (error + unit) \<times> 'k" where
  "add_route_v6 K cl dest prefix_len gateway table k =
     (case k_add K \<lparr>rq_destination = AddrV6 dest, rq_prefix_length = prefix_len, rq_gateway = Some gateway,
             rq_interface = nl_link_index cl, rq_table = table, rq_protocol = METALBOND_RT_PROTO\<rparr> k of
        (None, k') \<Rightarrow> (Inr (), k')
      | (Some e, k') \<Rightarrow> (Inl (route_error ''Cannot add IPv6 route to '' (AddrV6 dest) prefix_len table e), k'))"

definition netlink_add_route ::
    "'k kernel \<Rightarrow> netlink_client \<Rightarrow> vni \<Rightarrow> destination \<Rightarrow> next_hop \<Rightarrow> 'k \<Rightarrow> (error + unit) \<times> 'k" where
  "netlink_add_route K cl vni dest next_hop k =
     (case table_for cl vni of
        Inl e \<Rightarrow> (Inl e, k)
      | Inr table \<Rightarrow>
          (case dest_prefix dest of
             NetV4 addr prefix_len \<Rightarrow> add_route_v4 K cl addr prefix_len (target_address next_hop) table k
           | NetV6 addr prefix_len \<Rightarrow> add_route_v6 K cl addr prefix_len (target_address next_hop) table k))"

definition matches_table :: "u32 \<Rightarrow> kernel_route \<Rightarrow> bool" where
  "matches_table table route \<longleftrightarrow>
     kr_table route = ucast table \<or> list_ex (\<lambda>attr. attr = AttrTable table) (kr_attributes route)"

definition matches_protocol :: "kernel_route \<Rightarrow> bool" where
  "matches_protocol route \<longleftrightarrow> kr_protocol route = METALBOND_RT_PROTO"

definition matches_dest :: "ip_addr \<Rightarrow> u8 \<Rightarrow> kernel_route \<Rightarrow> bool" where
  "matches_dest dest prefix_len route \<longleftrightarrow>
     list_ex (\<lambda>attr. attr = AttrDestination dest) (kr_attributes route) \<and> kr_prefix_length route = prefix_len"

text \<open>
  \<open>remove_route_v4\<close> and \<open>remove_route_v6\<close> are the same loop over the dump of their family;
  the family of \<open>dest\<close> says which one it is.
\<close>

fun remove_from_dump ::
    "'k kernel \<Rightarrow> ip_addr \<Rightarrow> u8 \<Rightarrow> u32 \<Rightarrow> (error + kernel_route) list \<Rightarrow> 'k \<Rightarrow> (error + unit) \<times> 'k" where
  "remove_from_dump K dest prefix_len table [] k = (Inr (), k)"
| "remove_from_dump K dest prefix_len table (Inl e # routes) k = (Inl e, k)"
| "remove_from_dump K dest prefix_len table (Inr route # routes) k =
     (if matches_table table route \<and> matches_protocol route \<and> matches_dest dest prefix_len route
      then (case k_del K route k of
              (None, k') \<Rightarrow> (Inr (), k')
            | (Some e, k') \<Rightarrow> (Inl (route_error ''Cannot remove route to '' dest prefix_len table e), k'))
      else remove_from_dump K dest prefix_len table routes k)"

definition netlink_remove_route ::
    "'k kernel \<Rightarrow> netlink_client \<Rightarrow> vni \<Rightarrow> destination \<Rightarrow> next_hop \<Rightarrow> 'k \<Rightarrow> (error + unit) \<times> 'k" where
  "netlink_remove_route K cl vni dest next_hop k =
     (case table_for cl vni of
        Inl e \<Rightarrow> (Inl e, k)
      | Inr table \<Rightarrow>
          (case dest_prefix dest of
             NetV4 addr prefix_len \<Rightarrow> remove_from_dump K (AddrV4 addr) prefix_len table (k_dump K k IpV4) k
           | NetV6 addr prefix_len \<Rightarrow> remove_from_dump K (AddrV6 addr) prefix_len table (k_dump K k IpV6) k))"

section \<open>Cleaning up\<close>

text \<open>The routes to delete, collected over the whole dump before the first is deleted.\<close>

fun collect_stale :: "u32 \<Rightarrow> (error + kernel_route) list \<Rightarrow> error + kernel_route list" where
  "collect_stale table [] = Inr []"
| "collect_stale table (Inl e # routes) = Inl e"
| "collect_stale table (Inr route # routes) =
     and_then (collect_stale table routes) (\<lambda>to_delete.
       Inr (if matches_table table route \<and> matches_protocol route then route # to_delete else to_delete))"

definition cleanup_routes_for_table :: "'k kernel \<Rightarrow> u32 \<Rightarrow> ip_version \<Rightarrow> 'k \<Rightarrow> (error + unit) \<times> 'k" where
  "cleanup_routes_for_table K table version k =
     (case collect_stale table (k_dump K k version) of
        Inl e \<Rightarrow> (Inl e, k)
      | Inr to_delete \<Rightarrow> (Inr (), fold (\<lambda>route k. snd (k_del K route k)) to_delete k))"

fun cleanup_tables :: "'k kernel \<Rightarrow> (vni \<times> u32) list \<Rightarrow> 'k \<Rightarrow> (error + unit) \<times> 'k" where
  "cleanup_tables K [] k = (Inr (), k)"
| "cleanup_tables K ((vni, table) # tables) k =
     (case cleanup_routes_for_table K table IpV4 k of
        (Inl e, k1) \<Rightarrow> (Inl e, k1)
      | (Inr _, k1) \<Rightarrow>
          (case cleanup_routes_for_table K table IpV6 k1 of
             (Inl e, k2) \<Rightarrow> (Inl e, k2)
           | (Inr _, k2) \<Rightarrow> cleanup_tables K tables k2))"

definition cleanup_stale_routes :: "'k kernel \<Rightarrow> netlink_client \<Rightarrow> 'k \<Rightarrow> (error + unit) \<times> 'k" where
  "cleanup_stale_routes K cl k = cleanup_tables K (vni_table_map (nl_config cl)) k"

section \<open>A kernel that works\<close>

text \<open>
  What the theorems assume: a dump shows exactly the routes of its family, without error,
  and deleting a route takes that route away and no other. \<open>routes\<close> is the kernel's set of
  routes by family.
\<close>

definition kernel_ok :: "'k kernel \<Rightarrow> ('k \<Rightarrow> ip_version \<Rightarrow> kernel_route set) \<Rightarrow> bool" where
  "kernel_ok K routes \<longleftrightarrow>
     (\<forall>k v. \<exists>rs. k_dump K k v = map Inr rs \<and> set rs = routes k v) \<and>
     (\<forall>k v r. r \<in> routes k v \<longrightarrow> fst (k_del K r k) = None) \<and>
     (\<forall>k v r. routes (snd (k_del K r k)) v = routes k v - {r})"

lemma remove_from_dump_outcome:
  "remove_from_dump K dest l table (map Inr rs) k =
     (case find (\<lambda>r. matches_table table r \<and> matches_protocol r \<and> matches_dest dest l r) rs of
        None \<Rightarrow> (Inr (), k)
      | Some r \<Rightarrow>
          (case k_del K r k of
             (None, k') \<Rightarrow> (Inr (), k')
           | (Some e, k') \<Rightarrow> (Inl (route_error ''Cannot remove route to '' dest l table e), k')))"
  by (induction rs) auto

lemma collect_stale_Inr:
  "collect_stale table (map Inr rs) = Inr (filter (\<lambda>r. matches_table table r \<and> matches_protocol r) rs)"
  by (induction rs) auto

lemma fold_del_routes:
  assumes "kernel_ok K routes"
  shows "routes (fold (\<lambda>r k. snd (k_del K r k)) rs k) v = routes k v - set rs"
  using assms by (induction rs arbitrary: k) (auto simp: kernel_ok_def)

lemma collect_dump:
  assumes "kernel_ok K routes"
  shows "\<exists>rs. collect_stale table (k_dump K k v) = Inr rs \<and>
    set rs = {r \<in> routes k v. matches_table table r \<and> matches_protocol r}"
proof -
  obtain rs where "k_dump K k v = map Inr rs" "set rs = routes k v" using assms by (meson kernel_ok_def)
  then show ?thesis by (auto simp: collect_stale_Inr)
qed

lemma cleanup_table_outcome:
  assumes "kernel_ok K routes"
  shows "\<exists>k'. cleanup_routes_for_table K table v k = (Inr (), k') \<and>
    (\<forall>w. routes k' w = routes k w - {r \<in> routes k v. matches_table table r \<and> matches_protocol r})"
proof -
  obtain rs where "collect_stale table (k_dump K k v) = Inr rs"
    "set rs = {r \<in> routes k v. matches_table table r \<and> matches_protocol r}"
    using collect_dump [OF assms] by blast
  then show ?thesis by (simp add: cleanup_routes_for_table_def fold_del_routes [OF assms])
qed

lemma cleanup_tables_outcome:
  assumes "kernel_ok K routes"
  shows "\<exists>k'. cleanup_tables K tables k = (Inr (), k') \<and>
    (\<forall>w. routes k' w = {r \<in> routes k w. \<not> (matches_protocol r \<and> (\<exists>table \<in> snd ` set tables. matches_table table r))})"
proof (induction tables arbitrary: k)
  case Nil
  then show ?case by simp
next
  case (Cons e tables)
  obtain v table where e: "e = (v, table)" by (cases e)
  obtain k1 where k1: "cleanup_routes_for_table K table IpV4 k = (Inr (), k1)"
    "\<And>w. routes k1 w = routes k w - {r \<in> routes k IpV4. matches_table table r \<and> matches_protocol r}"
    using cleanup_table_outcome [OF assms] by blast
  obtain k2 where k2: "cleanup_routes_for_table K table IpV6 k1 = (Inr (), k2)"
    "\<And>w. routes k2 w = routes k1 w - {r \<in> routes k1 IpV6. matches_table table r \<and> matches_protocol r}"
    using cleanup_table_outcome [OF assms] by blast
  have both: "routes k2 w = {r \<in> routes k w. \<not> (matches_protocol r \<and> matches_table table r)}" for w
    by (cases w) (auto simp: k1(2) k2(2))
  obtain k' where "cleanup_tables K tables k2 = (Inr (), k')"
    "\<And>w. routes k' w = {r \<in> routes k2 w. \<not> (matches_protocol r \<and> (\<exists>table \<in> snd ` set tables. matches_table table r))}"
    using Cons.IH by blast
  then show ?case by (auto simp: e k1(1) k2(1) both)
qed

section \<open>Properties\<close>

text \<open>A kernel for the examples: a list of routes for each family, and a route in its table 100.\<close>

definition list_kernel :: "(ip_version \<Rightarrow> kernel_route list) kernel" where
  "list_kernel = \<lparr>k_links = (\<lambda>k name. Inr (Some 7)), k_dump = (\<lambda>k v. map Inr (k v)),
     k_add = (\<lambda>rq k. (None, k)), k_del = (\<lambda>r k. (None, \<lambda>v. filter (\<lambda>r'. r' \<noteq> r) (k v)))\<rparr>"

lemma list_kernel_ok: "kernel_ok list_kernel (\<lambda>k v. set (k v))"
  by (auto simp: kernel_ok_def list_kernel_def)

definition kernel_route_100 :: kernel_route where
  "kernel_route_100 = \<lparr>kr_table = 100, kr_protocol = 254, kr_prefix_length = 24,
     kr_attributes = [AttrTable 100, AttrDestination (AddrV4 0x0A000100)]\<rparr>"





end
