(* ===== verification/Client_Program.thy ===== *)
theory Client_Program
  imports Announcements Client Netlink
begin

text \<open>
  The example client (\<open>src/examples/client.rs\<close>): its handlers, which print the calls and
  install routes into the kernel by tasks they spawn, the preparation of the kernel, and the
  run of the client as a state machine with a phase for each place where other tasks may move
  in between. The arguments come from the crate \<open>clap\<close>; with the feature \<open>netlink\<close>.
\<close>

section \<open>Arguments and output\<close>

record args =
  args_servers :: "string list"
  args_vni :: u32
  args_announcements :: "string list"
  args_install_routes :: "string list"
  args_tun :: string

record console =
  con_out :: "string list"
  con_err :: "string list"

definition println :: "string \<Rightarrow> 'a console_scheme \<Rightarrow> 'a console_scheme" where
  "println line w = w\<lparr>con_out := con_out w @ [line]\<rparr>"

definition eprintln :: "string \<Rightarrow> 'a console_scheme \<Rightarrow> 'a console_scheme" where
  "eprintln line w = w\<lparr>con_err := con_err w @ [line]\<rparr>"

definition newline :: "string \<Rightarrow> string" where
  "newline s = CHR 0x0A # s"

text \<open>\<open>VNI {}: {} via {} (type: {})\<close>, and its end.\<close>

definition hop_line :: "show_net \<Rightarrow> destination \<Rightarrow> next_hop \<Rightarrow> string" where
  "hop_line show_net destination next_hop =
     destination_display show_net destination @ '' via '' @ next_hop_display next_hop @
     '' (type: '' @ next_hop_type_display (hop_type next_hop) @ '')''"

definition route_line :: "show_net \<Rightarrow> vni \<Rightarrow> destination \<Rightarrow> next_hop \<Rightarrow> string" where
  "route_line show_net vni destination next_hop =
     ''VNI '' @ vni_display vni @ '': '' @ hop_line show_net destination next_hop"

section \<open>Handlers\<close>

definition print_handler :: "show_net \<Rightarrow> 'a console_scheme route_handler" where
  "print_handler show_net =
     \<lparr>rh_add_route = (\<lambda>vni route.
        println (''[+] '' @ route_line show_net vni (route_destination route) (route_next_hop route))),
      rh_remove_route = (\<lambda>vni route.
        println (''[-] '' @ route_line show_net vni (route_destination route) (route_next_hop route)))\<rparr>"

text \<open>The tasks spawned and not yet run, oldest first.\<close>

datatype kernel_task = InstallTask vni destination next_hop | UninstallTask vni destination next_hop

record 'k host = console +
  host_tasks :: "kernel_task list"
  host_kernel :: 'k

definition spawn :: "kernel_task \<Rightarrow> 'k host \<Rightarrow> 'k host" where
  "spawn task w = w\<lparr>host_tasks := host_tasks w @ [task]\<rparr>"

definition netlink_handler :: "show_net \<Rightarrow> 'k host route_handler" where
  "netlink_handler show_net =
     \<lparr>rh_add_route = (\<lambda>vni route w.
        spawn (InstallTask vni (route_destination route) (route_next_hop route))
          (println (''[+] '' @ route_line show_net vni (route_destination route) (route_next_hop route) @
             '' -> installing to kernel'') w)),
      rh_remove_route = (\<lambda>vni route w.
        spawn (UninstallTask vni (route_destination route) (route_next_hop route))
          (println (''[-] '' @ route_line show_net vni (route_destination route) (route_next_hop route) @
             '' -> removing from kernel'') w))\<rparr>"

text \<open>A spawned task, run as a whole, and the choice of the runtime which one to run.\<close>

fun run_spawned :: "'k kernel \<Rightarrow> netlink_client \<Rightarrow> (error \<Rightarrow> string) \<Rightarrow> kernel_task \<Rightarrow> 'k host \<Rightarrow> 'k host" where
  "run_spawned K cl source (InstallTask vni dest next_hop) w =
     (case netlink_add_route K cl vni dest next_hop (host_kernel w) of
        (Inr _, k) \<Rightarrow> w\<lparr>host_kernel := k\<rparr>
      | (Inl e, k) \<Rightarrow> eprintln (''Failed to install route: '' @ error_display source e) (w\<lparr>host_kernel := k\<rparr>))"
| "run_spawned K cl source (UninstallTask vni dest next_hop) w =
     (case netlink_remove_route K cl vni dest next_hop (host_kernel w) of
        (Inr _, k) \<Rightarrow> w\<lparr>host_kernel := k\<rparr>
      | (Inl e, k) \<Rightarrow> eprintln (''Failed to remove route: '' @ error_display source e) (w\<lparr>host_kernel := k\<rparr>))"

definition run_kernel_task :: "'k kernel \<Rightarrow> netlink_client \<Rightarrow> (error \<Rightarrow> string) \<Rightarrow> nat \<Rightarrow> 'k host \<Rightarrow> 'k host option" where
  "run_kernel_task K cl source n w =
     (if n < length (host_tasks w) then
        Some (run_spawned K cl source (host_tasks w ! n)
          (w\<lparr>host_tasks := take n (host_tasks w) @ drop (Suc n) (host_tasks w)\<rparr>))
      else None)"

section \<open>Preparation of the kernel\<close>

text \<open>The part of \<open>main\<close> that sets up netlink; an error ends the program.\<close>

definition setup_netlink ::
    "'k kernel \<Rightarrow> (error \<Rightarrow> string) \<Rightarrow> args \<Rightarrow> 'k host \<Rightarrow> (string + netlink_client option) \<times> 'k host" where
  "setup_netlink K source args w =
     (if args_install_routes args = [] then (Inr None, w)
      else
        case parse_vni_table_map [] (args_install_routes args) of
          Inl e \<Rightarrow> (Inl e, w)
        | Inr tables \<Rightarrow>
            let w1 = fold (\<lambda>(vni, table). println (''  VNI '' @ vni_display vni @ '' -> table '' @ show_nat (unat table)))
                  tables (println ''Initializing netlink with VNI->table mappings:'' w);
                config = \<lparr>vni_table_map = tables, link_name = args_tun args\<rparr>
            in case netlink_new K config (host_kernel w1) of
                 Inl e \<Rightarrow> (Inl (error_display source e), w1)
               | Inr client \<Rightarrow>
                   let w2 = println ''Cleaning up stale routes...'' w1
                   in case cleanup_stale_routes K client (host_kernel w2) of
                        (Inl e, k) \<Rightarrow> (Inl (error_display source e), w2\<lparr>host_kernel := k\<rparr>)
                      | (Inr _, k) \<Rightarrow> (Inr (Some client), w2\<lparr>host_kernel := k\<rparr>))"

section \<open>The run of the client\<close>

datatype phase =
    AtWait | AtState | AtSubscribe | AtAnnounce "string list" | AtSend announcement "string list"
  | AtList | AtCtrlC | AtShutdown | Returned "string + unit"

record 'w program =
  pg_client :: "'w client"
  pg_phase :: phase

text \<open>What a run depends on; \<open>set_run_task\<close> runs a task the handler spawned.\<close>

record 'w setting =
  set_externals :: externals
  set_handler :: "'w route_handler"
  set_show_net :: show_net
  set_parse_net :: parse_net
  set_source :: "error \<Rightarrow> string"
  set_run_task :: "nat \<Rightarrow> 'w \<Rightarrow> 'w option"

definition client_world :: "('w \<Rightarrow> 'w) \<Rightarrow> 'w client \<Rightarrow> 'w client" where
  "client_world f c = c\<lparr>cl_shared := (cl_shared c)\<lparr>cs_world := f (cs_world (cl_shared c))\<rparr>\<rparr>"

definition say :: "string list \<Rightarrow> 'a console_scheme client \<Rightarrow> 'a console_scheme client" where
  "say lines = client_world (fold println lines)"

definition connecting_lines :: "args \<Rightarrow> string list" where
  "connecting_lines args =
     (if length (args_servers args) = 1 then [''Connecting to MetalBond server at '' @ args_servers args ! 0]
      else (''Connecting to '' @ show_nat (length (args_servers args)) @ '' MetalBond servers:'') #
        map (\<lambda>server. ''  - '' @ server) (args_servers args))"

definition program_start :: "args \<Rightarrow> 'a console_scheme \<Rightarrow> 'a console_scheme program option" where
  "program_start args w =
     map_option (\<lambda>c. \<lparr>pg_client = say [newline ''Waiting for connection...''] c, pg_phase = AtWait\<rparr>)
       (client_connect (args_servers args) (fold println (connecting_lines args) w))"

definition state_lines :: "args \<Rightarrow> client_state \<Rightarrow> string list" where
  "state_lines args st =
     (case st of
        FullyConnected \<Rightarrow>
          if length (args_servers args) = 1 then [''Connected!'']
          else [''All '' @ show_nat (length (args_servers args)) @ '' servers connected!'']
      | PartiallyConnected connected all \<Rightarrow>
          [''Connected to '' @ show_nat connected @ ''/'' @ show_nat all @ '' servers (partial connectivity)'']
      | _ \<Rightarrow> [])"

definition listening_lines :: "args \<Rightarrow> string list" where
  "listening_lines args =
     (if 1 < length (args_servers args) then
        [newline ''Listening for route updates... (Ctrl+C to exit)'',
         ''(Routes are deduplicated - same route from multiple servers shown once)'' @ newline []]
      else [newline (''Listening for route updates... (Ctrl+C to exit)'' @ newline [])])"

definition observed_states :: "'w client \<Rightarrow> connection_state list" where
  "observed_states c = map snd (server_states c)"

text \<open>The question mark after a call of the client.\<close>

fun question_mark :: "(error \<Rightarrow> string) \<Rightarrow> error + unit \<Rightarrow> phase \<Rightarrow> phase" where
  "question_mark source (Inl e) next_phase = Returned (Inl (error_display source e))"
| "question_mark source (Inr _) next_phase = next_phase"

text \<open>One piece of \<open>run_client\<close>, from one phase to the next; \<open>None\<close> while it has to wait.\<close>

fun proceed :: "'a console_scheme setting \<Rightarrow> args \<Rightarrow> phase \<Rightarrow> 'a console_scheme client \<Rightarrow> 'a console_scheme program option" where
  "proceed S args AtWait c =
     map_option (\<lambda>result. \<lparr>pg_client = c, pg_phase = question_mark (set_source S) result AtState\<rparr>)
       (wait_any_established (observed_states c) [])"
| "proceed S args AtState c =
     Some \<lparr>pg_client = say (state_lines args (client_state_of c) @
                [newline (''Subscribing to VNI '' @ show_nat (unat (args_vni args)) @ ''...'')]) c,
           pg_phase = AtSubscribe\<rparr>"
| "proceed S args AtSubscribe c =
     (case client_subscribe (Vni (args_vni args)) c of
        (Inl e, c') \<Rightarrow> Some \<lparr>pg_client = c', pg_phase = Returned (Inl (error_display (set_source S) e))\<rparr>
      | (Inr _, c') \<Rightarrow> Some \<lparr>pg_client = say [''Subscribed!''] c', pg_phase = AtAnnounce (args_announcements args)\<rparr>)"
| "proceed S args (AtAnnounce []) c =
     Some \<lparr>pg_client = say [newline (''Current routes for VNI '' @ show_nat (unat (args_vni args)) @ '':'')] c,
           pg_phase = AtList\<rparr>"
| "proceed S args (AtAnnounce (announcement # announcements)) c =
     (case parse_announcement (set_parse_net S) announcement of
        Inl e \<Rightarrow>
          Some \<lparr>pg_client = client_world (eprintln (''Error parsing announcement '' @ quoted announcement @ '': '' @ e)) c,
                pg_phase = AtAnnounce announcements\<rparr>
      | Inr (vni, destination, next_hop) \<Rightarrow>
          Some \<lparr>pg_client = snd (client_subscribe vni
                  (say [''Announcing on '' @ route_line (set_show_net S) vni destination next_hop] c)),
                pg_phase = AtSend (vni, destination, next_hop) announcements\<rparr>)"
| "proceed S args (AtSend (vni, destination, next_hop) announcements) c =
     (case client_announce vni destination next_hop c of
        (result, c') \<Rightarrow>
          Some \<lparr>pg_client = c', pg_phase = question_mark (set_source S) result (AtAnnounce announcements)\<rparr>)"
| "proceed S args AtList c =
     Some \<lparr>pg_client = say (map (\<lambda>route. ''  '' @ hop_line (set_show_net S) (route_destination route) (route_next_hop route))
                  (get_received_routes (Vni (args_vni args)) c) @ listening_lines args) c,
           pg_phase = AtCtrlC\<rparr>"
| "proceed S args AtCtrlC c = None"
| "proceed S args AtShutdown c = Some \<lparr>pg_client = client_shutdown c, pg_phase = Returned (Inr ())\<rparr>"
| "proceed S args (Returned result) c = None"

text \<open>
  What may happen: the run proceeds, its wait of ten seconds is over, the signal (or an error
  of waiting for it) arrives, a task of the client or one the handler spawned moves.
\<close>

datatype program_event = Proceed | TimeUp | CtrlC "string option" | TaskMoves server_id peer_event | SpawnedRuns nat

fun program_step :: "'a console_scheme setting \<Rightarrow> args \<Rightarrow> program_event \<Rightarrow> 'a console_scheme program \<Rightarrow>
    'a console_scheme program option" where
  "program_step S args Proceed p = proceed S args (pg_phase p) (pg_client p)"
| "program_step S args TimeUp p =
     (if pg_phase p = AtWait then
        Some (p\<lparr>pg_phase := question_mark (set_source S)
          (wait_established_timeout (observed_states (pg_client p)) []) AtState\<rparr>)
      else None)"
| "program_step S args (CtrlC failed) p =
     (if pg_phase p = AtCtrlC then
        (case failed of
           None \<Rightarrow> Some \<lparr>pg_client = say [newline ''Shutting down...''] (pg_client p), pg_phase = AtShutdown\<rparr>
         | Some e \<Rightarrow> Some (p\<lparr>pg_phase := Returned (Inl e)\<rparr>))
      else None)"
| "program_step S args (TaskMoves s ev) p =
     map_option (\<lambda>c. p\<lparr>pg_client := c\<rparr>) (client_peer_step (set_externals S) (set_handler S) s ev (pg_client p))"
| "program_step S args (SpawnedRuns n) p =
     map_option (\<lambda>w. p\<lparr>pg_client := client_world (\<lambda>_. w) (pg_client p)\<rparr>)
       (set_run_task S n (cs_world (cl_shared (pg_client p))))"

fun program_run :: "'a console_scheme setting \<Rightarrow> args \<Rightarrow> program_event list \<Rightarrow> 'a console_scheme program \<Rightarrow>
    'a console_scheme program option" where
  "program_run S args [] p = Some p"
| "program_run S args (e # es) p = Option.bind (program_step S args e p) (program_run S args es)"

section \<open>The whole program\<close>

text \<open>
  \<open>main\<close> after the arguments are parsed: with mappings of VNIs to tables the client runs with
  the handler that installs routes, otherwise with the one that prints them. \<open>Inl\<close> is the error
  \<open>main\<close> returns.
\<close>

definition host_setting ::
    "externals \<Rightarrow> show_net \<Rightarrow> parse_net \<Rightarrow> (error \<Rightarrow> string) \<Rightarrow> 'k kernel \<Rightarrow> netlink_client option \<Rightarrow> 'k host setting" where
  "host_setting x show_net parse_net source K netlink =
     \<lparr>set_externals = x,
      set_handler = (case netlink of Some _ \<Rightarrow> netlink_handler show_net | None \<Rightarrow> print_handler show_net),
      set_show_net = show_net, set_parse_net = parse_net, set_source = source,
      set_run_task = (case netlink of Some cl \<Rightarrow> run_kernel_task K cl source | None \<Rightarrow> (\<lambda>_ _. None))\<rparr>"

definition client_main ::
    "externals \<Rightarrow> show_net \<Rightarrow> parse_net \<Rightarrow> (error \<Rightarrow> string) \<Rightarrow> 'k kernel \<Rightarrow> args \<Rightarrow> 'k host \<Rightarrow>
     string + 'k host setting \<times> 'k host program option" where
  "client_main x show_net parse_net source K args w =
     (case setup_netlink K source args w of
        (Inl e, _) \<Rightarrow> Inl e
      | (Inr netlink, w') \<Rightarrow> Inr (host_setting x show_net parse_net source K netlink, program_start args w'))"

end
