(* ===== verification/Program_Properties.thy ===== *)
theory Program_Properties
  imports Client_Program Client_Properties
begin

text \<open>
  The properties of the example client: what its run has announced and subscribed to when it
  listens for updates, and what the tasks that install routes do to the kernel.
\<close>

section \<open>The announcements of a run\<close>

text \<open>The announcements among the arguments that parse.\<close>

definition parsed :: "parse_net \<Rightarrow> string list \<Rightarrow> announcement list" where
  "parsed parse_net ss = concat (map (\<lambda>s. case parse_announcement parse_net s of Inl _ \<Rightarrow> [] | Inr a \<Rightarrow> [a]) ss)"

lemma parsed_simps [simp]:
  "parsed parse_net [] = []"
  "parsed parse_net (s # ss) =
     (case parse_announcement parse_net s of Inl _ \<Rightarrow> [] | Inr a \<Rightarrow> [a]) @ parsed parse_net ss"
  "parsed parse_net (ss @ ts) = parsed parse_net ss @ parsed parse_net ts"
  by (simp_all add: parsed_def)

text \<open>A client that has announced exactly \<open>as\<close>, each once, and subscribed to exactly \<open>vs\<close>.\<close>

definition has_said :: "vni set \<Rightarrow> announcement list \<Rightarrow> 'w client \<Rightarrow> bool" where
  "has_said vs as c \<longleftrightarrow> rt_wf (cl_announced c) \<and> rt_abs (cl_announced c) = set as \<and> distinct as \<and>
     set (cl_subscriptions c) = vs"

definition program_inv :: "'a console_scheme setting \<Rightarrow> args \<Rightarrow> 'a console_scheme program \<Rightarrow> bool" where
  "program_inv S args p \<longleftrightarrow>
     (let said = (\<lambda>as bs. has_said (insert (Vni (args_vni args)) (fst ` set (as @ bs))) as (pg_client p));
          all = parsed (set_parse_net S) (args_announcements args)
      in case pg_phase p of
           AtWait \<Rightarrow> has_said {} [] (pg_client p)
         | AtState \<Rightarrow> has_said {} [] (pg_client p)
         | AtSubscribe \<Rightarrow> has_said {} [] (pg_client p)
         | AtAnnounce rest \<Rightarrow>
             (\<exists>pre. args_announcements args = pre @ rest \<and> said (parsed (set_parse_net S) pre) [])
         | AtSend a rest \<Rightarrow>
             (\<exists>pre s. args_announcements args = pre @ s # rest \<and> parse_announcement (set_parse_net S) s = Inr a \<and>
                said (parsed (set_parse_net S) pre) [a])
         | Returned (Inl e) \<Rightarrow> True
         | _ \<Rightarrow> said all [])"

lemma has_said_world [simp]: "has_said vs as (client_world f c) = has_said vs as c"
  by (simp add: has_said_def client_world_def)

lemma has_said_say [simp]: "has_said vs as (say lines c) = has_said vs as c"
  by (simp add: say_def)

lemma has_said_peer_step:
  assumes "client_peer_step x h s ev c = Some c'"
  shows "has_said vs as c' = has_said vs as c"
proof -
  obtain ps sh where "c' = c\<lparr>cl_peers := ps, cl_shared := sh\<rparr>"
    using assms by (auto simp: client_peer_step_def split: bind_splits if_splits)
  then show ?thesis by (simp add: has_said_def)
qed

lemma has_said_subscribe:
  "has_said vs as c \<Longrightarrow> has_said (insert v vs) as (snd (client_subscribe v c))"
  by (auto simp: has_said_def client_subscribe_def Let_def split: prod.splits)

lemma has_said_announce:
  assumes "has_said vs as c" and "client_announce v d h c = (Inr (), c')"
  shows "has_said vs (as @ [(v, d, h)]) c'"
proof -
  have wf: "rt_wf (cl_announced c)" using assms(1) by (simp add: has_said_def)
  have "cl_subscriptions c' = cl_subscriptions c"
    using assms(2) by (auto simp: client_announce_def Let_def split: prod.splits if_splits)
  moreover have "(v, d, h) \<notin> rt_abs (cl_announced c)"
    "rt_abs (cl_announced c') = insert (v, d, h) (rt_abs (cl_announced c))" "rt_wf (cl_announced c')"
    using announce_contract [OF wf assms(2)] by blast+
  ultimately show ?thesis using assms(1) by (auto simp: has_said_def simp del: rt_abs_iff)
qed

lemma has_said_shutdown [simp]: "has_said vs as (client_shutdown c) = has_said vs as c"
  by (simp add: has_said_def client_shutdown_def)

lemma client_connect_said: "client_connect servers w = Some c \<Longrightarrow> has_said {} [] c"
  by (auto simp: client_connect_def has_said_def Let_def split: if_splits)

lemma program_start_inv: "program_start args w = Some p \<Longrightarrow> program_inv S args p"
  by (auto simp: program_start_def program_inv_def client_connect_said)

lemma proceed_inv:
  assumes "program_inv S args \<lparr>pg_client = c, pg_phase = ph\<rparr>" and "proceed S args ph c = Some p"
  shows "program_inv S args p"
  using assms(2)
proof (cases "(S, args, ph, c)" rule: proceed.cases)
  case (1 S args c)
  then obtain result where "p = \<lparr>pg_client = c, pg_phase = question_mark (set_source S) result AtState\<rparr>"
    using assms(2) by auto
  with 1 assms(1) show ?thesis by (cases result) (simp_all add: program_inv_def)
next
  case (3 S args c)
  obtain result c' where call: "client_subscribe (Vni (args_vni args)) c = (result, c')" by fastforce
  have "has_said {Vni (args_vni args)} [] c'"
    using has_said_subscribe [of "{}" "[]" c "Vni (args_vni args)"] 3 assms(1) call by (simp add: program_inv_def)
  with 3 assms(2) call show ?thesis by (cases result) (auto simp: program_inv_def)
next
  case (4 S args c)
  then show ?thesis using assms by (auto simp: program_inv_def)
next
  case (5 S args s rest c)
  then obtain pre where pre: "args_announcements args = pre @ s # rest"
    "has_said (insert (Vni (args_vni args)) (fst ` set (parsed (set_parse_net S) pre))) (parsed (set_parse_net S) pre) c"
    using assms(1) by (auto simp: program_inv_def)
  show ?thesis
  proof (cases "parse_announcement (set_parse_net S) s")
    case (Inl e)
    then have "p = \<lparr>pg_client = client_world (eprintln (''Error parsing announcement '' @ quoted s @ '': '' @ e)) c,
        pg_phase = AtAnnounce rest\<rparr>"
      using assms(2) 5 by simp
    with pre Inl 5 show ?thesis by (auto simp: program_inv_def intro!: exI [of _ "pre @ [s]"])
  next
    case (Inr a)
    then obtain v d h where a: "a = (v, d, h)" by (cases a)
    let ?c = "say [''Announcing on '' @ route_line (set_show_net S) v d h] c"
    have p: "p = \<lparr>pg_client = snd (client_subscribe v ?c), pg_phase = AtSend (v, d, h) rest\<rparr>"
      using assms(2) 5 Inr by (simp add: a)
    have "has_said (insert v (insert (Vni (args_vni args)) (fst ` set (parsed (set_parse_net S) pre))))
        (parsed (set_parse_net S) pre) (snd (client_subscribe v ?c))"
      by (rule has_said_subscribe) (simp add: pre(2))
    with pre(1) Inr 5 show ?thesis
      by (auto simp: program_inv_def p a insert_commute intro!: exI [of _ "pre"])
  qed
next
  case (6 S args v d h rest c)
  then obtain pre s where pre: "args_announcements args = pre @ s # rest"
    "parse_announcement (set_parse_net S) s = Inr (v, d, h)"
    "has_said (insert (Vni (args_vni args)) (fst ` set (parsed (set_parse_net S) pre @ [(v, d, h)])))
       (parsed (set_parse_net S) pre) c"
    using assms(1) by (auto simp: program_inv_def)
  obtain result c' where call: "client_announce v d h c = (result, c')" by fastforce
  show ?thesis
  proof (cases result)
    case (Inl e)
    then show ?thesis using assms(2) 6 call by (auto simp: program_inv_def)
  next
    case (Inr u)
    then have p: "p = \<lparr>pg_client = c', pg_phase = AtAnnounce rest\<rparr>" using assms(2) 6 call by simp
    have "has_said (insert (Vni (args_vni args)) (fst ` set (parsed (set_parse_net S) (pre @ [s]))))
        (parsed (set_parse_net S) (pre @ [s])) c'"
      using has_said_announce [OF pre(3)] call Inr by (simp add: pre(2))
    with pre(1) 6 show ?thesis
      by (auto simp: program_inv_def p simp del: parsed_simps intro!: exI [of _ "pre @ [s]"])
  qed
qed (use assms in \<open>auto simp: program_inv_def Let_def\<close>)

lemma program_step_inv:
  assumes "program_inv S args p" and "program_step S args e p = Some p'"
  shows "program_inv S args p'"
proof (cases e)
  case Proceed
  with assms show ?thesis using proceed_inv [of S args "pg_client p" "pg_phase p" p'] by (cases p) simp
next
  case TimeUp
  then have "p' = p\<lparr>pg_phase := question_mark (set_source S)
      (wait_established_timeout (observed_states (pg_client p)) []) AtState\<rparr>" "pg_phase p = AtWait"
    using assms(2) by (auto split: if_splits)
  with assms(1) show ?thesis
    by (cases "wait_established_timeout (observed_states (pg_client p)) []") (simp_all add: program_inv_def)
next
  case (CtrlC failed)
  with assms show ?thesis by (auto simp: program_inv_def Let_def split: if_splits option.splits)
next
  case (TaskMoves s ev)
  then obtain c where c: "client_peer_step (set_externals S) (set_handler S) s ev (pg_client p) = Some c"
    "p' = p\<lparr>pg_client := c\<rparr>"
    using assms(2) by auto
  with assms(1) show ?thesis
    by (simp add: program_inv_def has_said_peer_step [OF c(1)] Let_def cong: phase.case_cong sum.case_cong)
next
  case (SpawnedRuns n)
  then obtain w where "p' = p\<lparr>pg_client := client_world (\<lambda>_. w) (pg_client p)\<rparr>" using assms(2) by auto
  with assms(1) show ?thesis by (simp add: program_inv_def Let_def cong: phase.case_cong sum.case_cong)
qed

lemma program_run_inv:
  "program_inv S args p \<Longrightarrow> program_run S args es p = Some p' \<Longrightarrow> program_inv S args p'"
proof (induction es arbitrary: p)
  case (Cons e es)
  then obtain q where "program_step S args e p = Some q" "program_run S args es q = Some p'"
    by (auto split: bind_splits)
  with Cons.IH Cons.prems(1) program_step_inv show ?case by blast
qed simp

section \<open>The run gets to the end\<close>

lemma program_run_append:
  "program_run S args (es @ fs) p = Option.bind (program_run S args es p) (program_run S args fs)"
proof (induction es arbitrary: p)
  case (Cons e es)
  then show ?case by (cases "program_step S args e p") simp_all
qed simp

lemma program_run_then: "program_run S args es p = Some q \<Longrightarrow> program_run S args (es @ fs) p = program_run S args fs q"
  by (simp add: program_run_append)

text \<open>A run of the client in which only the tasks move is a run of the program.\<close>

lemma program_client_run:
  "client_run (set_externals S) (set_handler S) (map (PeerEvent s) es) c = Some c' \<Longrightarrow>
     program_run S args (map (TaskMoves s) es) \<lparr>pg_client = c, pg_phase = ph\<rparr> = Some \<lparr>pg_client = c', pg_phase = ph\<rparr>"
  by (induction es arbitrary: c) (auto split: bind_splits)

text \<open>A client with a server that is connected and whose task is alive.\<close>

definition ready :: "server_id \<Rightarrow> 'w client \<Rightarrow> bool" where
  "ready s c \<longleftrightarrow> (\<exists>pr. hm_get (cl_peers c) s = Some pr \<and> get_state pr = Established \<and> live pr)"

lemma ready_same_tasks:
  "map_option pc_task (hm_get ps s) = map_option pc_task (hm_get (cl_peers c) s) \<Longrightarrow>
     cl_peers c' = ps \<Longrightarrow> ready s c' = ready s c"
  by (cases "hm_get ps s"; cases "hm_get (cl_peers c) s") (auto simp: ready_def get_state_def live_def)

lemma ready_world [simp]: "ready s (client_world f c) = ready s c"
  by (simp add: ready_def client_world_def)

lemma ready_say [simp]: "ready s (say lines c) = ready s c"
  by (simp add: say_def)

lemma ready_subscribe [simp]: "ready s (snd (client_subscribe v c)) = ready s c"
  by (rule ready_same_tasks [OF send_peers_get [of "\<lambda>st. st = Established" "PeerSubscribe v"]])
    (auto simp: client_subscribe_def Let_def split: prod.split)

lemma ready_announce: "ready s c \<Longrightarrow> ready s (snd (client_announce v d h c))"
proof -
  assume "ready s c"
  moreover have "ready s (snd (client_announce v d h c)) = ready s c" if "\<not> next_hop_exists v d h (cl_announced c)"
    by (rule ready_same_tasks [OF send_peers_get [of "\<lambda>st. st = Established" "PeerSendUpdate (MsgUpdate Add v d h)"]])
      (use that in \<open>auto simp: client_announce_def Let_def split: prod.split\<close>)
  ultimately show ?thesis by (cases "next_hop_exists v d h (cl_announced c)") (auto simp: client_announce_def)
qed

lemma ready_sends: "ready s c \<Longrightarrow> fst (send_peers (\<lambda>st. st = Established) cmd (cl_peers c))"
  by (auto simp: ready_def send_peers_outcome takes_def dest!: hm_get_Some_in)

lemma ready_observed: "ready s c \<Longrightarrow> wait_any_established (observed_states c) [] = Some (Inr ())"
  by (subst wait_any_established.simps)
    (force simp: ready_def observed_states_def server_states_def dest!: hm_get_Some_in)

lemma ready_subscribes: "ready s c \<Longrightarrow> fst (client_subscribe v c) = Inr ()"
  using ready_sends [of s c "PeerSubscribe v"] by (auto simp: client_subscribe_def Let_def split: prod.split)

lemma ready_announces:
  "ready s c \<Longrightarrow> (v, d, h) \<notin> rt_abs (cl_announced c) \<Longrightarrow> fst (client_announce v d h c) = Inr ()"
  using ready_sends [of s c "PeerSendUpdate (MsgUpdate Add v d h)"] by (auto simp: client_announce_def Let_def split: prod.split)

lemma run_announces:
  assumes "ready s c" and "program_inv S args \<lparr>pg_client = c, pg_phase = AtAnnounce rest\<rparr>"
    and "distinct (parsed (set_parse_net S) (args_announcements args))"
  shows "\<exists>es p. program_run S args es \<lparr>pg_client = c, pg_phase = AtAnnounce rest\<rparr> = Some p \<and> pg_phase p = AtCtrlC"
  using assms(1,2)
proof (induction rest arbitrary: c)
  case Nil
  show ?case by (rule exI [of _ "[Proceed, Proceed]"]) simp
next
  case (Cons t rest)
  have step: "\<exists>es p. program_run S args es \<lparr>pg_client = c, pg_phase = AtAnnounce (t # rest)\<rparr> = Some p \<and> pg_phase p = AtCtrlC"
    if run: "program_run S args es \<lparr>pg_client = c, pg_phase = AtAnnounce (t # rest)\<rparr> = Some \<lparr>pg_client = c', pg_phase = AtAnnounce rest\<rparr>"
      and "ready s c'" for es c'
  proof -
    obtain fs p where "program_run S args fs \<lparr>pg_client = c', pg_phase = AtAnnounce rest\<rparr> = Some p" "pg_phase p = AtCtrlC"
      using Cons.IH [OF \<open>ready s c'\<close>] program_run_inv [OF Cons.prems(2) run] by blast
    with run show ?thesis by (intro exI [of _ "es @ fs"] exI [of _ p]) (simp add: program_run_append)
  qed
  show ?case
  proof (cases "parse_announcement (set_parse_net S) t")
    case (Inl e)
    then show ?thesis
      by (intro step [of "[Proceed]" "client_world (eprintln (''Error parsing announcement '' @ quoted t @ '': '' @ e)) c"])
        (simp_all add: Cons.prems(1))
  next
    case (Inr a)
    obtain v d h where a: "a = (v, d, h)" by (cases a)
    define c1 where "c1 = snd (client_subscribe v (say [''Announcing on '' @ route_line (set_show_net S) v d h] c))"
    have one: "program_run S args [Proceed] \<lparr>pg_client = c, pg_phase = AtAnnounce (t # rest)\<rparr> =
        Some \<lparr>pg_client = c1, pg_phase = AtSend (v, d, h) rest\<rparr>"
      by (simp add: Inr a c1_def)
    have ready1: "ready s c1" by (simp add: c1_def Cons.prems(1))
    obtain pre u where "args_announcements args = pre @ u # rest" "parse_announcement (set_parse_net S) u = Inr (v, d, h)"
      "rt_abs (cl_announced c1) = set (parsed (set_parse_net S) pre)"
      using program_run_inv [OF Cons.prems(2) one] by (auto simp: program_inv_def has_said_def simp del: rt_abs_iff)
    then have "(v, d, h) \<notin> rt_abs (cl_announced c1)" using assms(3) by (simp del: rt_abs_iff)
    from ready_announces [OF ready1 this]
    have two: "program_run S args [Proceed] \<lparr>pg_client = c1, pg_phase = AtSend (v, d, h) rest\<rparr> =
        Some \<lparr>pg_client = snd (client_announce v d h c1), pg_phase = AtAnnounce rest\<rparr>"
      by (cases "client_announce v d h c1") simp
    have "program_run S args ([Proceed] @ [Proceed]) \<lparr>pg_client = c, pg_phase = AtAnnounce (t # rest)\<rparr> =
        Some \<lparr>pg_client = snd (client_announce v d h c1), pg_phase = AtAnnounce rest\<rparr>"
      unfolding program_run_append one using two by simp
    then show ?thesis by (rule step) (rule ready_announce [OF ready1])
  qed
qed

lemma run_connects:
  assumes "program_start args w = Some p0" and "externals_ok (set_externals S)"
  shows "\<exists>es c. program_run S args es p0 = Some \<lparr>pg_client = c, pg_phase = AtWait\<rparr> \<and> ready (ServerId 0) c"
proof -
  let ?x = "set_externals S" and ?h = "dedup_handler (set_handler S) (ServerId 0)"
  obtain c where c: "p0 = \<lparr>pg_client = c, pg_phase = AtWait\<rparr>" "cl_announced c = rt_new"
    and sh: "hm_get (cl_peers c) (ServerId 0) = Some \<lparr>pc_task = peer_new
      \<lparr>cs_origins = [], cs_world = fold println (connecting_lines args) w\<rparr>, pc_queue = []\<rparr>"
    using assms(1) by (auto simp: program_start_def client_connect_def say_def client_world_def Let_def hm_get_def
        upt_conv_Cons split: if_splits)
  define t where "t = (peer_new \<lparr>cs_origins = [], cs_world = fold println (connecting_lines args) w\<rparr>)\<lparr>pt_world := cl_shared c\<rparr>"
  have phase: "pt_phase t = AtConnect" by (simp add: t_def peer_new_def)
  define es where "es = [ConnectOk (length (handshake_messages t rt_new)), HelloRead (Inr (wire_bytes ?x [MsgHello 5 True])),
    KeepaliveRead (Some (Inr (wire_bytes ?x [MsgKeepalive]))) rt_new 0]"
  have run: "peer_run ?x ?h es t = Some (established ?x 5 rt_new (length (handshake_messages t rt_new)) 0 t)"
    unfolding es_def by (rule externals_ok.handshake_run [OF assms(2) phase externals_ok.receive_hello_bytes [OF assms(2)]
      externals_ok.receive_keepalive_bytes [OF assms(2)] le_refl])
  have es: "list_all (undisturbed rt_new) es" by (simp add: es_def undisturbed_def)
  have run': "peer_run ?x ?h es ((pc_task \<lparr>pc_task = peer_new
      \<lparr>cs_origins = [], cs_world = fold println (connecting_lines args) w\<rparr>, pc_queue = []\<rparr>)\<lparr>pt_world := cl_shared c\<rparr>) =
    Some (established ?x 5 rt_new (length (handshake_messages t rt_new)) 0 t)"
    using run by (simp add: t_def)
  have quiet: "list_all (undisturbed (cl_announced c)) es" by (simp add: es c(2))
  obtain c' pr' where "program_run S args (map (TaskMoves (ServerId 0)) es) p0 = Some \<lparr>pg_client = c', pg_phase = AtWait\<rparr>"
    "hm_get (cl_peers c') (ServerId 0) = Some pr'"
    "(pc_task pr')\<lparr>pt_world := cl_shared c'\<rparr> = established ?x 5 rt_new (length (handshake_messages t rt_new)) 0 t"
    using client_task_run [OF run' sh quiet] program_client_run c(1) by blast
  moreover have "get_state pr' = Established \<and> live pr'"
    using arg_cong [where f = pt_state, OF calculation(3)] arg_cong [where f = pt_phase, OF calculation(3)]
    by (simp add: established_def get_state_def live_def)
  ultimately show ?thesis by (auto simp: ready_def)
qed

lemma run_listens:
  assumes "program_start args w = Some p0" and "externals_ok (set_externals S)"
    and "distinct (parsed (set_parse_net S) (args_announcements args))"
  shows "\<exists>es p. program_run S args es p0 = Some p \<and> pg_phase p = AtCtrlC"
proof -
  obtain es c where wait: "program_run S args es p0 = Some \<lparr>pg_client = c, pg_phase = AtWait\<rparr>" "ready (ServerId 0) c"
    using run_connects [OF assms(1,2)] by blast
  define c1 where "c1 = say (state_lines args (client_state_of c) @
    [newline (''Subscribing to VNI '' @ show_nat (unat (args_vni args)) @ ''...'')]) c"
  define c2 where "c2 = say [''Subscribed!''] (snd (client_subscribe (Vni (args_vni args)) c1))"
  have ready: "ready (ServerId 0) c1" "ready (ServerId 0) c2" using wait(2) by (simp_all add: c1_def c2_def)
  have "program_run S args [Proceed, Proceed] \<lparr>pg_client = c, pg_phase = AtWait\<rparr> =
      Some \<lparr>pg_client = c1, pg_phase = AtSubscribe\<rparr>"
    using ready_observed [OF wait(2)] by (simp add: c1_def)
  moreover have "program_run S args [Proceed] \<lparr>pg_client = c1, pg_phase = AtSubscribe\<rparr> =
      Some \<lparr>pg_client = c2, pg_phase = AtAnnounce (args_announcements args)\<rparr>"
    using ready_subscribes [OF ready(1), of "Vni (args_vni args)"] by (cases "client_subscribe (Vni (args_vni args)) c1") (simp add: c2_def)
  ultimately have run: "program_run S args (es @ [Proceed, Proceed] @ [Proceed]) p0 =
      Some \<lparr>pg_client = c2, pg_phase = AtAnnounce (args_announcements args)\<rparr>"
    by (simp only: program_run_then [OF wait(1)] program_run_then)
  obtain fs p where "program_run S args fs \<lparr>pg_client = c2, pg_phase = AtAnnounce (args_announcements args)\<rparr> = Some p"
    and p: "pg_phase p = AtCtrlC"
    using run_announces [OF ready(2) program_run_inv [OF program_start_inv [OF assms(1)] run] assms(3)] by blast
  with run have whole: "program_run S args ((es @ [Proceed, Proceed] @ [Proceed]) @ fs) p0 = Some p"
    by (simp only: program_run_then [OF run])
  with whole p show ?thesis by blast
qed

section \<open>Properties\<close>

definition example_setting :: "console setting" where
  "example_setting = \<lparr>set_externals = reference_externals, set_handler = print_handler documented_show_net,
     set_show_net = documented_show_net, set_parse_net = documented_parse_net, set_source = (\<lambda>_. []),
     set_run_task = (\<lambda>_ _. None)\<rparr>"

definition example_args :: args where
  "example_args = \<lparr>args_servers = [''[::1]:4711''], args_vni = 200,
     args_announcements = [announcement_text documented_show_net (vni100, net24, hop1)], args_install_routes = [],
     args_tun = ''ip6tnl0''\<rparr>"

lemma example_parsed: "parsed (set_parse_net example_setting) (args_announcements example_args) = [(vni100, net24, hop1)]"
  by (simp add: example_setting_def example_args_def documented_text.announcement_parse announceable_def next_hop_standard_def)

lemma example_start: "\<exists>p. program_start example_args \<lparr>con_out = [], con_err = []\<rparr> = Some p"
  by (simp add: program_start_def client_connect_def example_args_def Let_def)



text \<open>C24: the example client can always get to the point where it listens for updates: whatever servers it was given,
  when its parseable announcements are all different, there is a run, in which the first server
  answers, that ends there, with every announcement made.\<close>

theorem program_reaches_listening:
  assumes "program_start args w = Some p0" and "externals_ok (set_externals S)"
    and "distinct (parsed (set_parse_net S) (args_announcements args))"
  shows "\<exists>es p. program_run S args es p0 = Some p \<and> pg_phase p = AtCtrlC \<and>
    rt_abs (cl_announced (pg_client p)) = set (parsed (set_parse_net S) (args_announcements args))"
proof -
  obtain es p where run: "program_run S args es p0 = Some p" "pg_phase p = AtCtrlC"
    using run_listens [OF assms] by blast
  have "program_inv S args p" by (rule program_run_inv [OF program_start_inv [OF assms(1)] run(1)])
  with run show ?thesis by (auto simp: program_inv_def has_said_def simp del: rt_abs_iff)
qed

theorem program_reaches_listening_witness:
  "\<exists>es p0 p. program_start example_args \<lparr>con_out = [], con_err = []\<rparr> = Some p0 \<and>
     program_run example_setting example_args es p0 = Some p \<and> pg_phase p = AtCtrlC"
proof -
  obtain p0 where start: "program_start example_args \<lparr>con_out = [], con_err = []\<rparr> = Some p0"
    using example_start by blast
  show ?thesis
    using program_reaches_listening [OF start, of example_setting] start reference.externals_ok_axioms example_parsed
    by (auto simp: example_setting_def)
qed

section \<open>Installing by spawned tasks\<close>

text \<open>
  What is assumed of a kernel that installs: when no route of the table that is marked and for
  the same prefix is there, one is added and nothing else changes. (A prefix of length 0 has no
  destination attribute.)
\<close>

definition installed_route :: "ip_addr \<Rightarrow> u8 \<Rightarrow> u32 \<Rightarrow> kernel_route \<Rightarrow> bool" where
  "installed_route dest prefix_len table r \<longleftrightarrow>
     matches_table table r \<and> matches_protocol r \<and> matches_dest dest prefix_len r"

fun addr_version :: "ip_addr \<Rightarrow> ip_version" where
  "addr_version (AddrV4 a) = IpV4"
| "addr_version (AddrV6 a) = IpV6"

definition kernel_installs :: "'k kernel \<Rightarrow> ('k \<Rightarrow> ip_version \<Rightarrow> kernel_route set) \<Rightarrow> bool" where
  "kernel_installs K routes \<longleftrightarrow>
     (\<forall>rq k. rq_prefix_length rq \<noteq> 0 \<longrightarrow> rq_protocol rq = METALBOND_RT_PROTO \<longrightarrow>
        (\<forall>r. r \<in> routes k (addr_version (rq_destination rq)) \<longrightarrow>
           \<not> installed_route (rq_destination rq) (rq_prefix_length rq) (rq_table rq) r) \<longrightarrow>
        (\<exists>r. installed_route (rq_destination rq) (rq_prefix_length rq) (rq_table rq) r \<and> fst (k_add K rq k) = None \<and>
           (\<forall>v. routes (snd (k_add K rq k)) v =
              (if v = addr_version (rq_destination rq) then insert r (routes k v) else routes k v))))"

lemma install_adds:
  assumes "kernel_installs K routes" and "table_for cl v = Inr table" and "net_prefix_len (dest_prefix d) \<noteq> 0"
    and "\<forall>r \<in> routes k (addr_version (net_addr (dest_prefix d))).
      \<not> installed_route (net_addr (dest_prefix d)) (net_prefix_len (dest_prefix d)) table r"
  shows "\<exists>r k'. netlink_add_route K cl v d h k = (Inr (), k') \<and>
    installed_route (net_addr (dest_prefix d)) (net_prefix_len (dest_prefix d)) table r \<and>
    (\<forall>ver. routes k' ver = (if ver = addr_version (net_addr (dest_prefix d)) then insert r (routes k ver) else routes k ver))"
proof -
  define rq where "rq = \<lparr>rq_destination = net_addr (dest_prefix d), rq_prefix_length = net_prefix_len (dest_prefix d),
    rq_gateway = (case dest_prefix d of NetV4 a l \<Rightarrow> None | NetV6 a l \<Rightarrow> Some (target_address h)),
    rq_interface = nl_link_index cl, rq_table = table, rq_protocol = METALBOND_RT_PROTO\<rparr>"
  have "\<exists>r. installed_route (net_addr (dest_prefix d)) (net_prefix_len (dest_prefix d)) table r \<and> fst (k_add K rq k) = None \<and>
      (\<forall>ver. routes (snd (k_add K rq k)) ver =
         (if ver = addr_version (net_addr (dest_prefix d)) then insert r (routes k ver) else routes k ver))"
    using assms(1) [unfolded kernel_installs_def, rule_format, of rq k] assms(3,4) by (auto simp: rq_def)
  moreover have "netlink_add_route K cl v d h k = (Inr (), snd (k_add K rq k))" if "fst (k_add K rq k) = None"
    using that assms(2) by (cases "dest_prefix d"; cases "k_add K rq k")
      (simp_all add: netlink_add_route_def add_route_v4_def add_route_v6_def rq_def)
  ultimately show ?thesis by blast
qed

lemma remove_finds:
  fixes d :: destination
  assumes "kernel_ok K routes" and "table_for cl v = Inr table"
  defines "P \<equiv> installed_route (net_addr (dest_prefix d)) (net_prefix_len (dest_prefix d)) table"
    and "ver \<equiv> addr_version (net_addr (dest_prefix d))"
  shows "\<not> (\<exists>r \<in> routes k ver. P r) \<Longrightarrow> netlink_remove_route K cl v d h k = (Inr (), k)"
    and "\<exists>r \<in> routes k ver. P r \<Longrightarrow> \<exists>r k'. r \<in> routes k ver \<and> P r \<and> netlink_remove_route K cl v d h k = (Inr (), k') \<and>
      (\<forall>w. routes k' w = routes k w - {r})"
proof -
  obtain rs where rs: "k_dump K k ver = map Inr rs" "set rs = routes k ver"
    using assms(1) by (meson kernel_ok_def)
  have run: "netlink_remove_route K cl v d h k =
      remove_from_dump K (net_addr (dest_prefix d)) (net_prefix_len (dest_prefix d)) table (map Inr rs) k"
    using assms(2) rs(1) by (cases "dest_prefix d") (simp_all add: netlink_remove_route_def ver_def)
  have P: "(\<lambda>r. matches_table table r \<and> matches_protocol r \<and>
      matches_dest (net_addr (dest_prefix d)) (net_prefix_len (dest_prefix d)) r) = P"
    by (auto simp: P_def installed_route_def)
  show "\<not> (\<exists>r \<in> routes k ver. P r) \<Longrightarrow> netlink_remove_route K cl v d h k = (Inr (), k)"
    using find_None_iff [of P rs] rs(2) by (simp add: run remove_from_dump_outcome P)
  assume "\<exists>r \<in> routes k ver. P r"
  then obtain r where r: "find P rs = Some r" using find_None_iff [of P rs] rs(2) by fastforce
  then have "P r" "r \<in> routes k ver" using rs(2) by (auto simp: find_Some_iff)
  moreover from this have "fst (k_del K r k) = None" "\<forall>w. routes (snd (k_del K r k)) w = routes k w - {r}"
    using assms(1) by (auto simp: kernel_ok_def)
  ultimately show "\<exists>r k'. r \<in> routes k ver \<and> P r \<and> netlink_remove_route K cl v d h k = (Inr (), k') \<and>
      (\<forall>w. routes k' w = routes k w - {r})"
    using r by (intro exI [of _ r] exI [of _ "snd (k_del K r k)"], cases "k_del K r k")
      (simp add: run remove_from_dump_outcome P)
qed


text \<open>A kernel that installs, for the example.\<close>

definition requested_route :: "route_request \<Rightarrow> kernel_route" where
  "requested_route rq = \<lparr>kr_table = ucast (rq_table rq), kr_protocol = rq_protocol rq, kr_prefix_length = rq_prefix_length rq,
     kr_attributes = [AttrTable (rq_table rq), AttrDestination (rq_destination rq)]\<rparr>"

definition installing_kernel :: "(ip_version \<Rightarrow> kernel_route list) kernel" where
  "installing_kernel = list_kernel\<lparr>k_add := (\<lambda>rq k. (None,
     k(addr_version (rq_destination rq) := requested_route rq # k (addr_version (rq_destination rq)))))\<rparr>"

lemma installing_kernel_ok: "kernel_ok installing_kernel (\<lambda>k v. set (k v))"
  by (auto simp: kernel_ok_def installing_kernel_def list_kernel_def)

lemma installing_kernel_installs: "kernel_installs installing_kernel (\<lambda>k v. set (k v))"
  unfolding kernel_installs_def
proof (intro allI impI)
  fix rq :: route_request and k
  assume "rq_protocol rq = METALBOND_RT_PROTO"
  then show "\<exists>r. installed_route (rq_destination rq) (rq_prefix_length rq) (rq_table rq) r \<and>
      fst (k_add installing_kernel rq k) = None \<and>
      (\<forall>v. set (snd (k_add installing_kernel rq k) v) =
        (if v = addr_version (rq_destination rq) then insert r (set (k v)) else set (k v)))"
    by (intro exI [of _ "requested_route rq"])
      (simp add: installing_kernel_def requested_route_def installed_route_def matches_table_def matches_protocol_def matches_dest_def)
qed


end
