(* ===== verification/Handler_Calls.thy ===== *)
theory Handler_Calls
  imports Client_Properties Stream_Reads Display
begin

text \<open>
  A client knows its handler only through the two callbacks: with any handler it does what it
  does with the recording handler, and the handler's world is what the recorded calls make of
  it. So what is shown of the recording handler holds for every handler.
\<close>

section \<open>Handlers that correspond\<close>

text \<open>A map between the worlds of two handlers that commutes with the callbacks.\<close>

locale world_map =
  fixes h1 :: "'a route_handler" and h2 :: "'b route_handler" and f :: "'a \<Rightarrow> 'b"
  assumes map_add: "f (rh_add_route h1 v r w) = rh_add_route h2 v r (f w)"
    and map_remove: "f (rh_remove_route h1 v r w) = rh_remove_route h2 v r (f w)"

definition map_task :: "('a \<Rightarrow> 'b) \<Rightarrow> 'a peer_task \<Rightarrow> 'b peer_task" where
  "map_task f t = \<lparr>pt_state = pt_state t, pt_subs = pt_subs t, pt_received = pt_received t, pt_world = f (pt_world t),
     pt_stream = pt_stream t, pt_phase = pt_phase t\<rparr>"

lemma map_task_fields [simp]:
  "pt_state (map_task f t) = pt_state t" "pt_subs (map_task f t) = pt_subs t"
  "pt_received (map_task f t) = pt_received t" "pt_world (map_task f t) = f (pt_world t)"
  "pt_stream (map_task f t) = pt_stream t" "pt_phase (map_task f t) = pt_phase t"
  by (simp_all add: map_task_def)

lemma map_task_updates:
  "(map_task f t)\<lparr>pt_state := a\<rparr> = map_task f (t\<lparr>pt_state := a\<rparr>)"
  "(map_task f t)\<lparr>pt_subs := b\<rparr> = map_task f (t\<lparr>pt_subs := b\<rparr>)"
  "(map_task f t)\<lparr>pt_received := c\<rparr> = map_task f (t\<lparr>pt_received := c\<rparr>)"
  "(map_task f t)\<lparr>pt_world := f w\<rparr> = map_task f (t\<lparr>pt_world := w\<rparr>)"
  "(map_task f t)\<lparr>pt_stream := d\<rparr> = map_task f (t\<lparr>pt_stream := d\<rparr>)"
  "(map_task f t)\<lparr>pt_phase := e\<rparr> = map_task f (t\<lparr>pt_phase := e\<rparr>)"
  by (simp_all add: map_task_def)

context world_map
begin

lemma map_drop: "fold (\<lambda>(v, r) w. rh_remove_route h2 v r w) rs (f w) = f (fold (\<lambda>(v, r) w. rh_remove_route h1 v r w) rs w)"
  by (induction rs arbitrary: w) (auto simp: map_remove [symmetric])

lemma map_drop_vni: "fold (\<lambda>r w. rh_remove_route h2 v r w) rs (f w) = f (fold (\<lambda>r w. rh_remove_route h1 v r w) rs w)"
  by (induction rs arbitrary: w) (auto simp: map_remove [symmetric])

lemma map_message: "peer_handle_message h2 m (rt, f w) = map_prod id f (peer_handle_message h1 m (rt, w))"
  by (cases m) (auto simp: map_add map_remove split: action.split prod.split)

lemma map_messages: "fold (peer_handle_message h2) ms (rt, f w) = map_prod id f (fold (peer_handle_message h1) ms (rt, w))"
proof (induction ms arbitrary: rt w)
  case (Cons m ms)
  then show ?case by (cases "peer_handle_message h1 m (rt, w)") (simp add: map_message)
qed simp

lemma map_ended: "connection_ended h2 (map_task f t) = map_task f (connection_ended h1 t)"
  by (simp add: connection_ended_def map_drop map_task_updates)

lemma map_send:
  assumes "\<And>t. go2 (map_task f t) = map_task f (go1 t)"
  shows "conn_send x h2 msgs go2 (map_task f t) = map_task f (conn_send x h1 msgs go1 t)"
  by (cases "send_all x msgs (pt_stream t)") (auto simp: conn_send_def map_task_updates map_ended assms split: sum.split)

lemma map_start: "conn_start x h2 (map_task f t) = map_task f (conn_start x h1 t)"
  unfolding conn_start_def by (rule map_send) (simp add: map_task_updates)

lemma map_hello: "conn_hello x h2 read (map_task f t) = map_task f (conn_hello x h1 read t)"
  by (auto simp: conn_hello_def map_ended map_task_updates intro!: map_send split: sum.split option.split)

lemma map_keepalive: "conn_keepalive x h2 n read announced now (map_task f t) = map_task f (conn_keepalive x h1 n read announced now t)"
  by (auto simp: conn_keepalive_def map_ended map_task_updates intro!: map_send split: sum.split message.split)

lemma map_tick: "conn_tick x h2 n last_received now (map_task f t) = map_task f (conn_tick x h1 n last_received now t)"
  by (auto simp: conn_tick_def map_ended intro!: map_send)

lemma map_data: "conn_data x h2 n buf read now (map_task f t) = map_task f (conn_data x h1 n buf read now t)"
proof (cases read)
  case (Inr bytes)
  obtain ms rest e where "frames (message_decode x) need_more_data (buf @ bytes) = (ms, rest, e)" by (metis prod_cases3)
  moreover obtain rt w where "fold (peer_handle_message h1) ms (pt_received t, pt_world t) = (rt, w)" by fastforce
  ultimately show ?thesis
    by (cases e) (simp_all add: Inr conn_data_def process_buffer_frames map_messages map_ended map_task_updates)
qed (simp add: conn_data_def map_ended)

lemma map_command: "conn_command x h2 cmd (map_task f t) = map_task f (conn_command x h1 cmd t)"
  by (cases cmd) (auto simp: map_ended map_task_updates map_drop_vni intro!: map_send split: prod.split)

lemma map_step: "peer_step x h2 e (map_task f t) = map_option (map_task f) (peer_step x h1 e t)"
  by (simp add: peer_step_def map_task_updates map_start map_hello map_keepalive map_tick map_data map_command
      split: peer_phase.split peer_event.split peer_command.split)

end

section \<open>The client\<close>

definition map_shared :: "('a \<Rightarrow> 'b) \<Rightarrow> 'a client_shared \<Rightarrow> 'b client_shared" where
  "map_shared f sh = \<lparr>cs_origins = cs_origins sh, cs_world = f (cs_world sh)\<rparr>"

definition map_conn :: "('a \<Rightarrow> 'b) \<Rightarrow> 'a peer_conn \<Rightarrow> 'b peer_conn" where
  "map_conn f p = \<lparr>pc_task = map_task (map_shared f) (pc_task p), pc_queue = pc_queue p\<rparr>"

definition map_client :: "('a \<Rightarrow> 'b) \<Rightarrow> 'a client \<Rightarrow> 'b client" where
  "map_client f c = \<lparr>cl_peers = hm_map_values (map_conn f) (cl_peers c), cl_shared = map_shared f (cl_shared c),
     cl_subscriptions = cl_subscriptions c, cl_announced = cl_announced c, cl_addrs = cl_addrs c\<rparr>"

lemma map_shared_fields [simp]:
  "cs_origins (map_shared f sh) = cs_origins sh" "cs_world (map_shared f sh) = f (cs_world sh)"
  by (simp_all add: map_shared_def)

lemma map_conn_fields [simp]:
  "pc_task (map_conn f p) = map_task (map_shared f) (pc_task p)" "pc_queue (map_conn f p) = pc_queue p"
  by (simp_all add: map_conn_def)

lemma map_client_fields [simp]:
  "cl_peers (map_client f c) = hm_map_values (map_conn f) (cl_peers c)" "cl_shared (map_client f c) = map_shared f (cl_shared c)"
  "cl_subscriptions (map_client f c) = cl_subscriptions c" "cl_announced (map_client f c) = cl_announced c"
  "cl_addrs (map_client f c) = cl_addrs c"
  by (simp_all add: map_client_def)

lemma send_peers_map:
  "send_peers only cmd (hm_map_values (map_conn f) ps) = map_prod id (hm_map_values (map_conn f)) (send_peers only cmd ps)"
  by (induction ps) (auto simp: hm_map_values_def get_state_def peer_send_def map_conn_def split: prod.split)

lemma client_calls_map:
  "client_subscribe v (map_client f c) = map_prod id (map_client f) (client_subscribe v c)"
  "client_unsubscribe v (map_client f c) = map_prod id (map_client f) (client_unsubscribe v c)"
  "client_announce v d h (map_client f c) = map_prod id (map_client f) (client_announce v d h c)"
  "client_withdraw v d h (map_client f c) = map_prod id (map_client f) (client_withdraw v d h c)"
  "client_shutdown (map_client f c) = map_client f (client_shutdown c)"
  by (auto simp: client_subscribe_def client_unsubscribe_def client_announce_def client_withdraw_def client_shutdown_def
      send_peers_map map_client_def Let_def split: prod.split)

lemma client_connect_map: "client_connect servers (f w) = map_option (map_client f) (client_connect servers w)"
  by (simp add: client_connect_def map_client_def map_conn_def map_task_def map_shared_def peer_new_def hm_map_values_def Let_def)

lemma hm_insert_map: "hm_insert k (g v) (hm_map_values g m) = hm_map_values g (hm_insert k v m)"
  by (induction m) (auto simp: hm_insert_def hm_map_values_def)

context world_map
begin

lemma dedup_map: "world_map (dedup_handler h1 s) (dedup_handler h2 s) (map_shared f)"
  by unfold_locales
    (auto simp: dedup_handler_def dedup_add_route_def dedup_remove_route_def map_shared_def map_add map_remove split: prod.split)

lemma map_peer_step: "client_peer_step x h2 s e (map_client f c) = map_option (map_client f) (client_peer_step x h1 s e c)"
proof -
  have "peer_step x (dedup_handler h2 s) e ((map_task (map_shared f) t)\<lparr>pt_world := map_shared f (cl_shared c)\<rparr>) =
      map_option (map_task (map_shared f)) (peer_step x (dedup_handler h1 s) e (t\<lparr>pt_world := cl_shared c\<rparr>))" for t
    using world_map.map_step [OF dedup_map, of x s e "t\<lparr>pt_world := cl_shared c\<rparr>"] by (simp add: map_task_updates)
  moreover have "map_client f (c\<lparr>cl_peers := hm_insert s \<lparr>pc_task = t, pc_queue = q\<rparr> (cl_peers c), cl_shared := pt_world t\<rparr>) =
      (map_client f c)\<lparr>cl_peers := hm_insert s \<lparr>pc_task = map_task (map_shared f) t, pc_queue = q\<rparr>
        (hm_map_values (map_conn f) (cl_peers c)), cl_shared := map_shared f (pt_world t)\<rparr>" for t q
    using hm_insert_map [of s "map_conn f" "\<lparr>pc_task = t, pc_queue = q\<rparr>" "cl_peers c"]
    by (simp add: map_client_def map_conn_def)
  ultimately show ?thesis
    by (cases "hm_get (cl_peers c) s"; cases "peer_step x (dedup_handler h1 s) e ((pc_task (the (hm_get (cl_peers c) s)))\<lparr>pt_world := cl_shared c\<rparr>)")
      (auto simp: client_peer_step_def split: bind_splits)
qed

lemma map_drop_removed:
  "fold (\<lambda>(v, d, h) w. rh_remove_route h2 v (route_new d h) w) rs (f w) =
     f (fold (\<lambda>(v, d, h) w. rh_remove_route h1 v (route_new d h) w) rs w)"
  by (induction rs arbitrary: w) (auto simp: map_remove [symmetric])

lemma map_client_step: "client_step x h2 e (map_client f c) = map_option (map_client f) (client_step x h1 e c)"
proof (cases e)
  case (CallRemoveServerRoutes s)
  then show ?thesis
    by (cases "remove_server s (cs_origins (cl_shared c))")
      (simp add: remove_server_routes_def map_drop_removed map_client_def map_shared_def)
qed (simp_all add: map_peer_step client_calls_map)

lemma map_client_run: "client_run x h2 es (map_client f c) = map_option (map_client f) (client_run x h1 es c)"
proof (induction es arbitrary: c)
  case (Cons e es)
  then show ?case by (cases "client_step x h1 e c") (simp_all add: map_client_step)
qed simp

end

interpretation replay: world_map recording_handler h "\<lambda>cs. fold (called h) cs w" for h :: "'w route_handler" and w
  by unfold_locales (simp_all add: recording_handler_def)

section \<open>Properties\<close>


text \<open>A client of one server that has told it of a route.\<close>

lemma example_told:
  "\<exists>c0 es c s p. client_connect [''a''] w = Some c0 \<and> client_run reference_externals h (map (PeerEvent (ServerId 0)) es) c0 = Some c \<and>
     (s, p) \<in> set (cl_peers c) \<and> (vni100, net24, hop1) \<in> rt_abs (pt_received (pc_task p))"
proof -
  let ?x = reference_externals and ?h = "dedup_handler h (ServerId 0)"
  let ?sh = "\<lparr>cs_origins = [], cs_world = w\<rparr>" and ?m = "MsgUpdate Add vni100 net24 hop1"
  define c0 where "c0 = \<lparr>cl_peers = [(ServerId 0, \<lparr>pc_task = peer_new ?sh, pc_queue = []\<rparr>)], cl_shared = ?sh,
    cl_subscriptions = [], cl_announced = rt_new, cl_addrs = [(ServerId 0, ''a'')]\<rparr>"
  define t where "t = established ?x 5 rt_new (length (handshake_messages (peer_new ?sh) rt_new)) 0 (peer_new ?sh)"
  define es where "es = [ConnectOk (length (handshake_messages (peer_new ?sh) rt_new)), HelloRead (Inr (wire_bytes ?x [MsgHello 5 True])),
    KeepaliveRead (Some (Inr (wire_bytes ?x [MsgKeepalive]))) rt_new 0]"
  have "pt_phase (peer_new ?sh) = AtConnect" by (simp add: peer_new_def)
  then have run: "peer_run ?x ?h es (peer_new ?sh) = Some t"
    unfolding es_def t_def by (rule reference.handshake_run [OF _ reference.receive_hello_bytes reference.receive_keepalive_bytes le_refl])
  have t: "pt_phase t = AtLoop (negotiated_keepalive DEFAULT_KEEPALIVE_INTERVAL 5) 0 []" "rt_wf (pt_received t)" "rt_abs (pt_received t) = {}"
    using rt_new_wf rt_new_abs by (simp_all add: t_def established_def peer_new_def del: rt_abs_iff)
  let ?t' = "conn_data ?x ?h (negotiated_keepalive DEFAULT_KEEPALIVE_INTERVAL 5) [] (Inr (wire_bytes ?x [?m])) 1 t"
  have "peer_run ?x ?h (es @ [DataRead (Inr (wire_bytes ?x [?m])) 1]) (peer_new ?sh) = Some ?t'"
    using run t(1) by (simp add: peer_run_append peer_step_def del: wire_bytes_simps)
  moreover have "list_all (undisturbed rt_new) (es @ [DataRead (Inr (wire_bytes ?x [?m])) 1])"
    by (simp add: es_def undisturbed_def)
  ultimately obtain c p where c: "client_run ?x h (map (PeerEvent (ServerId 0)) (es @ [DataRead (Inr (wire_bytes ?x [?m])) 1])) c0 = Some c"
    "hm_get (cl_peers c) (ServerId 0) = Some p" "(pc_task p)\<lparr>pt_world := cl_shared c\<rparr> = ?t'"
    using client_task_run [where x = ?x and h = h and s = "ServerId 0" and c = c0 and t = ?t' and
        pr = "\<lparr>pc_task = peer_new ?sh, pc_queue = []\<rparr>" and es = "es @ [DataRead (Inr (wire_bytes ?x [?m])) 1]"]
    by (auto simp: c0_def hm_get_def peer_new_def)
  have "rt_abs (pt_received ?t') = {(vni100, net24, hop1)}"
    using conn_data_messages [OF reference.externals_ok_axioms, of "[?m]" t ?h] t
    by (simp add: next_hop_canon_valid next_hop_valid_def next_hop_standard_def del: rt_abs_iff)
  moreover have "pt_received (pc_task p) = pt_received ?t'" using arg_cong [OF c(3), of pt_received] by simp
  ultimately have "(vni100, net24, hop1) \<in> rt_abs (pt_received (pc_task p))" by (simp del: rt_abs_iff)
  moreover have "client_connect [''a''] w = Some c0" by (simp add: client_connect_def c0_def Let_def)
  ultimately show ?thesis using c(1) hm_get_Some_in [OF c(2)] by blast
qed


end
