(* ===== verification/Server_Program.thy ===== *)
theory Server_Program
  imports Client_Program Session_Runs
begin

text \<open>
  The example server (\<open>src/examples/server.rs\<close>): it starts the server, asks it for its
  statistics from a task of its own and stops it at the signal. The server runs on as in
  \<open>Server_System\<close>; the question of the status task is one more entry of the command queue of
  the actor, of which only the place is kept. The arguments come from the crate \<open>clap\<close>.
\<close>

section \<open>State\<close>

text \<open>
  The status task waits for its interval, for room in the queue with the number of peers it has
  read, for the answer, or has the numbers to print.
\<close>

datatype status_phase = StTick | StSend nat | StAnswer nat | StReport nat nat nat | StAborted

datatype main_phase = MainSpawned | MainWaits | MainStopping | MainReturned "string + unit"

text \<open>\<open>sp_ahead\<close>: while a question is in the queue, the number of commands before it.\<close>

record server_program = console +
  sp_server :: server
  sp_status :: status_phase
  sp_ahead :: "nat option"
  sp_main :: main_phase

definition server_program_config :: server_config where
  "server_program_config = \<lparr>cfg_keepalive_interval = 5\<rparr>"

definition status_line :: "nat \<Rightarrow> nat \<Rightarrow> nat \<Rightarrow> string" where
  "status_line peers routes subs =
     ''[status] peers: '' @ show_nat peers @ '', routes: '' @ show_nat routes @ '', subscriptions: '' @ show_nat subs"

text \<open>\<open>main\<close> up to the spawning of the status task, given the outcome of binding the listener.\<close>

definition opening_lines :: "string \<Rightarrow> string list" where
  "opening_lines listener = [''RustBond Server'', ''==============='', '''', ''Starting server on '' @ listener @ ''...'']"

definition server_main :: "(error \<Rightarrow> string) \<Rightarrow> string \<Rightarrow> error + unit \<Rightarrow> string list \<times> (string + server_program)" where
  "server_main source listener bind =
     (case server_start bind server_program_config of
        Inl e \<Rightarrow> (opening_lines listener, Inl (error_display source e))
      | Inr s \<Rightarrow>
          let out = opening_lines listener @ [''Server running!'', '''']
          in (out, Inr \<lparr>con_out = out, con_err = [], sp_server = s, sp_status = StTick, sp_ahead = None, sp_main = MainSpawned\<rparr>))"

section \<open>Steps\<close>

definition running :: "server_program \<Rightarrow> bool" where
  "running p \<longleftrightarrow> (case sp_main p of MainReturned result \<Rightarrow> False | _ \<Rightarrow> True)"

text \<open>The places taken in the queue of the actor.\<close>

definition queue_length :: "server_program \<Rightarrow> nat" where
  "queue_length p = length (sv_queue (sp_server p)) + (case sp_ahead p of None \<Rightarrow> 0 | Some _ \<Rightarrow> 1)"

text \<open>The answer reaches the status task if it still waits.\<close>

fun take_answer :: "routing_reply \<Rightarrow> status_phase \<Rightarrow> status_phase" where
  "take_answer (StatsReply routes owners peers subs) (StAnswer n) = StReport n routes subs"
| "take_answer _ (StAnswer n) = StReport n 0 0"
| "take_answer _ phase = phase"

datatype server_program_event =
  ServerMoves system_event | StatusTick | StatusAsks | ActorAnswers | StatusPrints | MainPrints
| SignalArrives "string option" | MainStops

text \<open>The steps of the status task, of the actor with its question, and of \<open>main\<close>.\<close>

fun server_program_moves :: "server_program_event \<Rightarrow> server_program \<Rightarrow> server_program option" where
  "server_program_moves (ServerMoves e) p = None"
| "server_program_moves StatusTick p =
     (case sp_status p of
        StTick \<Rightarrow> Some (p\<lparr>sp_status := StSend (length (sv_peers (sp_server p)))\<rparr>)
      | _ \<Rightarrow> None)"
| "server_program_moves StatusAsks p =
     (case sp_status p of
        StSend n \<Rightarrow>
          if queue_length p < ROUTING_QUEUE
          then Some (p\<lparr>sp_status := StAnswer n, sp_ahead := Some (length (sv_queue (sp_server p)))\<rparr>)
          else None
      | _ \<Rightarrow> None)"
| "server_program_moves ActorAnswers p =
     (if sp_ahead p = Some 0 then
        (case actor_handle GetStats (sv_actor (sp_server p), sv_chans (sp_server p)) of
           (reply, a, chans) \<Rightarrow>
             Some (p\<lparr>sp_server := (sp_server p)\<lparr>sv_actor := a, sv_chans := chans\<rparr>, sp_ahead := None,
                    sp_status := take_answer reply (sp_status p)\<rparr>))
      else None)"
| "server_program_moves StatusPrints p =
     (case sp_status p of
        StReport peers routes subs \<Rightarrow> Some (println (status_line peers routes subs) (p\<lparr>sp_status := StTick\<rparr>))
      | _ \<Rightarrow> None)"
| "server_program_moves MainPrints p =
     (if sp_main p = MainSpawned
      then Some (fold println [''Press Ctrl+C to stop'', ''''] (p\<lparr>sp_main := MainWaits\<rparr>)) else None)"
| "server_program_moves (SignalArrives failed) p =
     (if sp_main p = MainWaits then
        (case failed of
           None \<Rightarrow> Some (fold println ['''', ''Shutting down...''] (p\<lparr>sp_main := MainStopping\<rparr>))
         | Some e \<Rightarrow> Some (p\<lparr>sp_server := (sp_server p)\<lparr>sv_owner := False\<rparr>, sp_main := MainReturned (Inl e)\<rparr>))
      else None)"
| "server_program_moves MainStops p =
     (if sp_main p = MainStopping then
        Some (println ''Server stopped.'' (p\<lparr>sp_status := StAborted, sp_server := server_shutdown (sp_server p),
          sp_main := MainReturned (Inr ())\<rparr>))
      else None)"

text \<open>
  Any task moves until \<open>main\<close> returns, which ends the process. The actor handles its commands
  up to the question; the question takes a place in the queue.
\<close>

inductive sp_step :: "externals \<Rightarrow> server_program \<Rightarrow> server_program_event \<Rightarrow> server_program \<Rightarrow> bool" for x where
  sp_server_moves: "running p \<Longrightarrow> e \<noteq> Shutdown \<Longrightarrow> e \<noteq> DropServer \<Longrightarrow> sv_step x (sp_server p) e s' \<Longrightarrow>
    (e = ActorStep \<Longrightarrow> sp_ahead p \<noteq> Some 0) \<Longrightarrow>
    p' = p\<lparr>sp_server := s', sp_ahead := (if e = ActorStep then map_option (\<lambda>k. k - 1) (sp_ahead p) else sp_ahead p)\<rparr> \<Longrightarrow>
    queue_length p' \<le> ROUTING_QUEUE \<Longrightarrow> sp_step x p (ServerMoves e) p'"
| sp_own_move: "running p \<Longrightarrow> server_program_moves e p = Some p' \<Longrightarrow> sp_step x p e p'"

text \<open>The states of a run, oldest first.\<close>

inductive sp_path :: "externals \<Rightarrow> server_program \<Rightarrow> server_program list \<Rightarrow> bool" for x p0 where
  path_start: "sp_path x p0 [p0]"
| path_step: "sp_path x p0 ps \<Longrightarrow> sp_step x (last ps) e p' \<Longrightarrow> sp_path x p0 (ps @ [p'])"


section \<open>The server of the program\<close>

lemma println_other [simp]:
  "sp_server (println l p) = sp_server p" "sp_status (println l p) = sp_status p" "sp_ahead (println l p) = sp_ahead p"
  "sp_main (println l p) = sp_main p" "con_out (println l p) = con_out p @ [l]"
  by (simp_all add: println_def)

lemma sp_path_nonempty: "sp_path x p0 ps \<Longrightarrow> ps \<noteq> []"
  by (induction rule: sp_path.induct) simp_all

lemma sv_step_queue:
  assumes "sv_step x s e s'"
  shows "if e = ActorStep then \<exists>c. sv_queue s = c # sv_queue s' else \<exists>new. sv_queue s' = sv_queue s @ new"
  using assms
proof (cases rule: sv_step.cases)
  case (sv_conn cid ev)
  then show ?thesis by (auto elim: handler_movesE [OF conn_event_moves])
next
  case (sv_handle cid t)
  then show ?thesis by (auto elim: handler_movesE [OF handle_step_moves])
next
  case (sv_return cid)
  then show ?thesis by (auto elim: handler_movesE [OF handler_return_moves])
next
  case sv_actor
  then show ?thesis by (auto elim!: actor_step_cases)
qed (simp_all add: accept_conn_def server_shutdown_def)

lemma sv_step_owner:
  assumes "sv_step x s e s'" and "e \<noteq> Shutdown" and "e \<noteq> DropServer"
  shows "sv_owner s' = sv_owner s"
  using assms(1)
proof (cases rule: sv_step.cases)
  case (sv_conn cid ev)
  then show ?thesis by (auto elim: handler_movesE [OF conn_event_moves])
next
  case (sv_handle cid t)
  then show ?thesis by (auto elim: handler_movesE [OF handle_step_moves])
next
  case (sv_return cid)
  then show ?thesis by (auto elim: handler_movesE [OF handler_return_moves])
next
  case sv_actor
  then show ?thesis by (auto elim!: actor_step_cases)
qed (use assms in \<open>simp_all add: accept_conn_def\<close>)

text \<open>The events of the program for its server.\<close>

fun server_events :: "server_program_event \<Rightarrow> system_event list" where
  "server_events (ServerMoves e) = [e]"
| "server_events (SignalArrives (Some e)) = [DropServer]"
| "server_events MainStops = [Shutdown]"
| "server_events _ = []"

lemma own_move_server:
  assumes "server_program_moves e p = Some p'"
  shows "server_events e = [] \<and> sp_server p' = sp_server p \<or>
    server_events e = [DropServer] \<and> sp_server p' = (sp_server p)\<lparr>sv_owner := False\<rparr> \<and> \<not> running p' \<or>
    server_events e = [Shutdown] \<and> sp_server p' = server_shutdown (sp_server p) \<and> \<not> running p'"
  using assms
  by (cases e) (auto simp: running_def split: status_phase.splits if_splits option.splits prod.splits)

lemma sp_step_server:
  assumes step: "sp_step x p e p'" and own: "sv_owner (sp_server p)"
  shows "(\<exists>rs. sv_run x (sp_server p) (server_events e) rs (sp_server p')) \<and> (running p' \<longrightarrow> sv_owner (sp_server p'))"
  using step
proof (cases rule: sp_step.cases)
  case (sp_server_moves e' s')
  with sv_run_single [OF sp_server_moves(5)] sv_step_owner [OF sp_server_moves(5)] own show ?thesis by simp
next
  case sp_own_move
  from own_move_server [OF sp_own_move(2)] own sv_run_single [OF sv_drop [OF own], of x]
    sv_run_single [OF sv_shutdown [OF own], of x]
  show ?thesis by auto
qed

text \<open>Whatever the program does, its server is in a state of a run of the server.\<close>

lemma program_runs_server:
  assumes "sp_path x p0 ps" and "sp_server p0 = server_init config"
  shows "(\<exists>es rs. sv_run x (server_init config) es rs (sp_server (last ps))) \<and>
    (running (last ps) \<longrightarrow> sv_owner (sp_server (last ps)))"
  using assms(1)
proof (induction rule: sp_path.induct)
  case path_start
  have "sv_owner (server_init config)" by (simp add: server_init_def)
  then show ?case by (auto simp: assms(2) intro!: exI [of _ "[]"])
next
  case (path_step ps e p')
  have "running (last ps)" using path_step.hyps(2) by (cases rule: sp_step.cases) simp_all
  with path_step.IH have "sv_owner (sp_server (last ps))" by blast
  with path_step sp_step_server [OF path_step.hyps(2)] sv_run_append show ?case by (simp, blast)
qed


section \<open>The status lines\<close>

text \<open>
  The number of peers was read in one state of the run, those of routes and subscriptions are
  of a later one.
\<close>

definition routes_and_subs :: "server \<Rightarrow> nat \<times> nat" where
  "routes_and_subs s = (case actor_stats (sv_actor s) of (routes, owners, peers, subs) \<Rightarrow> (routes, subs))"

definition counted :: "server_program list \<Rightarrow> nat \<Rightarrow> bool" where
  "counted ps n \<longleftrightarrow> (\<exists>i < length ps. n = length (sv_peers (sp_server (ps ! i))))"

definition observed :: "server_program list \<Rightarrow> nat \<Rightarrow> nat \<Rightarrow> nat \<Rightarrow> bool" where
  "observed ps n routes subs \<longleftrightarrow>
     (\<exists>j < length ps. counted (take (Suc j) ps) n \<and> (routes, subs) = routes_and_subs (sp_server (ps ! j)))"

lemma counted_mono: "counted ps n \<Longrightarrow> counted (ps @ qs) n"
  by (fastforce simp: counted_def nth_append)

lemma observed_mono:
  assumes "observed ps n routes subs"
  shows "observed (ps @ qs) n routes subs"
proof -
  obtain j where "j < length ps" "counted (take (Suc j) ps) n" "(routes, subs) = routes_and_subs (sp_server (ps ! j))"
    using assms by (auto simp: observed_def)
  then show ?thesis unfolding observed_def by (intro exI [of _ j]) (auto simp: nth_append)
qed

lemma counted_last: "counted (ps @ [p]) (length (sv_peers (sp_server p)))"
  by (auto simp: counted_def nth_append intro!: exI [of _ "length ps"])

lemma observed_last:
  "counted (ps @ [p]) n \<Longrightarrow> routes_and_subs (sp_server p) = (routes, subs) \<Longrightarrow> observed (ps @ [p]) n routes subs"
  unfolding observed_def by (intro exI [of _ "length ps"]) (simp add: nth_append)

definition fixed_lines :: "string \<Rightarrow> string list" where
  "fixed_lines listener = opening_lines listener @ [''Server running!'', '''', ''Press Ctrl+C to stop'',
     ''Shutting down...'', ''Server stopped.'']"

definition phase_true :: "server_program list \<Rightarrow> status_phase \<Rightarrow> bool" where
  "phase_true ps phase \<longleftrightarrow>
     (case phase of
        StSend n \<Rightarrow> counted ps n
      | StAnswer n \<Rightarrow> counted ps n
      | StReport n routes subs \<Rightarrow> observed ps n routes subs
      | _ \<Rightarrow> True)"

definition line_true :: "string \<Rightarrow> server_program list \<Rightarrow> string \<Rightarrow> bool" where
  "line_true listener ps line \<longleftrightarrow> line \<in> set (fixed_lines listener) \<or>
     (\<exists>n routes subs. line = status_line n routes subs \<and> observed ps n routes subs)"

definition status_true :: "string \<Rightarrow> server_program list \<Rightarrow> server_program \<Rightarrow> bool" where
  "status_true listener ps p \<longleftrightarrow> phase_true ps (sp_status p) \<and> list_all (line_true listener ps) (con_out p)"

lemma phase_true_simps [simp]:
  "phase_true ps StTick" "phase_true ps StAborted" "phase_true ps (StSend n) \<longleftrightarrow> counted ps n"
  "phase_true ps (StAnswer n) \<longleftrightarrow> counted ps n" "phase_true ps (StReport n routes subs) \<longleftrightarrow> observed ps n routes subs"
  by (simp_all add: phase_true_def)

lemma status_true_mono:
  assumes "status_true listener ps p"
  shows "status_true listener (ps @ qs) p"
proof -
  have "line_true listener ps line \<Longrightarrow> line_true listener (ps @ qs) line" for line
    unfolding line_true_def by (blast intro: observed_mono)
  moreover have "phase_true ps phase \<Longrightarrow> phase_true (ps @ qs) phase" for phase
    by (cases phase) (auto intro: counted_mono observed_mono)
  ultimately show ?thesis using assms by (auto simp: status_true_def list_all_iff)
qed

lemma fixed_line_true: "line \<in> set (fixed_lines listener) \<Longrightarrow> line_true listener ps line"
  by (simp add: line_true_def)

lemma fixed_lines_true [simp]:
  "line_true listener ps ''''" "line_true listener ps ''Press Ctrl+C to stop''"
  "line_true listener ps ''Shutting down...''" "line_true listener ps ''Server stopped.''"
  by (rule fixed_line_true, simp add: fixed_lines_def)+

lemma step_status_true:
  assumes "status_true listener ps p" and step: "sp_step x p e p'"
  shows "status_true listener (ps @ [p']) p'"
  using step
proof (cases rule: sp_step.cases)
  case (sp_server_moves e' s')
  with status_true_mono [OF assms(1)] show ?thesis by (simp add: status_true_def)
next
  case sp_own_move
  note move = sp_own_move(2)
  have inv: "status_true listener (ps @ [p']) p" by (rule status_true_mono [OF assms(1)])
  show ?thesis
  proof (cases e)
    case (ServerMoves e')
    with move show ?thesis by simp
  next
    case StatusTick
    with move inv counted_last [of ps p'] show ?thesis by (auto simp: status_true_def split: status_phase.splits)
  next
    case StatusAsks
    with move inv show ?thesis by (auto simp: status_true_def split: status_phase.splits if_splits)
  next
    case ActorAnswers
    obtain routes owners peers subs where stats: "actor_stats (sv_actor (sp_server p)) = (routes, owners, peers, subs)"
      by (cases "actor_stats (sv_actor (sp_server p))")
    then have p': "sp_server p' = sp_server p" "con_out p' = con_out p"
        "sp_status p' = take_answer (StatsReply routes owners peers subs) (sp_status p)"
      using move ActorAnswers by (auto split: if_splits)
    have "observed (ps @ [p']) n routes subs" if "counted (ps @ [p']) n" for n
      by (rule observed_last [OF that]) (simp add: p' routes_and_subs_def stats)
    with inv show ?thesis by (cases "sp_status p") (auto simp: status_true_def p')
  next
    case StatusPrints
    with move inv show ?thesis
      by (auto simp: status_true_def line_true_def split: status_phase.splits)
  next
    case MainPrints
    with move inv show ?thesis by (auto simp: status_true_def split: if_splits)
  next
    case (SignalArrives failed)
    with move inv show ?thesis by (auto simp: status_true_def split: if_splits option.splits)
  next
    case MainStops
    with move inv show ?thesis by (auto simp: status_true_def split: if_splits)
  qed
qed

section \<open>An example\<close>

text \<open>
  A peer connects to the server of the program; its arrival is in the queue of the actor when
  the status task puts its question behind it.
\<close>

lemma path_server:
  assumes "sp_path x p0 ps" and "last ps = p" and "running p" and "sp_ahead p = None" and "sv_step x (sp_server p) e s'"
    and "e \<noteq> Shutdown" "e \<noteq> DropServer" and "length (sv_queue s') \<le> ROUTING_QUEUE"
  shows "sp_path x p0 (ps @ [p\<lparr>sp_server := s'\<rparr>])"
proof -
  have "p\<lparr>sp_server := s', sp_ahead := None\<rparr> = p\<lparr>sp_server := s'\<rparr>" using assms(4) by (cases p) simp
  with assms(3-8) have "sp_step x p (ServerMoves e) (p\<lparr>sp_server := s'\<rparr>)"
    by (intro sp_server_moves [where s' = s']) (simp_all add: queue_length_def)
  with assms(1,2) path_step show ?thesis by blast
qed

definition program_start_state :: server_program where
  "program_start_state =
     \<lparr>con_out = opening_lines ''[::1]:4711'' @ [''Server running!'', ''''], con_err = [],
      sp_server = server_init server_program_config, sp_status = StTick, sp_ahead = None, sp_main = MainSpawned\<rparr>"

lemma example_main: "server_main source ''[::1]:4711'' (Inr ()) = (con_out program_start_state, Inr program_start_state)"
  by (simp add: server_main_def server_start_def program_start_state_def Let_def)

lemma example_question:
  obtains ps s s' where "sp_path reference_externals program_start_state ps"
    and "last ps = program_start_state\<lparr>sp_server := s, sp_status := StAnswer 1, sp_ahead := Some 1\<rparr>"
    and "actor_step s = Some s'" and "length (sv_queue s) = 1" and "routes_and_subs s' = (0, 0)"
proof -
  let ?x = reference_externals and ?start = program_start_state and ?init = "server_init server_program_config"
  let ?final = "?init\<lparr>sv_actor := (sv_actor ?init)\<lparr>a_peers := hm_insert peer1 0 (a_peers (sv_actor ?init))\<rparr>,
       sv_peers := hm_insert peer1 \<lparr>ph_tx = 0, ph_state = Established\<rparr> (sv_peers ?init),
       sv_conns := sv_conns ?init @ [session_handler ?x 5 peer1 5 7]\<rparr>"
  have "\<exists>rs. sv_run ?x ?init [Accept peer1 (7 + 2), ConnEvent 0 (SHelloRead (Inr (wire_bytes ?x [MsgHello 5 False]))),
     ConnEvent 0 (SKeepaliveRead (Some (Inr (wire_bytes ?x [MsgKeepalive]))) 0), ActorStep] rs ?final"
    by (rule exI, rule reference.session_starts) (simp_all add: server_init_def addr_free_def server_program_config_def)
  then obtain s1 s2 s3 where steps: "sv_step ?x ?init (Accept peer1 (7 + 2)) s1"
    "sv_step ?x s1 (ConnEvent 0 (SHelloRead (Inr (wire_bytes ?x [MsgHello 5 False])))) s2"
    "sv_step ?x s2 (ConnEvent 0 (SKeepaliveRead (Some (Inr (wire_bytes ?x [MsgKeepalive]))) 0)) s3"
    and actor: "actor_step s3 = Some ?final"
    by (elim exE sv_run_Cons) (auto elim: sv_step_elims)
  have "length (sv_queue s3) = 1"
    using sv_step_queue [OF sv_actor [OF actor]] by (auto simp: server_init_def)
  moreover have "length (sv_queue s1) \<le> length (sv_queue s2)" "length (sv_queue s2) \<le> length (sv_queue s3)"
    using sv_step_queue [OF steps(2)] sv_step_queue [OF steps(3)] by auto
  ultimately have queue: "length (sv_queue s1) \<le> ROUTING_QUEUE" "length (sv_queue s2) \<le> ROUTING_QUEUE"
    "length (sv_queue s3) \<le> ROUTING_QUEUE" "length (sv_queue s3) = 1"
    by (simp_all add: ROUTING_QUEUE_def)
  have "sv_peers s3 = sv_peers ?final" by (rule actor_step_cases [OF actor]) simp
  then have peers: "length (sv_peers s3) = 1" by (simp add: server_init_def hm_insert_def)
  let ?p = "\<lambda>s. ?start\<lparr>sp_server := s\<rparr>"
  have fields: "running (?p s)" "sp_ahead (?p s) = None" "sp_server (?p s) = s" "?p ?init = ?start"
    "sp_server ?start = ?init" for s
    by (simp_all add: program_start_state_def running_def)
  let ?tick = "?p s3\<lparr>sp_status := StSend 1\<rparr>" and ?ask = "?p s3\<lparr>sp_status := StAnswer 1, sp_ahead := Some 1\<rparr>"
  have "sp_path ?x ?start [?p ?init]" unfolding fields by (rule path_start)
  from path_server [OF this _ fields(1,2), of ?init, OF _ _ _ _ queue(1)] steps(1)
  have "sp_path ?x ?start [?p ?init, ?p s1]" by (simp add: fields)
  from path_server [OF this _ fields(1,2), of s1, OF _ _ _ _ queue(2)] steps(2)
  have "sp_path ?x ?start [?p ?init, ?p s1, ?p s2]" by (simp add: fields)
  from path_server [OF this _ fields(1,2), of s2, OF _ _ _ _ queue(3)] steps(3)
  have "sp_path ?x ?start [?p ?init, ?p s1, ?p s2, ?p s3]" by (simp add: fields)
  from path_step [OF this sp_own_move [of _ StatusTick ?tick]]
  have "sp_path ?x ?start [?p ?init, ?p s1, ?p s2, ?p s3, ?tick]"
    by (simp add: peers program_start_state_def running_def)
  from path_step [OF this sp_own_move [of _ StatusAsks ?ask]]
  have path: "sp_path ?x ?start [?p ?init, ?p s1, ?p s2, ?p s3, ?tick, ?ask]"
    using queue(4) by (simp add: program_start_state_def running_def queue_length_def ROUTING_QUEUE_def)
  have "routes_and_subs ?final = (0, 0)"
    by (simp add: routes_and_subs_def actor_stats_def server_init_def actor_new_def rt_new_def rt_len_def)
  then show ?thesis by (intro that [OF path _ actor queue(4)]) simp_all
qed




section \<open>The question of the status task\<close>

text \<open>A task that waits has its question in the queue.\<close>

definition question_inv :: "server_program \<Rightarrow> bool" where
  "question_inv p \<longleftrightarrow> queue_length p \<le> ROUTING_QUEUE \<and>
     (\<forall>k. sp_ahead p = Some k \<longrightarrow> k \<le> length (sv_queue (sp_server p))) \<and>
     (\<forall>n. sp_status p = StAnswer n \<longrightarrow> sp_ahead p \<noteq> None)"

lemma take_answer_waits: "take_answer reply phase \<noteq> StAnswer n"
  by (cases "(reply, phase)" rule: take_answer.cases) simp_all

lemma own_move_question:
  assumes "server_program_moves e p = Some p'" and "question_inv p"
  shows "question_inv p'"
  using assms
  by (cases e) (auto simp: question_inv_def queue_length_def take_answer_waits server_shutdown_def
      split: status_phase.splits if_splits option.splits prod.splits)

lemma step_question:
  assumes step: "sp_step x p e p'" and inv: "question_inv p"
  shows "question_inv p'"
  using step
proof (cases rule: sp_step.cases)
  case (sp_server_moves e' s')
  have "k - (if e' = ActorStep then 1 else 0) \<le> length (sv_queue s')" if "k \<le> length (sv_queue (sp_server p))" for k
    using sv_step_queue [OF sp_server_moves(5)] that by (auto split: if_splits)
  with sp_server_moves inv show ?thesis by (auto simp: question_inv_def split: if_splits)
qed (auto intro: own_move_question inv)

lemma path_question: "sp_path x p0 ps \<Longrightarrow> question_inv p0 \<Longrightarrow> question_inv (last ps)"
  by (induction rule: sp_path.induct) (auto intro: step_question)

lemma server_main_start:
  assumes "server_main source listener bind = (out, Inr p0)"
  shows "sp_server p0 = server_init server_program_config" and "sp_status p0 = StTick" and "sp_ahead p0 = None"
    and "sp_main p0 = MainSpawned" and "con_out p0 = out"
  using assms by (auto simp: server_main_def server_start_def and_then_Inr_iff Let_def split: sum.splits)

lemma server_main_question: "server_main source listener bind = (out, Inr p0) \<Longrightarrow> question_inv p0"
  by (frule server_main_start(1), frule server_main_start(2), frule server_main_start(3))
    (simp add: question_inv_def queue_length_def server_init_def)

text \<open>The actor works off what is before the question.\<close>

lemma actor_reaches_question:
  assumes "sp_path x p0 ps" and "running (last ps)" and "question_inv (last ps)" and "sp_ahead (last ps) = Some k"
  shows "\<exists>qs. sp_path x p0 (ps @ qs) \<and> length qs = k \<and> running (last (ps @ qs)) \<and> sp_ahead (last (ps @ qs)) = Some 0 \<and>
    sv_queue (sp_server (last (ps @ qs))) = drop k (sv_queue (sp_server (last ps))) \<and>
    sp_status (last (ps @ qs)) = sp_status (last ps)"
  using assms
proof (induction k arbitrary: ps)
  case 0
  then show ?case by (intro exI [of _ "[]"]) simp
next
  case (Suc k)
  let ?p = "last ps"
  obtain c q where q: "sv_queue (sp_server ?p) = c # q"
    using Suc.prems(3,4) by (cases "sv_queue (sp_server ?p)") (auto simp: question_inv_def)
  then have "actor_step (sp_server ?p) \<noteq> None" by (simp add: actor_step_def Let_def split: prod.splits)
  then obtain s' where s': "actor_step (sp_server ?p) = Some s'" by blast
  then have queue: "sv_queue s' = q" using q by (auto elim!: actor_step_cases)
  let ?p' = "?p\<lparr>sp_server := s', sp_ahead := Some k\<rparr>"
  have "queue_length ?p' \<le> ROUTING_QUEUE"
    using Suc.prems(3,4) by (simp add: question_inv_def queue_length_def q queue)
  then have step: "sp_step x ?p (ServerMoves ActorStep) ?p'"
    by (intro sp_server_moves [OF Suc.prems(2) _ _ sv_actor [OF s']]) (use Suc.prems(4) in simp_all)
  have path: "sp_path x p0 (ps @ [?p'])" by (rule path_step [OF Suc.prems(1) step])
  have "running ?p'" using Suc.prems(2) by (simp add: running_def)
  with Suc.IH [OF path] step_question [OF step Suc.prems(3)]
  obtain qs where "sp_path x p0 ((ps @ [?p']) @ qs)" "length qs = k" "running (last ((ps @ [?p']) @ qs))"
    "sp_ahead (last ((ps @ [?p']) @ qs)) = Some 0"
    "sv_queue (sp_server (last ((ps @ [?p']) @ qs))) = drop k q" "sp_status (last ((ps @ [?p']) @ qs)) = sp_status ?p"
    using queue by auto
  then show ?case by (intro exI [of _ "?p' # qs"]) (simp add: q)
qed




section \<open>The end\<close>

text \<open>The program ends without waiting for its connections. When it has returned without an error,
  its last step was the shutdown of the server: this left every connection where it was and
  the table of peers as it was, and no task moves any more.\<close>

theorem program_leaves_connections:
  assumes "sp_path x p0 ps" and "sp_main p0 = MainSpawned" and "sp_main (last ps) = MainReturned (Inr ())"
  shows "\<exists>ps0. ps = ps0 @ [last ps] \<and> ps0 \<noteq> [] \<and> running (last ps0) \<and>
    map hd_phase (sv_conns (sp_server (last ps))) = map hd_phase (sv_conns (sp_server (last ps0))) \<and>
    sv_peers (sp_server (last ps)) = sv_peers (sp_server (last ps0)) \<and> (\<forall>e p'. \<not> sp_step x (last ps) e p')"
  using assms(1)
proof (cases rule: sp_path.cases)
  case path_start
  with assms show ?thesis by simp
next
  case (path_step ps0 e p')
  have run: "running (last ps0)" using path_step(3) by (cases rule: sp_step.cases) simp_all
  have p': "sp_main p' = MainReturned (Inr ())" using assms(3) path_step(1) by simp
  then have stop: "\<forall>e q. \<not> sp_step x p' e q" by (auto simp: running_def elim: sp_step.cases)
  have "sp_server p' = server_shutdown (sp_server (last ps0))"
    using path_step(3)
  proof (cases rule: sp_step.cases)
    case (sp_server_moves e' s')
    with run p' show ?thesis by (simp add: running_def)
  next
    case sp_own_move
    with run p' show ?thesis
      by (cases e) (auto simp: running_def split: status_phase.splits if_splits option.splits prod.splits)
  qed
  with run stop path_step(1) sp_path_nonempty [OF path_step(2)] show ?thesis
    by (intro exI [of _ ps0]) (simp add: server_shutdown_def)
qed

theorem program_leaves_connections_witness:
  "\<exists>ps ps0. sp_path reference_externals program_start_state ps \<and> ps = ps0 @ [last ps] \<and>
    map hd_phase (sv_conns (sp_server (last ps))) = [HWait SHello] \<and> (\<forall>e p'. \<not> sp_step reference_externals (last ps) e p')"
proof -
  let ?x = reference_externals and ?start = program_start_state
  define s where "s = accept_conn peer1 9 (sp_server ?start)"
  define a where "a = ?start\<lparr>sp_server := s\<rparr>"
  define b where "b = fold println [''Press Ctrl+C to stop'', ''''] (a\<lparr>sp_main := MainWaits\<rparr>)"
  define c where "c = fold println ['''', ''Shutting down...''] (b\<lparr>sp_main := MainStopping\<rparr>)"
  define d where "d = println ''Server stopped.'' (c\<lparr>sp_status := StAborted, sp_server := server_shutdown (sp_server c),
    sp_main := MainReturned (Inr ())\<rparr>)"
  have main: "sp_main ?start = MainSpawned" "sp_main a = MainSpawned" "sp_main b = MainWaits" "sp_main c = MainStopping"
    "sp_main d = MainReturned (Inr ())"
    by (simp_all add: a_def b_def c_def d_def program_start_state_def)
  have "sv_step ?x (sp_server ?start) (Accept peer1 9) s"
    unfolding s_def by (rule sv_accept) (simp_all add: program_start_state_def server_init_def addr_free_def)
  from path_server [OF path_start _ _ _ this] have "sp_path ?x ?start ([?start] @ [a])"
    unfolding a_def by
      (simp_all add: running_def program_start_state_def s_def accept_conn_def server_init_def)
  moreover have "sp_step ?x a MainPrints b" "sp_step ?x b (SignalArrives None) c" "sp_step ?x c MainStops d"
    by (rule sp_own_move; simp add: running_def main b_def c_def d_def)+
  ultimately have path: "sp_path ?x ?start ((([?start] @ [a]) @ [b]) @ [c] @ [d])"
    using path_step [of ?x ?start "((([?start] @ [a]) @ [b]) @ [c])"] path_step [of ?x ?start "(([?start] @ [a]) @ [b])"]
      path_step [of ?x ?start "([?start] @ [a])"] by simp
  have last: "last ((([?start] @ [a]) @ [b]) @ [c] @ [d]) = d" by simp
  have "map hd_phase (sv_conns (sp_server d)) = [HWait SHello]"
    by (simp add: a_def b_def c_def d_def s_def accept_conn_def server_shutdown_def new_handler_def
        program_start_state_def server_init_def)
  with program_leaves_connections [OF path main(1), unfolded last, OF main(5)] path last show ?thesis by metis
qed

end
