(* ===== verification/Unit_Tests.thy ===== *)
theory Unit_Tests
  imports Display "HOL-Library.Monad_Syntax"
begin

text \<open>
  The unit tests of the repository, run on the model; here those of \<open>src/src/types.rs\<close>. A test
  is a computation that may panic: \<open>None\<close> is a failed assertion or the \<open>unwrap\<close> of an error.
  The tests hold for every implementation of the crate \<open>ipnet\<close> that does what it documents.
\<close>

section \<open>Tests\<close>

type_synonym test = "unit option"

definition assert_that :: "bool \<Rightarrow> test" where
  "assert_that b = (if b then Some () else None)"

fun unwrap :: "'e + 'a \<Rightarrow> 'a option" where
  "unwrap (Inl e) = None"
| "unwrap (Inr a) = Some a"

definition passes :: "test \<Rightarrow> bool" where
  "passes t \<longleftrightarrow> t = Some ()"

named_theorems tests

lemmas [tests] = assert_that_def passes_def

text \<open>Addresses as the tests write them.\<close>

definition ipv4_new :: "u8 \<Rightarrow> u8 \<Rightarrow> u8 \<Rightarrow> u8 \<Rightarrow> ipv4_addr" where
  "ipv4_new a b c d = ipv4_from_octets [a, b, c, d]"

definition ipv6_new :: "u16 \<Rightarrow> u16 \<Rightarrow> u16 \<Rightarrow> u16 \<Rightarrow> u16 \<Rightarrow> u16 \<Rightarrow> u16 \<Rightarrow> u16 \<Rightarrow> ipv6_addr" where
  "ipv6_new a b c d e f g h = ipv6_from_segments (map unat [a, b, c, d, e, f, g, h])"

definition IPV6_LOCALHOST :: ipv6_addr where
  "IPV6_LOCALHOST = 1"

section \<open>The texts of literals\<close>

lemma digit_char_values [simp]:
  "digit_char 0 = CHR ''0''" "digit_char (Suc 0) = CHR ''1''" "digit_char 2 = CHR ''2''" "digit_char 3 = CHR ''3''"
  "digit_char 4 = CHR ''4''" "digit_char 5 = CHR ''5''" "digit_char 6 = CHR ''6''" "digit_char 7 = CHR ''7''"
  "digit_char 8 = CHR ''8''" "digit_char 9 = CHR ''9''"
  by (simp_all add: digit_char_def char_of_def bit_iff_odd)

lemma hex_char_values [simp]:
  "hex_char 0 = CHR ''0''" "hex_char (Suc 0) = CHR ''1''" "hex_char 2 = CHR ''2''" "hex_char 3 = CHR ''3''"
  "hex_char 4 = CHR ''4''" "hex_char 5 = CHR ''5''" "hex_char 6 = CHR ''6''" "hex_char 7 = CHR ''7''"
  "hex_char 8 = CHR ''8''" "hex_char 9 = CHR ''9''" "hex_char 10 = CHR ''a''" "hex_char 11 = CHR ''b''"
  "hex_char 12 = CHR ''c''" "hex_char 13 = CHR ''d''" "hex_char 14 = CHR ''e''" "hex_char 15 = CHR ''f''"
  by (simp_all add: hex_char_def char_of_def bit_iff_odd)

text \<open>The groups of an address are those it was made of.\<close>

lemma be_groups_value: "list_all (\<lambda>g. g < 65536) gs \<Longrightarrow> be_groups (length gs) (groups_value gs) = gs"
  by (induction gs rule: rev_induct) (simp_all add: groups_value_def)

lemma groups_value_less: "list_all (\<lambda>g. g < 65536) gs \<Longrightarrow> groups_value gs < 65536 ^ length gs"
proof (induction gs rule: rev_induct)
  case (snoc g gs)
  then have "groups_value gs < 65536 ^ length gs" "g < 65536" by simp_all
  then show ?case by (simp add: groups_value_def)
qed (simp add: groups_value_def)

lemma ipv6_segments_new: "ipv6_segments (ipv6_new a b c d e f g h) = map unat [a, b, c, d, e, f, g, h]"
proof -
  let ?gs = "map unat [a, b, c, d, e, f, g, h]"
  have "list_all (\<lambda>g. g < 65536) ?gs" using unsigned_less [where ?'a = nat and ?'b = 16] by simp
  moreover have "length ?gs = 8" by simp
  ultimately have "be_groups 8 (groups_value ?gs) = ?gs" "groups_value ?gs < 65536 ^ 8"
    using be_groups_value [of ?gs] groups_value_less [of ?gs] by metis+
  then show ?thesis by (simp add: ipv6_segments_def ipv6_new_def ipv6_from_segments_def unat_of_nat del: be_groups.simps)
qed

lemma show_ipv4_new: "show_ipv4 (ipv4_new a b c d) = show_octets (map unat [a, b, c, d])"
  by (simp add: show_ipv4_def ipv4_new_def ipv4_octets_from_octets)

lemmas text_simps = show_ipv4_new show_octets_def show_nat.simps show_ipv6_def ipv6_segments_new show_groups_def
  show_hex.simps zero_span_def Let_def

text \<open>The addresses and prefixes the tests write as strings.\<close>

lemma parse_ipv6_shown: "show_ipv6 a = s \<Longrightarrow> parse_ipv6 s = Some a"
  using ipv6_text_roundtrip by blast

context ipnet_text
begin

lemma parse_ipv4_net:
  assumes "s = show_octets (map unat [a, b, c, d]) @ ''/'' @ show_nat (unat l)" and "l \<le> 32"
  shows "parse_net s = Inr (NetV4 (ipv4_new a b c d) l)"
  using parse_show [of "NetV4 (ipv4_new a b c d) l"] assms by (simp add: show_net show_ipv4_new)

end

section \<open>VNIs and enumerations\<close>

definition test_vni_from_u32 :: test where
  "test_vni_from_u32 = do {
     let vni = vni_from_u32 100;
     assert_that (vni_u32 vni = 100) }"

definition test_vni_into_u32 :: test where
  "test_vni_into_u32 = do {
     let vni = Vni 200;
     let val = u32_from_vni vni;
     assert_that (val = 200) }"

definition test_vni_display :: test where
  "test_vni_display = do {
     let vni = Vni 12345;
     assert_that (vni_display vni = ''12345'') }"

definition test_vni_hash :: test where
  "test_vni_hash = do {
     let s = [];
     let s = hs_insert (Vni 100) s;
     let s = hs_insert (Vni 100) s;
     let s = hs_insert (Vni 200) s;
     assert_that (length s = 2) }"

definition test_ip_version_from_proto :: test where
  "test_ip_version_from_proto = do {
     assert_that (ip_version_from ProtoIPv4 = IpV4);
     assert_that (ip_version_from ProtoIPv6 = IpV6) }"

definition test_ip_version_to_proto :: test where
  "test_ip_version_to_proto = do {
     assert_that (proto_ip_version_from IpV4 = ProtoIPv4);
     assert_that (proto_ip_version_from IpV6 = ProtoIPv6) }"

definition test_action_from_proto :: test where
  "test_action_from_proto = do {
     assert_that (action_from ProtoAdd = Add);
     assert_that (action_from ProtoRemove = Remove) }"

definition test_action_to_proto :: test where
  "test_action_to_proto = do {
     assert_that (proto_action_from Add = ProtoAdd);
     assert_that (proto_action_from Remove = ProtoRemove) }"

definition test_next_hop_type_default :: test where
  "test_next_hop_type_default = assert_that (next_hop_type_default = Standard)"

definition test_next_hop_type_display :: test where
  "test_next_hop_type_display = do {
     assert_that (next_hop_type_display Standard = ''STANDARD'');
     assert_that (next_hop_type_display Nat = ''NAT'');
     assert_that (next_hop_type_display LoadBalancerTarget = ''LOADBALANCER_TARGET'') }"

definition test_next_hop_type_from_proto :: test where
  "test_next_hop_type_from_proto = do {
     assert_that (next_hop_type_from ProtoStandard = Standard);
     assert_that (next_hop_type_from ProtoNat = Nat);
     assert_that (next_hop_type_from ProtoLoadbalancerTarget = LoadBalancerTarget) }"

definition test_next_hop_type_to_proto :: test where
  "test_next_hop_type_to_proto = do {
     assert_that (proto_next_hop_type_from Standard = ProtoStandard);
     assert_that (proto_next_hop_type_from Nat = ProtoNat);
     assert_that (proto_next_hop_type_from LoadBalancerTarget = ProtoLoadbalancerTarget) }"

definition test_connection_state_display :: test where
  "test_connection_state_display = do {
     assert_that (connection_state_display Connecting = ''CONNECTING'');
     assert_that (connection_state_display HelloSent = ''HELLO_SENT'');
     assert_that (connection_state_display HelloReceived = ''HELLO_RECEIVED'');
     assert_that (connection_state_display Established = ''ESTABLISHED'');
     assert_that (connection_state_display Retry = ''RETRY'');
     assert_that (connection_state_display ConnClosed = ''CLOSED'') }"

definition test_connection_state_equality :: test where
  "test_connection_state_equality = do {
     assert_that (Established = Established);
     assert_that (Connecting \<noteq> Established) }"

definition enum_tests :: "test list" where
  "enum_tests = [test_vni_from_u32, test_vni_into_u32, test_vni_display, test_vni_hash, test_ip_version_from_proto,
     test_ip_version_to_proto, test_action_from_proto, test_action_to_proto, test_next_hop_type_default,
     test_next_hop_type_display, test_next_hop_type_from_proto, test_next_hop_type_to_proto,
     test_connection_state_display, test_connection_state_equality]"

lemma enum_tests_pass: "list_all passes enum_tests"
  by (simp add: enum_tests_def tests test_vni_from_u32_def test_vni_into_u32_def test_vni_display_def test_vni_hash_def
      test_ip_version_from_proto_def test_ip_version_to_proto_def test_action_from_proto_def test_action_to_proto_def
      test_next_hop_type_default_def test_next_hop_type_display_def test_next_hop_type_from_proto_def
      test_next_hop_type_to_proto_def test_connection_state_display_def test_connection_state_equality_def
      vni_from_u32_def u32_from_vni_def next_hop_type_default_def vni_display_def hs_insert_def
      show_nat.simps)


section \<open>Destinations\<close>

definition test_destination_from_ipv4 :: "net_new \<Rightarrow> show_net \<Rightarrow> test" where
  "test_destination_from_ipv4 net_new show_net = do {
     dest \<leftarrow> destination_from_ipv4 net_new (ipv4_new 10 0 1 0) 24;
     assert_that (show_net (dest_prefix dest) = ''10.0.1.0/24'');
     assert_that (destination_ip_version dest = IpV4) }"

definition test_destination_from_ipv6 :: "net_new \<Rightarrow> show_net \<Rightarrow> test" where
  "test_destination_from_ipv6 net_new show_net = do {
     dest \<leftarrow> destination_from_ipv6 net_new (ipv6_new 0x2001 0xdb8 0 0 0 0 0 0) 64;
     assert_that (show_net (dest_prefix dest) = ''2001:db8::/64'');
     assert_that (destination_ip_version dest = IpV6) }"

definition test_destination_display :: "net_new \<Rightarrow> show_net \<Rightarrow> test" where
  "test_destination_display net_new show_net = do {
     dest \<leftarrow> destination_from_ipv4 net_new (ipv4_new 192 168 1 0) 24;
     assert_that (destination_display show_net dest = ''192.168.1.0/24'') }"

definition test_destination_new :: "(string \<Rightarrow> string + ip_net) \<Rightarrow> show_net \<Rightarrow> test" where
  "test_destination_new parse_net show_net = do {
     pfx \<leftarrow> unwrap (parse_net ''172.16.0.0/16'');
     let dest = destination_new pfx;
     assert_that (show_net (dest_prefix dest) = ''172.16.0.0/16'') }"

definition test_destination_hash :: "net_new \<Rightarrow> test" where
  "test_destination_hash net_new = do {
     let s = [];
     d1 \<leftarrow> destination_from_ipv4 net_new (ipv4_new 10 0 0 0) 8;
     let s = hs_insert d1 s;
     d2 \<leftarrow> destination_from_ipv4 net_new (ipv4_new 10 0 0 0) 8;
     let s = hs_insert d2 s;
     d3 \<leftarrow> destination_from_ipv4 net_new (ipv4_new 10 0 0 0) 16;
     let s = hs_insert d3 s;
     assert_that (length s = 2) }"

definition test_destination_to_proto_ipv4 :: "net_new \<Rightarrow> test" where
  "test_destination_to_proto_ipv4 net_new = do {
     dest \<leftarrow> destination_from_ipv4 net_new (ipv4_new 10 0 1 0) 24;
     let proto_dest = proto_destination_from dest;
     assert_that (pd_ip_version proto_dest = proto_ip_version_i32 ProtoIPv4);
     assert_that (pd_prefix proto_dest = [10, 0, 1, 0]);
     assert_that (pd_prefix_length proto_dest = 24) }"

definition test_destination_to_proto_ipv6 :: "net_new \<Rightarrow> test" where
  "test_destination_to_proto_ipv6 net_new = do {
     dest \<leftarrow> destination_from_ipv6 net_new (ipv6_new 0x2001 0xdb8 0 0 0 0 0 1) 128;
     let proto_dest = proto_destination_from dest;
     assert_that (pd_ip_version proto_dest = proto_ip_version_i32 ProtoIPv6);
     assert_that (length (pd_prefix proto_dest) = 16);
     assert_that (pd_prefix_length proto_dest = 128) }"

definition test_destination_from_proto_ipv4 :: "net_new \<Rightarrow> show_net \<Rightarrow> test" where
  "test_destination_from_proto_ipv4 net_new show_net = do {
     let proto_dest = \<lparr>pd_ip_version = proto_ip_version_i32 ProtoIPv4, pd_prefix = [192, 168, 0, 0], pd_prefix_length = 16\<rparr>;
     dest \<leftarrow> unwrap (destination_try_from net_new proto_dest);
     assert_that (show_net (dest_prefix dest) = ''192.168.0.0/16'') }"

definition test_destination_from_proto_ipv6 :: "net_new \<Rightarrow> show_net \<Rightarrow> test" where
  "test_destination_from_proto_ipv6 net_new show_net = do {
     let proto_dest = \<lparr>pd_ip_version = proto_ip_version_i32 ProtoIPv6,
       pd_prefix = [0x20, 0x01, 0x0d, 0xb8, 0, 0, 0, 0, 0, 0, 0, 0, 0, 0, 0, 0], pd_prefix_length = 32\<rparr>;
     dest \<leftarrow> unwrap (destination_try_from net_new proto_dest);
     assert_that (show_net (dest_prefix dest) = ''2001:db8::/32'') }"

definition test_destination_from_proto_invalid_ipv4_length :: "net_new \<Rightarrow> test" where
  "test_destination_from_proto_invalid_ipv4_length net_new = do {
     let proto_dest = \<lparr>pd_ip_version = proto_ip_version_i32 ProtoIPv4, pd_prefix = [10, 0, 1], pd_prefix_length = 24\<rparr>;
     assert_that (isl (destination_try_from net_new proto_dest)) }"

definition test_destination_from_proto_invalid_ipv6_length :: "net_new \<Rightarrow> test" where
  "test_destination_from_proto_invalid_ipv6_length net_new = do {
     let proto_dest = \<lparr>pd_ip_version = proto_ip_version_i32 ProtoIPv6, pd_prefix = [0x20, 0x01, 0x0d, 0xb8], pd_prefix_length = 32\<rparr>;
     assert_that (isl (destination_try_from net_new proto_dest)) }"

definition destination_tests :: "net_new \<Rightarrow> show_net \<Rightarrow> (string \<Rightarrow> string + ip_net) \<Rightarrow> test list" where
  "destination_tests net_new show_net parse_net =
     [test_destination_from_ipv4 net_new show_net, test_destination_from_ipv6 net_new show_net,
      test_destination_display net_new show_net, test_destination_new parse_net show_net, test_destination_hash net_new,
      test_destination_to_proto_ipv4 net_new, test_destination_to_proto_ipv6 net_new,
      test_destination_from_proto_ipv4 net_new show_net, test_destination_from_proto_ipv6 net_new show_net,
      test_destination_from_proto_invalid_ipv4_length net_new, test_destination_from_proto_invalid_ipv6_length net_new]"

text \<open>The texts the tests mention.\<close>



context ipnet_text
begin

lemma destination_tests_pass:
  assumes "ipnet_crate net_new"
  shows "list_all passes (destination_tests net_new show_net parse_net)"
proof -
  have net: "net_new (AddrV4 a) l = (if l \<le> 32 then Some (NetV4 a l) else None)"
    "net_new (AddrV6 b) l = (if l \<le> 128 then Some (NetV6 b l) else None)" for a b l
    using assms by (simp_all add: ipnet_crate_def)
  have "parse_net ''172.16.0.0/16'' = Inr (NetV4 (ipv4_new 172 16 0 0) 16)"
    by (rule parse_ipv4_net) (simp_all add: text_simps)
  moreover have octets: "ipv4_octets (ipv4_new a b c d) = [a, b, c, d]" for a b c d
    by (simp add: ipv4_new_def ipv4_octets_from_octets)
  moreover have "ipv4_from_octets [a, b, c, d] = ipv4_new a b c d" for a b c d by (simp add: ipv4_new_def)
  moreover have "ipv6_from_octets [0x20, 0x01, 0x0d, 0xb8, 0, 0, 0, 0, 0, 0, 0, 0, 0, 0, 0, 0] = ipv6_new 0x2001 0xdb8 0 0 0 0 0 0"
    by (simp add: ipv6_from_octets_def be_value_def ipv6_new_def ipv6_from_segments_def groups_value_def)
  ultimately show ?thesis
    by (simp add: destination_tests_def tests test_destination_from_ipv4_def test_destination_from_ipv6_def
        test_destination_display_def test_destination_new_def test_destination_hash_def test_destination_to_proto_ipv4_def
        test_destination_to_proto_ipv6_def test_destination_from_proto_ipv4_def test_destination_from_proto_ipv6_def
        test_destination_from_proto_invalid_ipv4_length_def test_destination_from_proto_invalid_ipv6_length_def
        destination_from_ipv4_def destination_from_ipv6_def destination_display_def destination_new_def net show_net text_simps
        hs_insert_def destination_try_from_def proto_ip_version_try_from_def)
qed

end

section \<open>Next hops\<close>

definition test_next_hop_standard :: test where
  "test_next_hop_standard = do {
     let addr = ipv6_new 0x2001 0xdb8 0 0 0 0 0 1;
     let hop = next_hop_standard addr;
     assert_that (target_address hop = addr);
     assert_that (target_vni hop = None);
     assert_that (hop_type hop = Standard);
     assert_that (nat_port_range_from hop = 0);
     assert_that (nat_port_range_to hop = 0) }"

definition test_next_hop_standard_with_vni :: test where
  "test_next_hop_standard_with_vni = do {
     let addr = ipv6_new 0x2001 0xdb8 0 0 0 0 0 2;
     let hop = next_hop_standard_with_vni addr 200;
     assert_that (target_address hop = addr);
     assert_that (target_vni hop = Some 200);
     assert_that (hop_type hop = Standard) }"

definition test_next_hop_nat :: test where
  "test_next_hop_nat = do {
     let addr = ipv6_new 0x2001 0xdb8 0 0 0 0 0 3;
     let hop = next_hop_nat addr 30000 40000;
     assert_that (target_address hop = addr);
     assert_that (hop_type hop = Nat);
     assert_that (nat_port_range_from hop = 30000);
     assert_that (nat_port_range_to hop = 40000) }"

definition test_next_hop_load_balancer :: test where
  "test_next_hop_load_balancer = do {
     let addr = ipv6_new 0x2001 0xdb8 0 0 0 0 0 4;
     let hop = next_hop_load_balancer addr;
     assert_that (target_address hop = addr);
     assert_that (hop_type hop = LoadBalancerTarget) }"

definition test_next_hop_display_standard :: test where
  "test_next_hop_display_standard = do {
     let hop = next_hop_standard IPV6_LOCALHOST;
     assert_that (next_hop_display hop = ''::1'') }"

definition test_next_hop_display_with_vni :: test where
  "test_next_hop_display_with_vni = do {
     let hop = next_hop_standard_with_vni IPV6_LOCALHOST 100;
     assert_that (next_hop_display hop = ''::1 (VNI: 100)'') }"

definition test_next_hop_display_nat :: test where
  "test_next_hop_display_nat = do {
     let hop = next_hop_nat IPV6_LOCALHOST 1000 2000;
     assert_that (next_hop_display hop = ''::1 [NAT ports 1000-2000]'') }"

definition test_next_hop_display_lb :: test where
  "test_next_hop_display_lb = do {
     let hop = next_hop_load_balancer IPV6_LOCALHOST;
     assert_that (next_hop_display hop = ''::1 [LB]'') }"

definition test_next_hop_to_proto :: test where
  "test_next_hop_to_proto = do {
     let hop = next_hop_nat (ipv6_new 0x2001 0xdb8 0 0 0 0 0 5) 10000 20000;
     let proto_hop = proto_next_hop_from hop;
     assert_that (length (pn_target_address proto_hop) = 16);
     assert_that (pn_type proto_hop = proto_next_hop_type_i32 ProtoNat);
     assert_that (pn_nat_port_range_from proto_hop = 10000);
     assert_that (pn_nat_port_range_to proto_hop = 20000) }"

definition test_next_hop_from_proto :: test where
  "test_next_hop_from_proto = do {
     let proto_hop = \<lparr>pn_target_address = [0x20, 0x01, 0x0d, 0xb8, 0, 0, 0, 0, 0, 0, 0, 0, 0, 0, 0, 6],
       pn_target_vni = 300, pn_type = proto_next_hop_type_i32 ProtoStandard,
       pn_nat_port_range_from = 0, pn_nat_port_range_to = 0\<rparr>;
     hop \<leftarrow> unwrap (next_hop_try_from proto_hop);
     assert_that (target_address hop = ipv6_new 0x2001 0xdb8 0 0 0 0 0 6);
     assert_that (target_vni hop = Some 300);
     assert_that (hop_type hop = Standard) }"

definition test_next_hop_from_proto_no_vni :: test where
  "test_next_hop_from_proto_no_vni = do {
     let proto_hop = \<lparr>pn_target_address = [0, 0, 0, 0, 0, 0, 0, 0, 0, 0, 0, 0, 0, 0, 0, 1],
       pn_target_vni = 0, pn_type = proto_next_hop_type_i32 ProtoStandard,
       pn_nat_port_range_from = 0, pn_nat_port_range_to = 0\<rparr>;
     hop \<leftarrow> unwrap (next_hop_try_from proto_hop);
     assert_that (target_vni hop = None) }"

definition test_next_hop_from_proto_invalid_address :: test where
  "test_next_hop_from_proto_invalid_address = do {
     let proto_hop = \<lparr>pn_target_address = [1, 2, 3],
       pn_target_vni = 0, pn_type = proto_next_hop_type_i32 ProtoStandard,
       pn_nat_port_range_from = 0, pn_nat_port_range_to = 0\<rparr>;
     assert_that (isl (next_hop_try_from proto_hop)) }"

definition test_next_hop_hash :: test where
  "test_next_hop_hash = do {
     let s = [];
     let hop1 = next_hop_standard IPV6_LOCALHOST;
     let hop2 = next_hop_standard IPV6_LOCALHOST;
     let hop3 = next_hop_nat IPV6_LOCALHOST 1000 2000;
     let s = hs_insert hop1 s;
     let s = hs_insert hop2 s;
     let s = hs_insert hop3 s;
     assert_that (length s = 2) }"

definition next_hop_tests :: "test list" where
  "next_hop_tests = [test_next_hop_standard, test_next_hop_standard_with_vni, test_next_hop_nat, test_next_hop_load_balancer,
     test_next_hop_display_standard, test_next_hop_display_with_vni, test_next_hop_display_nat, test_next_hop_display_lb,
     test_next_hop_to_proto, test_next_hop_from_proto, test_next_hop_from_proto_no_vni,
     test_next_hop_from_proto_invalid_address, test_next_hop_hash]"

lemma localhost_text: "show_ipv6 IPV6_LOCALHOST = ''::1''"
proof -
  have eq: "IPV6_LOCALHOST = ipv6_new 0 0 0 0 0 0 0 1" by (simp add: IPV6_LOCALHOST_def ipv6_new_def ipv6_from_segments_def groups_value_def)
  show ?thesis unfolding eq by (simp add: text_simps)
qed

lemma next_hop_tests_pass: "list_all passes next_hop_tests"
  by (simp add: next_hop_tests_def tests test_next_hop_standard_def test_next_hop_standard_with_vni_def test_next_hop_nat_def
      test_next_hop_load_balancer_def test_next_hop_display_standard_def test_next_hop_display_with_vni_def
      test_next_hop_display_nat_def test_next_hop_display_lb_def test_next_hop_to_proto_def test_next_hop_from_proto_def
      test_next_hop_from_proto_no_vni_def test_next_hop_from_proto_invalid_address_def test_next_hop_hash_def
      next_hop_standard_def next_hop_standard_with_vni_def next_hop_nat_def next_hop_load_balancer_def next_hop_display_def
      localhost_text show_nat.simps proto_next_hop_from_def next_hop_try_from_def proto_next_hop_type_try_from_def
      hs_insert_def ipv6_new_def ipv6_from_segments_def groups_value_def ipv6_from_octets_def be_value_def)

end
