(* ===== verification/Wire_Tests.thy ===== *)
theory Wire_Tests
  imports Unit_Tests Wire_Properties
begin

text \<open>
  The unit tests of \<open>src/src/wire.rs\<close>, for every implementation of the protocol's generated
  code and of \<open>ipnet\<close> that does what these crates document.
\<close>

section \<open>Round trips\<close>

definition test_hello_roundtrip :: "externals \<Rightarrow> test" where
  "test_hello_roundtrip x = do {
     let msg = MsgHello 5 False;
     encoded \<leftarrow> unwrap (message_encode x msg);
     (decoded, len) \<leftarrow> unwrap (message_decode x encoded);
     assert_that (len = length encoded);
     (case decoded of
        MsgHello keepalive_interval is_server \<Rightarrow> do {
          assert_that (keepalive_interval = 5);
          assert_that (\<not> is_server) }
      | _ \<Rightarrow> None) }"

definition test_hello_server :: "externals \<Rightarrow> test" where
  "test_hello_server x = do {
     let msg = MsgHello 10 True;
     encoded \<leftarrow> unwrap (message_encode x msg);
     (decoded, _) \<leftarrow> unwrap (message_decode x encoded);
     (case decoded of
        MsgHello keepalive_interval is_server \<Rightarrow> do {
          assert_that (keepalive_interval = 10);
          assert_that is_server }
      | _ \<Rightarrow> None) }"

definition test_keepalive_roundtrip :: "externals \<Rightarrow> test" where
  "test_keepalive_roundtrip x = do {
     let msg = MsgKeepalive;
     encoded \<leftarrow> unwrap (message_encode x msg);
     (decoded, len) \<leftarrow> unwrap (message_decode x encoded);
     assert_that (len = length encoded);
     assert_that (decoded = MsgKeepalive) }"

definition test_keepalive_header :: "externals \<Rightarrow> test" where
  "test_keepalive_header x = do {
     let msg = MsgKeepalive;
     encoded \<leftarrow> unwrap (message_encode x msg);
     assert_that (length encoded = 4);
     assert_that (encoded ! 0 = PROTOCOL_VERSION);
     assert_that (encoded ! 1 = 0);
     assert_that (encoded ! 2 = 0);
     assert_that (encoded ! 3 = message_type_u8 TypeKeepalive) }"

definition test_subscribe_roundtrip :: "externals \<Rightarrow> test" where
  "test_subscribe_roundtrip x = do {
     let msg = MsgSubscribe (Vni 100);
     encoded \<leftarrow> unwrap (message_encode x msg);
     (decoded, len) \<leftarrow> unwrap (message_decode x encoded);
     assert_that (len = length encoded);
     (case decoded of
        MsgSubscribe vni \<Rightarrow> assert_that (vni_u32 vni = 100)
      | _ \<Rightarrow> None) }"

definition test_unsubscribe_roundtrip :: "externals \<Rightarrow> test" where
  "test_unsubscribe_roundtrip x = do {
     let msg = MsgUnsubscribe (Vni 200);
     encoded \<leftarrow> unwrap (message_encode x msg);
     (decoded, len) \<leftarrow> unwrap (message_decode x encoded);
     assert_that (len = length encoded);
     (case decoded of
        MsgUnsubscribe vni \<Rightarrow> assert_that (vni_u32 vni = 200)
      | _ \<Rightarrow> None) }"

definition test_update_roundtrip :: "externals \<Rightarrow> show_net \<Rightarrow> test" where
  "test_update_roundtrip x show_net = do {
     destination \<leftarrow> destination_from_ipv4 (ext_net_new x) (ipv4_new 10 0 1 0) 24;
     let msg = MsgUpdate Add (Vni 100) destination (next_hop_standard (ipv6_new 0x2001 0xdb8 0 0 0 0 0 0xa));
     encoded \<leftarrow> unwrap (message_encode x msg);
     (decoded, len) \<leftarrow> unwrap (message_decode x encoded);
     assert_that (len = length encoded);
     (case decoded of
        MsgUpdate action vni destination next_hop \<Rightarrow> do {
          assert_that (action = Add);
          assert_that (vni_u32 vni = 100);
          assert_that (show_net (dest_prefix destination) = ''10.0.1.0/24'');
          assert_that (target_address next_hop = ipv6_new 0x2001 0xdb8 0 0 0 0 0 0xa) }
      | _ \<Rightarrow> None) }"

definition test_update_remove_action :: "externals \<Rightarrow> test" where
  "test_update_remove_action x = do {
     destination \<leftarrow> destination_from_ipv4 (ext_net_new x) (ipv4_new 192 168 0 0) 16;
     let msg = MsgUpdate Remove (Vni 300) destination (next_hop_standard IPV6_LOCALHOST);
     encoded \<leftarrow> unwrap (message_encode x msg);
     (decoded, _) \<leftarrow> unwrap (message_decode x encoded);
     (case decoded of
        MsgUpdate action vni _ _ \<Rightarrow> do {
          assert_that (action = Remove);
          assert_that (vni_u32 vni = 300) }
      | _ \<Rightarrow> None) }"

definition test_update_with_nat_hop :: "externals \<Rightarrow> test" where
  "test_update_with_nat_hop x = do {
     destination \<leftarrow> destination_from_ipv4 (ext_net_new x) (ipv4_new 10 0 0 0) 8;
     let msg = MsgUpdate Add (Vni 100) destination (next_hop_nat (ipv6_new 0x2001 0xdb8 0 0 0 0 0 1) 30000 40000);
     encoded \<leftarrow> unwrap (message_encode x msg);
     (decoded, _) \<leftarrow> unwrap (message_decode x encoded);
     (case decoded of
        MsgUpdate _ _ _ next_hop \<Rightarrow> do {
          assert_that (hop_type next_hop = Nat);
          assert_that (nat_port_range_from next_hop = 30000);
          assert_that (nat_port_range_to next_hop = 40000) }
      | _ \<Rightarrow> None) }"

definition test_update_with_lb_hop :: "externals \<Rightarrow> test" where
  "test_update_with_lb_hop x = do {
     destination \<leftarrow> destination_from_ipv4 (ext_net_new x) (ipv4_new 172 16 0 0) 12;
     let msg = MsgUpdate Add (Vni 100) destination (next_hop_load_balancer (ipv6_new 0x2001 0xdb8 0 0 0 0 0 2));
     encoded \<leftarrow> unwrap (message_encode x msg);
     (decoded, _) \<leftarrow> unwrap (message_decode x encoded);
     (case decoded of
        MsgUpdate _ _ _ next_hop \<Rightarrow> assert_that (hop_type next_hop = LoadBalancerTarget)
      | _ \<Rightarrow> None) }"

definition test_update_ipv6_destination :: "externals \<Rightarrow> show_net \<Rightarrow> test" where
  "test_update_ipv6_destination x show_net = do {
     destination \<leftarrow> destination_from_ipv6 (ext_net_new x) (ipv6_new 0x2001 0xdb8 0x1234 0 0 0 0 0) 48;
     let msg = MsgUpdate Add (Vni 100) destination (next_hop_standard IPV6_LOCALHOST);
     encoded \<leftarrow> unwrap (message_encode x msg);
     (decoded, _) \<leftarrow> unwrap (message_decode x encoded);
     (case decoded of
        MsgUpdate _ _ destination _ \<Rightarrow> assert_that (show_net (dest_prefix destination) = ''2001:db8:1234::/48'')
      | _ \<Rightarrow> None) }"

definition test_update_with_target_vni :: "externals \<Rightarrow> test" where
  "test_update_with_target_vni x = do {
     destination \<leftarrow> destination_from_ipv4 (ext_net_new x) (ipv4_new 10 0 0 0) 8;
     let msg = MsgUpdate Add (Vni 100) destination
       (next_hop_standard_with_vni (ipv6_new 0x2001 0xdb8 0 0 0 0 0 3) 500);
     encoded \<leftarrow> unwrap (message_encode x msg);
     (decoded, _) \<leftarrow> unwrap (message_decode x encoded);
     (case decoded of
        MsgUpdate _ _ _ next_hop \<Rightarrow> assert_that (target_vni next_hop = Some 500)
      | _ \<Rightarrow> None) }"

definition test_large_vni_values :: "externals \<Rightarrow> test" where
  "test_large_vni_values x = do {
     let msg = MsgSubscribe (Vni (-1));
     encoded \<leftarrow> unwrap (message_encode x msg);
     (decoded, _) \<leftarrow> unwrap (message_decode x encoded);
     (case decoded of
        MsgSubscribe vni \<Rightarrow> assert_that (vni_u32 vni = -1)
      | _ \<Rightarrow> None) }"

definition test_decode_multiple_messages_in_buffer :: "externals \<Rightarrow> test" where
  "test_decode_multiple_messages_in_buffer x = do {
     let msg1 = MsgKeepalive;
     let msg2 = MsgSubscribe (Vni 100);
     buf1 \<leftarrow> unwrap (message_encode x msg1);
     buf2 \<leftarrow> unwrap (message_encode x msg2);
     let buf = buf1 @ buf2;
     (decoded1, consumed1) \<leftarrow> unwrap (message_decode x buf);
     assert_that (decoded1 = MsgKeepalive);
     (decoded2, consumed2) \<leftarrow> unwrap (message_decode x (drop consumed1 buf));
     (case decoded2 of
        MsgSubscribe vni \<Rightarrow> assert_that (vni_u32 vni = 100)
      | _ \<Rightarrow> None);
     assert_that (consumed1 + consumed2 = length buf) }"

definition roundtrip_tests :: "externals \<Rightarrow> show_net \<Rightarrow> test list" where
  "roundtrip_tests x show_net =
     [test_hello_roundtrip x, test_hello_server x, test_keepalive_roundtrip x, test_keepalive_header x,
      test_subscribe_roundtrip x, test_unsubscribe_roundtrip x, test_update_roundtrip x show_net,
      test_update_remove_action x, test_update_with_nat_hop x, test_update_with_lb_hop x,
      test_update_ipv6_destination x show_net, test_update_with_target_vni x, test_large_vni_values x,
      test_decode_multiple_messages_in_buffer x]"

text \<open>Encoding and decoding, as the tests do it.\<close>

context externals_ok
begin

lemma encoded:
  assumes "message_valid m"
  obtains b where "message_encode x m = Inr b" and "message_decode x b = Inr (message_canon m, length b)"
    and "\<And>rest. message_decode x (b @ rest) = Inr (message_canon m, length b)"
  using message_encode_total [of m] message_roundtrip [OF assms] append_Nil2 by metis

lemma keepalive_encoded: "message_encode x MsgKeepalive = Inr [1, 0, 0, 2]"
  by (simp add: message_encode_def PROTOCOL_VERSION_def)

lemma new_net:
  "l \<le> 32 \<Longrightarrow> ext_net_new x (AddrV4 a) l = Some (NetV4 a l)" "l \<le> 128 \<Longrightarrow> ext_net_new x (AddrV6 b) l = Some (NetV6 b l)"
  by (simp_all add: net_new_documented)

lemma hello_tests_pass: "passes (test_hello_roundtrip x)" "passes (test_hello_server x)"
  "passes (test_keepalive_roundtrip x)" "passes (test_keepalive_header x)"
proof -
  obtain b where "message_encode x (MsgHello 5 False) = Inr b" "message_decode x b = Inr (MsgHello 5 False, length b)"
    using encoded [of "MsgHello 5 False"] by auto
  then show "passes (test_hello_roundtrip x)" by (simp add: test_hello_roundtrip_def tests)
  obtain b where "message_encode x (MsgHello 10 True) = Inr b" "message_decode x b = Inr (MsgHello 10 True, length b)"
    using encoded [of "MsgHello 10 True"] by auto
  then show "passes (test_hello_server x)" by (simp add: test_hello_server_def tests)
  obtain b where "message_encode x MsgKeepalive = Inr b" "message_decode x b = Inr (MsgKeepalive, length b)"
    using encoded [of MsgKeepalive] by auto
  then show "passes (test_keepalive_roundtrip x)" by (simp add: test_keepalive_roundtrip_def tests)
  show "passes (test_keepalive_header x)"
    by (simp add: test_keepalive_header_def tests keepalive_encoded PROTOCOL_VERSION_def)
qed

lemma subscribe_tests_pass: "passes (test_subscribe_roundtrip x)" "passes (test_unsubscribe_roundtrip x)"
  "passes (test_large_vni_values x)" "passes (test_decode_multiple_messages_in_buffer x)"
proof -
  obtain b where b: "message_encode x (MsgSubscribe (Vni 100)) = Inr b"
    "message_decode x b = Inr (MsgSubscribe (Vni 100), length b)"
    using encoded [of "MsgSubscribe (Vni 100)"] by auto
  then show "passes (test_subscribe_roundtrip x)" by (simp add: test_subscribe_roundtrip_def tests)
  obtain b1 where "message_encode x MsgKeepalive = Inr b1"
    "\<And>rest. message_decode x (b1 @ rest) = Inr (MsgKeepalive, length b1)"
    using encoded [of MsgKeepalive] by auto
  with b show "passes (test_decode_multiple_messages_in_buffer x)"
    by (simp add: test_decode_multiple_messages_in_buffer_def tests)
  obtain b where "message_encode x (MsgUnsubscribe (Vni 200)) = Inr b"
    "message_decode x b = Inr (MsgUnsubscribe (Vni 200), length b)"
    using encoded [of "MsgUnsubscribe (Vni 200)"] by auto
  then show "passes (test_unsubscribe_roundtrip x)" by (simp add: test_unsubscribe_roundtrip_def tests)
  obtain b where "message_encode x (MsgSubscribe (Vni (-1))) = Inr b"
    "message_decode x b = Inr (MsgSubscribe (Vni (-1)), length b)"
    using encoded [of "MsgSubscribe (Vni (-1))"] by auto
  then show "passes (test_large_vni_values x)" by (simp add: test_large_vni_values_def tests)
qed

lemma update_encoded:
  assumes "destination_valid d" "target_vni h \<noteq> Some 0"
  obtains b where "message_encode x (MsgUpdate a v d h) = Inr b"
    and "message_decode x b = Inr (MsgUpdate a v d h, length b)"
  using encoded [of "MsgUpdate a v d h"] assms by (auto simp: next_hop_canon_def)

lemma update_tests_pass:
  assumes "ipnet_text show_net parse_net"
  shows "passes (test_update_roundtrip x show_net)" "passes (test_update_remove_action x)"
    "passes (test_update_with_nat_hop x)" "passes (test_update_with_lb_hop x)"
    "passes (test_update_ipv6_destination x show_net)" "passes (test_update_with_target_vni x)"
proof -
  have net: "show_net p = show_ip_addr (net_addr p) @ ''/'' @ show_nat (unat (net_prefix_len p))" for p
    by (rule ipnet_text.show_net [OF assms])
  note test = tests destination_from_ipv4_def destination_from_ipv6_def new_net next_hop_standard_def
    next_hop_nat_def next_hop_load_balancer_def next_hop_standard_with_vni_def
  show "passes (test_update_roundtrip x show_net)"
    by (rule update_encoded [of "Destination (NetV4 (ipv4_new 10 0 1 0) 24)" "next_hop_standard (ipv6_new 0x2001 0xdb8 0 0 0 0 0 0xa)" Add "Vni 100"])
      (simp_all add: test test_update_roundtrip_def net text_simps)
  show "passes (test_update_remove_action x)"
    by (rule update_encoded [of "Destination (NetV4 (ipv4_new 192 168 0 0) 16)" "next_hop_standard IPV6_LOCALHOST" Remove "Vni 300"])
      (simp_all add: test test_update_remove_action_def)
  show "passes (test_update_with_nat_hop x)"
    by (rule update_encoded [of "Destination (NetV4 (ipv4_new 10 0 0 0) 8)" "next_hop_nat (ipv6_new 0x2001 0xdb8 0 0 0 0 0 1) 30000 40000" Add "Vni 100"])
      (simp_all add: test test_update_with_nat_hop_def)
  show "passes (test_update_with_lb_hop x)"
    by (rule update_encoded [of "Destination (NetV4 (ipv4_new 172 16 0 0) 12)" "next_hop_load_balancer (ipv6_new 0x2001 0xdb8 0 0 0 0 0 2)" Add "Vni 100"])
      (simp_all add: test test_update_with_lb_hop_def)
  show "passes (test_update_ipv6_destination x show_net)"
    by (rule update_encoded [of "Destination (NetV6 (ipv6_new 0x2001 0xdb8 0x1234 0 0 0 0 0) 48)" "next_hop_standard IPV6_LOCALHOST" Add "Vni 100"])
      (simp_all add: test test_update_ipv6_destination_def net text_simps)
  show "passes (test_update_with_target_vni x)"
    by (rule update_encoded [of "Destination (NetV4 (ipv4_new 10 0 0 0) 8)" "next_hop_standard_with_vni (ipv6_new 0x2001 0xdb8 0 0 0 0 0 3) 500" Add "Vni 100"])
      (simp_all add: test test_update_with_target_vni_def)
qed

lemma roundtrip_tests_pass:
  assumes "ipnet_text show_net parse_net"
  shows "list_all passes (roundtrip_tests x show_net)"
  by (simp add: roundtrip_tests_def hello_tests_pass subscribe_tests_pass update_tests_pass [OF assms])

end

section \<open>Errors, types and constants\<close>

text \<open>The four error tests differ in the bytes and in the text they look for.\<close>

definition protocol_error_with :: "string \<Rightarrow> error + 'a \<Rightarrow> test" where
  "protocol_error_with text result =
     (case result of Inl (EProtocol msg) \<Rightarrow> assert_that (str_contains text msg) | _ \<Rightarrow> None)"

definition test_decode_too_short :: "externals \<Rightarrow> test" where
  "test_decode_too_short x = do {
     let buf = [1, 0];
     let result = message_decode x buf;
     assert_that (isl result);
     protocol_error_with ''too short'' result }"

definition test_decode_invalid_version :: "externals \<Rightarrow> test" where
  "test_decode_invalid_version x = do {
     let buf = [2, 0, 0, 1];
     let result = message_decode x buf;
     assert_that (isl result);
     protocol_error_with ''version'' result }"

definition test_decode_unknown_message_type :: "externals \<Rightarrow> test" where
  "test_decode_unknown_message_type x = do {
     let buf = [1, 0, 0, 99];
     let result = message_decode x buf;
     assert_that (isl result);
     protocol_error_with ''message type'' result }"

definition test_decode_truncated_payload :: "externals \<Rightarrow> test" where
  "test_decode_truncated_payload x = do {
     let buf = [1, 0, 10, 1, 0, 0];
     let result = message_decode x buf;
     assert_that (isl result);
     protocol_error_with ''truncated'' result }"

definition test_message_type_try_from :: test where
  "test_message_type_try_from = do {
     t1 \<leftarrow> unwrap (message_type_try_from 1); assert_that (t1 = TypeHello);
     t2 \<leftarrow> unwrap (message_type_try_from 2); assert_that (t2 = TypeKeepalive);
     t3 \<leftarrow> unwrap (message_type_try_from 3); assert_that (t3 = TypeSubscribe);
     t4 \<leftarrow> unwrap (message_type_try_from 4); assert_that (t4 = TypeUnsubscribe);
     t5 \<leftarrow> unwrap (message_type_try_from 5); assert_that (t5 = TypeUpdate);
     assert_that (isl (message_type_try_from 0));
     assert_that (isl (message_type_try_from 6));
     assert_that (isl (message_type_try_from 255)) }"

definition test_message_type_method :: "externals \<Rightarrow> test" where
  "test_message_type_method x = do {
     assert_that (message_type_of (MsgHello 5 False) = TypeHello);
     assert_that (message_type_of MsgKeepalive = TypeKeepalive);
     assert_that (message_type_of (MsgSubscribe (Vni 1)) = TypeSubscribe);
     assert_that (message_type_of (MsgUnsubscribe (Vni 1)) = TypeUnsubscribe);
     destination \<leftarrow> destination_from_ipv4 (ext_net_new x) (ipv4_new 10 0 0 0) 8;
     let update = MsgUpdate Add (Vni 1) destination (next_hop_standard IPV6_LOCALHOST);
     assert_that (message_type_of update = TypeUpdate) }"

definition test_header_encoding :: "externals \<Rightarrow> test" where
  "test_header_encoding x = do {
     let msg = MsgSubscribe (Vni 100);
     encoded \<leftarrow> unwrap (message_encode x msg);
     assert_that (encoded ! 0 = PROTOCOL_VERSION);
     assert_that (encoded ! 3 = message_type_u8 TypeSubscribe);
     let payload_len = push_bit 8 (unat (encoded ! 1)) OR unat (encoded ! 2);
     assert_that (payload_len = length encoded - HEADER_SIZE) }"

definition test_constants :: test where
  "test_constants = do {
     assert_that (PROTOCOL_VERSION = 1);
     assert_that (HEADER_SIZE = 4);
     assert_that (MAX_PAYLOAD_SIZE = 1188) }"

definition decode_tests :: "externals \<Rightarrow> test list" where
  "decode_tests x =
     [test_decode_too_short x, test_decode_invalid_version x, test_decode_unknown_message_type x,
      test_decode_truncated_payload x, test_message_type_try_from, test_message_type_method x,
      test_header_encoding x, test_constants]"

definition wire_tests :: "externals \<Rightarrow> show_net \<Rightarrow> test list" where
  "wire_tests x show_net = roundtrip_tests x show_net @ decode_tests x"

lemma decode_error_tests_pass: "passes (test_decode_too_short x)" "passes (test_decode_invalid_version x)"
  "passes (test_decode_unknown_message_type x)" "passes (test_decode_truncated_payload x)"
  by (simp_all add: tests test_decode_too_short_def test_decode_invalid_version_def test_decode_unknown_message_type_def
      test_decode_truncated_payload_def protocol_error_with_def message_decode_short message_decode_header
      message_type_try_from_def payload_len_of_def)

lemma constant_tests_pass: "passes test_message_type_try_from" "passes test_constants"
  by (simp_all add: tests test_message_type_try_from_def message_type_try_from_def test_constants_def
      PROTOCOL_VERSION_def HEADER_SIZE_def MAX_PAYLOAD_SIZE_def)

context externals_ok
begin

lemma header_test_passes: "passes (test_header_encoding x)"
proof -
  obtain p where "length p \<le> 103" and "message_encode x (MsgSubscribe (Vni 100)) =
      Inr ([1, word_of_nat (drop_bit 8 (length p)), word_of_nat (length p AND 0xFF), message_type_u8 TypeSubscribe] @ p)"
    using message_encode_total [of "MsgSubscribe (Vni 100)"] by auto
  with payload_len_of_encode [of "length p" 1 "message_type_u8 TypeSubscribe # p"] show ?thesis
    by (simp add: test_header_encoding_def tests PROTOCOL_VERSION_def HEADER_SIZE_def payload_len_of_def)
qed

lemma wire_tests_pass:
  assumes "ipnet_text show_net parse_net"
  shows "list_all passes (wire_tests x show_net)"
proof -
  have "passes (test_message_type_method x)"
    by (simp add: test_message_type_method_def tests destination_from_ipv4_def new_net)
  then show ?thesis
    using roundtrip_tests_pass [OF assms]
    by (simp add: wire_tests_def decode_tests_def decode_error_tests_pass constant_tests_pass header_test_passes)
qed

end

end
