(* ===== verification/Table_Tests.thy ===== *)
theory Table_Tests
  imports Unit_Tests Announcements Origin_Tracker
begin

text \<open>
  The unit tests of the route table (\<open>src/src/route.rs\<close>) and of the client's origin tracker
  (\<open>src/src/client.rs\<close>). A method that takes \<open>&mut self\<close> returns the table with its result, so a
  test rebinds \<open>table\<close>; the test of the tracker's thread safety is run for every order in which
  its ten threads may take the lock.
\<close>

definition make_dest :: "parse_net \<Rightarrow> string \<Rightarrow> destination option" where
  "make_dest parse_net pfx = map_option destination_new (unwrap (parse_net pfx))"

definition make_hop :: "string \<Rightarrow> next_hop option" where
  "make_hop addr = map_option next_hop_standard (parse_ipv6 addr)"

section \<open>Routes\<close>

definition test_route_new :: "parse_net \<Rightarrow> test" where
  "test_route_new parse_net = do {
     dest \<leftarrow> make_dest parse_net ''10.0.1.0/24'';
     hop \<leftarrow> make_hop ''2001:db8::1'';
     let route = route_new dest hop;
     assert_that (route_destination route = dest);
     assert_that (route_next_hop route = hop) }"

definition test_route_display :: "parse_net \<Rightarrow> show_net \<Rightarrow> test" where
  "test_route_display parse_net show_net = do {
     dest \<leftarrow> make_dest parse_net ''10.0.1.0/24'';
     hop \<leftarrow> make_hop ''2001:db8::1'';
     let display = route_display show_net (route_new dest hop);
     assert_that (str_contains ''10.0.1.0/24'' display);
     assert_that (str_contains ''2001:db8::1'' display) }"

definition make_route :: "parse_net \<Rightarrow> string \<Rightarrow> string \<Rightarrow> route option" where
  "make_route parse_net pfx addr = do {
     dest \<leftarrow> make_dest parse_net pfx;
     hop \<leftarrow> make_hop addr;
     Some (route_new dest hop) }"

definition test_route_equality :: "parse_net \<Rightarrow> test" where
  "test_route_equality parse_net = do {
     route1 \<leftarrow> make_route parse_net ''10.0.1.0/24'' ''2001:db8::1'';
     route2 \<leftarrow> make_route parse_net ''10.0.1.0/24'' ''2001:db8::1'';
     route3 \<leftarrow> make_route parse_net ''10.0.2.0/24'' ''2001:db8::1'';
     assert_that (route1 = route2);
     assert_that (route1 \<noteq> route3) }"

definition test_route_hash :: "parse_net \<Rightarrow> test" where
  "test_route_hash parse_net = do {
     let set = [];
     route1 \<leftarrow> make_route parse_net ''10.0.1.0/24'' ''2001:db8::1'';
     route2 \<leftarrow> make_route parse_net ''10.0.1.0/24'' ''2001:db8::1'';
     route3 \<leftarrow> make_route parse_net ''10.0.2.0/24'' ''2001:db8::2'';
     let set = hs_insert route1 set;
     let set = hs_insert route2 set;
     let set = hs_insert route3 set;
     assert_that (length set = 2) }"

definition route_tests :: "parse_net \<Rightarrow> show_net \<Rightarrow> test list" where
  "route_tests parse_net show_net = [test_route_new parse_net, test_route_display parse_net show_net,
     test_route_equality parse_net, test_route_hash parse_net]"

text \<open>The three prefixes and four addresses of the tests.\<close>

definition test_net :: "u8 \<Rightarrow> destination" where
  "test_net i = Destination (NetV4 (ipv4_new 10 0 i 0) 24)"

definition test_hop :: "u16 \<Rightarrow> next_hop" where
  "test_hop i = next_hop_standard (ipv6_new 0x2001 0xdb8 0 0 0 0 0 i)"

lemma test_net_inj [simp]: "test_net i = test_net j \<longleftrightarrow> i = j"
proof
  assume "test_net i = test_net j"
  then have "ipv4_octets (ipv4_new 10 0 i 0) = ipv4_octets (ipv4_new 10 0 j 0)" by (simp add: test_net_def)
  then show "i = j" by (simp add: ipv4_new_def ipv4_octets_from_octets)
qed simp

lemma test_hop_inj [simp]: "test_hop i = test_hop j \<longleftrightarrow> i = j"
proof
  assume "test_hop i = test_hop j"
  then have "ipv6_new 0x2001 0xdb8 0 0 0 0 0 i = ipv6_new 0x2001 0xdb8 0 0 0 0 0 j"
    by (simp add: test_hop_def next_hop_standard_def)
  then have "map unat [0x2001, 0xdb8, 0, 0, 0, 0, 0, i] = map unat [0x2001, 0xdb8, 0, 0, 0, 0, 0, j :: u16]"
    by (metis ipv6_segments_new)
  then show "i = j" by (simp add: word_unat_eq_iff)
qed simp

lemma make_test_hop: "make_hop (''2001:db8::'' @ show_hex (unat i)) = Some (test_hop i)"
proof -
  have hex: "show_groups [0x2001, 0xdb8] = ''2001:db8''" by (simp add: show_groups_def show_hex.simps)
  have single: "show_groups [unat i] = show_hex (unat i)" by (simp add: show_groups_def)
  have five: "replicate 5 (0::nat) = [0, 0, 0, 0, 0]" by (simp add: numeral_eq_Suc)
  have "unat i < 65536" using unsigned_less [of i, where ?'a = nat] by simp
  then have "read_ipv6 (show_groups [0x2001, 0xdb8] @ ''::'' @ show_groups [unat i]) =
      Some ([0x2001, 0xdb8, 0, 0, 0, 0, 0, unat i], [])"
    using five by (subst read_compressed) simp_all
  then show ?thesis by (simp add: hex single make_hop_def parse_ipv6_def test_hop_def ipv6_new_def)
qed

lemma make_hops: "make_hop ''2001:db8::1'' = Some (test_hop 1)" "make_hop ''2001:db8::2'' = Some (test_hop 2)"
  "make_hop ''2001:db8::3'' = Some (test_hop 3)" "make_hop ''2001:db8::4'' = Some (test_hop 4)"
  using make_test_hop [of 1] make_test_hop [of 2] make_test_hop [of 3] make_test_hop [of 4] by (simp_all add: show_hex.simps)

context ipnet_text
begin

lemma make_test_net: "make_dest parse_net (''10.0.'' @ show_nat (unat i) @ ''.0/24'') = Some (test_net i)"
proof -
  have "parse_net (''10.0.'' @ show_nat (unat i) @ ''.0/24'') = Inr (NetV4 (ipv4_new 10 0 i 0) 24)"
    by (rule parse_ipv4_net) (simp_all add: show_octets_def show_nat.simps)
  then show ?thesis by (simp add: make_dest_def destination_new_def test_net_def)
qed

lemma make_dests: "make_dest parse_net ''10.0.1.0/24'' = Some (test_net 1)"
  "make_dest parse_net ''10.0.2.0/24'' = Some (test_net 2)" "make_dest parse_net ''10.0.3.0/24'' = Some (test_net 3)"
  using make_test_net [of 1] make_test_net [of 2] make_test_net [of 3] by (simp_all add: show_nat.simps)

lemma route_tests_pass: "list_all passes (route_tests parse_net show_net)"
proof -
  have "show_net (dest_prefix (test_net 1)) = ''10.0.1.0/24''" by (simp add: test_net_def show_net text_simps)
  moreover have "next_hop_display (test_hop 1) = ''2001:db8::1''"
    by (simp add: test_hop_def next_hop_display_def next_hop_standard_def text_simps)
  ultimately have "passes (test_route_display parse_net show_net)"
    by (simp add: test_route_display_def make_dests make_hops tests route_display_def route_new_def destination_display_def)
  then show ?thesis
    by (simp add: route_tests_def tests test_route_new_def make_route_def test_route_equality_def test_route_hash_def
        make_dests make_hops route_new_def hs_insert_def)
qed

end


section \<open>The route table\<close>

text \<open>The line \<open>table.add_next_hop(vni, make_dest(..), make_hop(..));\<close>, whose result the tests drop.\<close>

definition add_line :: "parse_net \<Rightarrow> vni \<Rightarrow> string \<Rightarrow> string \<Rightarrow> route_table \<Rightarrow> route_table option" where
  "add_line parse_net vni pfx addr table = do {
     dest \<leftarrow> make_dest parse_net pfx;
     hop \<leftarrow> make_hop addr;
     Some (snd (add_next_hop vni dest hop table)) }"

definition test_route_table_new :: test where
  "test_route_table_new = do {
     let table = rt_new;
     assert_that (rt_is_empty table);
     assert_that (rt_len table = 0) }"

definition test_route_table_default :: test where
  "test_route_table_default = do {
     let table = \<lparr>rt_routes = []\<rparr>;
     assert_that (rt_is_empty table) }"

definition test_add_and_check :: "parse_net \<Rightarrow> test" where
  "test_add_and_check parse_net = do {
     let table = rt_new;
     let vni = Vni 100;
     dest \<leftarrow> make_dest parse_net ''10.0.1.0/24'';
     hop \<leftarrow> make_hop ''2001:db8::1'';
     assert_that (\<not> next_hop_exists vni dest hop table);
     let (added, table) = add_next_hop vni dest hop table;
     assert_that added;
     assert_that (next_hop_exists vni dest hop table);
     let (added, table) = add_next_hop vni dest hop table;
     assert_that (\<not> added) }"

definition test_remove :: "parse_net \<Rightarrow> test" where
  "test_remove parse_net = do {
     let table = rt_new;
     let vni = Vni 100;
     dest \<leftarrow> make_dest parse_net ''10.0.1.0/24'';
     hop1 \<leftarrow> make_hop ''2001:db8::1'';
     hop2 \<leftarrow> make_hop ''2001:db8::2'';
     let (_, table) = add_next_hop vni dest hop1 table;
     let (_, table) = add_next_hop vni dest hop2 table;
     let ((removed, remaining), table) = remove_next_hop vni dest hop1 table;
     assert_that removed;
     assert_that (remaining = 1);
     let ((removed, remaining), table) = remove_next_hop vni dest hop2 table;
     assert_that removed;
     assert_that (remaining = 0);
     assert_that (rt_is_empty table) }"

definition test_remove_nonexistent :: "parse_net \<Rightarrow> test" where
  "test_remove_nonexistent parse_net = do {
     let table = rt_new;
     let vni = Vni 100;
     dest \<leftarrow> make_dest parse_net ''10.0.1.0/24'';
     hop \<leftarrow> make_hop ''2001:db8::1'';
     let ((removed, remaining), table) = remove_next_hop vni dest hop table;
     assert_that (\<not> removed);
     assert_that (remaining = 0) }"

definition test_remove_wrong_vni :: "parse_net \<Rightarrow> test" where
  "test_remove_wrong_vni parse_net = do {
     let table = rt_new;
     dest \<leftarrow> make_dest parse_net ''10.0.1.0/24'';
     hop \<leftarrow> make_hop ''2001:db8::1'';
     let (_, table) = add_next_hop (Vni 100) dest hop table;
     let ((removed, _), table) = remove_next_hop (Vni 200) dest hop table;
     assert_that (\<not> removed);
     assert_that (rt_len table = 1) }"

definition test_get_routes :: "parse_net \<Rightarrow> test" where
  "test_get_routes parse_net = do {
     let table = rt_new;
     let vni = Vni 100;
     table \<leftarrow> add_line parse_net vni ''10.0.1.0/24'' ''2001:db8::1'' table;
     table \<leftarrow> add_line parse_net vni ''10.0.2.0/24'' ''2001:db8::2'' table;
     let routes = get_routes_by_vni vni table;
     assert_that (length routes = 2) }"

definition test_get_routes_empty_vni :: test where
  "test_get_routes_empty_vni = do {
     let table = rt_new;
     let routes = get_routes_by_vni (Vni 100) table;
     assert_that (routes = []) }"

definition test_get_destinations_by_vni :: "parse_net \<Rightarrow> test" where
  "test_get_destinations_by_vni parse_net = do {
     let table = rt_new;
     let vni = Vni 100;
     dest1 \<leftarrow> make_dest parse_net ''10.0.1.0/24'';
     dest2 \<leftarrow> make_dest parse_net ''10.0.2.0/24'';
     hop1 \<leftarrow> make_hop ''2001:db8::1'';
     let (_, table) = add_next_hop vni dest1 hop1 table;
     hop2 \<leftarrow> make_hop ''2001:db8::2'';
     let (_, table) = add_next_hop vni dest1 hop2 table;
     hop3 \<leftarrow> make_hop ''2001:db8::3'';
     let (_, table) = add_next_hop vni dest2 hop3 table;
     let dests = get_destinations_by_vni vni table;
     assert_that (length dests = 2);
     hops1 \<leftarrow> hm_get dests dest1;
     assert_that (length hops1 = 2);
     hops2 \<leftarrow> hm_get dests dest2;
     assert_that (length hops2 = 1) }"

definition test_get_vnis :: "parse_net \<Rightarrow> test" where
  "test_get_vnis parse_net = do {
     let table = rt_new;
     table \<leftarrow> add_line parse_net (Vni 100) ''10.0.1.0/24'' ''2001:db8::1'' table;
     table \<leftarrow> add_line parse_net (Vni 200) ''10.0.2.0/24'' ''2001:db8::2'' table;
     table \<leftarrow> add_line parse_net (Vni 100) ''10.0.3.0/24'' ''2001:db8::3'' table;
     let vnis = get_vnis table;
     assert_that (length vnis = 2);
     assert_that (Vni 100 \<in> set vnis);
     assert_that (Vni 200 \<in> set vnis) }"

definition test_get_all_routes :: "parse_net \<Rightarrow> test" where
  "test_get_all_routes parse_net = do {
     let table = rt_new;
     table \<leftarrow> add_line parse_net (Vni 100) ''10.0.1.0/24'' ''2001:db8::1'' table;
     table \<leftarrow> add_line parse_net (Vni 200) ''10.0.2.0/24'' ''2001:db8::2'' table;
     let all_routes = get_all_routes table;
     assert_that (length all_routes = 2) }"

definition test_remove_vni :: "parse_net \<Rightarrow> test" where
  "test_remove_vni parse_net = do {
     let table = rt_new;
     table \<leftarrow> add_line parse_net (Vni 100) ''10.0.1.0/24'' ''2001:db8::1'' table;
     table \<leftarrow> add_line parse_net (Vni 100) ''10.0.2.0/24'' ''2001:db8::2'' table;
     table \<leftarrow> add_line parse_net (Vni 200) ''10.0.3.0/24'' ''2001:db8::3'' table;
     let (removed, table) = remove_vni (Vni 100) table;
     assert_that (length removed = 2);
     assert_that (rt_len table = 1);
     assert_that (Vni 200 \<in> set (get_vnis table));
     assert_that (Vni 100 \<notin> set (get_vnis table)) }"

definition test_remove_vni_nonexistent :: "parse_net \<Rightarrow> test" where
  "test_remove_vni_nonexistent parse_net = do {
     let table = rt_new;
     table \<leftarrow> add_line parse_net (Vni 100) ''10.0.1.0/24'' ''2001:db8::1'' table;
     let (removed, table) = remove_vni (Vni 200) table;
     assert_that (removed = []);
     assert_that (rt_len table = 1) }"

definition test_clear :: "parse_net \<Rightarrow> test" where
  "test_clear parse_net = do {
     let table = rt_new;
     table \<leftarrow> add_line parse_net (Vni 100) ''10.0.1.0/24'' ''2001:db8::1'' table;
     table \<leftarrow> add_line parse_net (Vni 200) ''10.0.2.0/24'' ''2001:db8::2'' table;
     assert_that (rt_len table = 2);
     let table = rt_clear table;
     assert_that (rt_is_empty table);
     assert_that (rt_len table = 0) }"

definition test_len :: "parse_net \<Rightarrow> test" where
  "test_len parse_net = do {
     let table = rt_new;
     assert_that (rt_len table = 0);
     table \<leftarrow> add_line parse_net (Vni 100) ''10.0.1.0/24'' ''2001:db8::1'' table;
     assert_that (rt_len table = 1);
     table \<leftarrow> add_line parse_net (Vni 100) ''10.0.1.0/24'' ''2001:db8::2'' table;
     assert_that (rt_len table = 2);
     table \<leftarrow> add_line parse_net (Vni 100) ''10.0.2.0/24'' ''2001:db8::3'' table;
     assert_that (rt_len table = 3);
     table \<leftarrow> add_line parse_net (Vni 200) ''10.0.1.0/24'' ''2001:db8::4'' table;
     assert_that (rt_len table = 4) }"

definition test_multiple_next_hops_per_destination :: "parse_net \<Rightarrow> test" where
  "test_multiple_next_hops_per_destination parse_net = do {
     let table = rt_new;
     let vni = Vni 100;
     dest \<leftarrow> make_dest parse_net ''10.0.1.0/24'';
     hop1 \<leftarrow> make_hop ''2001:db8::1'';
     let (_, table) = add_next_hop vni dest hop1 table;
     hop2 \<leftarrow> make_hop ''2001:db8::2'';
     let (_, table) = add_next_hop vni dest hop2 table;
     hop3 \<leftarrow> make_hop ''2001:db8::3'';
     let (_, table) = add_next_hop vni dest hop3 table;
     let dests = get_destinations_by_vni vni table;
     hops \<leftarrow> hm_get dests dest;
     assert_that (length hops = 3);
     let routes = get_routes_by_vni vni table;
     assert_that (length routes = 3) }"

definition test_cleanup_on_removal :: "parse_net \<Rightarrow> test" where
  "test_cleanup_on_removal parse_net = do {
     let table = rt_new;
     let vni = Vni 100;
     dest \<leftarrow> make_dest parse_net ''10.0.1.0/24'';
     hop \<leftarrow> make_hop ''2001:db8::1'';
     let (_, table) = add_next_hop vni dest hop table;
     assert_that (length (get_vnis table) = 1);
     let (_, table) = remove_next_hop vni dest hop table;
     assert_that (get_vnis table = []);
     assert_that (rt_is_empty table) }"

definition test_next_hop_exists_different_vni :: "parse_net \<Rightarrow> test" where
  "test_next_hop_exists_different_vni parse_net = do {
     let table = rt_new;
     dest \<leftarrow> make_dest parse_net ''10.0.1.0/24'';
     hop \<leftarrow> make_hop ''2001:db8::1'';
     let (_, table) = add_next_hop (Vni 100) dest hop table;
     assert_that (next_hop_exists (Vni 100) dest hop table);
     assert_that (\<not> next_hop_exists (Vni 200) dest hop table) }"

definition test_next_hop_exists_different_dest :: "parse_net \<Rightarrow> test" where
  "test_next_hop_exists_different_dest parse_net = do {
     let table = rt_new;
     dest1 \<leftarrow> make_dest parse_net ''10.0.1.0/24'';
     dest2 \<leftarrow> make_dest parse_net ''10.0.2.0/24'';
     hop \<leftarrow> make_hop ''2001:db8::1'';
     let (_, table) = add_next_hop (Vni 100) dest1 hop table;
     assert_that (next_hop_exists (Vni 100) dest1 hop table);
     assert_that (\<not> next_hop_exists (Vni 100) dest2 hop table) }"

definition test_next_hop_exists_different_hop :: "parse_net \<Rightarrow> test" where
  "test_next_hop_exists_different_hop parse_net = do {
     let table = rt_new;
     dest \<leftarrow> make_dest parse_net ''10.0.1.0/24'';
     hop1 \<leftarrow> make_hop ''2001:db8::1'';
     hop2 \<leftarrow> make_hop ''2001:db8::2'';
     let (_, table) = add_next_hop (Vni 100) dest hop1 table;
     assert_that (next_hop_exists (Vni 100) dest hop1 table);
     assert_that (\<not> next_hop_exists (Vni 100) dest hop2 table) }"

definition table_tests :: "parse_net \<Rightarrow> test list" where
  "table_tests parse_net =
     [test_route_table_new, test_route_table_default, test_add_and_check parse_net, test_remove parse_net,
      test_remove_nonexistent parse_net, test_remove_wrong_vni parse_net, test_get_routes parse_net,
      test_get_routes_empty_vni, test_get_destinations_by_vni parse_net, test_get_vnis parse_net,
      test_get_all_routes parse_net, test_remove_vni parse_net, test_remove_vni_nonexistent parse_net,
      test_clear parse_net, test_len parse_net, test_multiple_next_hops_per_destination parse_net,
      test_cleanup_on_removal parse_net, test_next_hop_exists_different_vni parse_net,
      test_next_hop_exists_different_dest parse_net, test_next_hop_exists_different_hop parse_net]"

lemmas table_eval = rt_new_def add_next_hop_def remove_next_hop_def next_hop_exists_def get_vnis_def
  get_destinations_by_vni_def get_routes_by_vni_def get_all_routes_def remove_vni_def rt_clear_def rt_len_def
  rt_is_empty_def hm_or_default_def hm_get_def hm_insert_def hm_remove_def hm_keys_def hs_insert_def hs_remove_def

lemma add_line_eval:
  "make_dest parse_net pfx = Some d \<Longrightarrow> make_hop addr = Some h \<Longrightarrow>
     add_line parse_net vni pfx addr table = Some (snd (add_next_hop vni d h table))"
  by (simp add: add_line_def)

context ipnet_text
begin

lemma three_vnis_pass: "passes (test_get_vnis parse_net)"
proof -
  have "snd (add_next_hop (Vni 100) (test_net 1) (test_hop 1) rt_new) =
      \<lparr>rt_routes = [(Vni 100, [(test_net 1, [test_hop 1])])]\<rparr>"
    by (simp add: table_eval)
  moreover have "snd (add_next_hop (Vni 200) (test_net 2) (test_hop 2)
        \<lparr>rt_routes = [(Vni 100, [(test_net 1, [test_hop 1])])]\<rparr>) =
      \<lparr>rt_routes = [(Vni 100, [(test_net 1, [test_hop 1])]), (Vni 200, [(test_net 2, [test_hop 2])])]\<rparr>"
    by (simp add: table_eval)
  moreover have "snd (add_next_hop (Vni 100) (test_net 3) (test_hop 3)
        \<lparr>rt_routes = [(Vni 100, [(test_net 1, [test_hop 1])]), (Vni 200, [(test_net 2, [test_hop 2])])]\<rparr>) =
      \<lparr>rt_routes = [(Vni 100, [(test_net 1, [test_hop 1]), (test_net 3, [test_hop 3])]),
        (Vni 200, [(test_net 2, [test_hop 2])])]\<rparr>"
    by (simp add: table_eval)
  ultimately show ?thesis
    by (simp add: tests test_get_vnis_def make_dests make_hops add_line_eval get_vnis_def hm_keys_def)
qed

lemma length_test_passes: "passes (test_len parse_net)"
proof -
  let ?one = "\<lparr>rt_routes = [(Vni 100, [(test_net 1, [test_hop 1])])]\<rparr>"
  let ?two = "\<lparr>rt_routes = [(Vni 100, [(test_net 1, [test_hop 1, test_hop 2])])]\<rparr>"
  let ?three = "\<lparr>rt_routes = [(Vni 100, [(test_net 1, [test_hop 1, test_hop 2]), (test_net 2, [test_hop 3])])]\<rparr>"
  let ?four = "\<lparr>rt_routes = [(Vni 100, [(test_net 1, [test_hop 1, test_hop 2]), (test_net 2, [test_hop 3])]),
    (Vni 200, [(test_net 1, [test_hop 4])])]\<rparr>"
  have "snd (add_next_hop (Vni 100) (test_net 1) (test_hop 1) rt_new) = ?one" by (simp add: table_eval)
  moreover have "snd (add_next_hop (Vni 100) (test_net 1) (test_hop 2) ?one) = ?two" by (simp add: table_eval)
  moreover have "snd (add_next_hop (Vni 100) (test_net 2) (test_hop 3) ?two) = ?three" by (simp add: table_eval)
  moreover have "snd (add_next_hop (Vni 200) (test_net 1) (test_hop 4) ?three) = ?four" by (simp add: table_eval)
  moreover have "rt_len rt_new = 0" "rt_len ?one = 1" "rt_len ?two = 2" "rt_len ?three = 3" "rt_len ?four = 4"
    by (simp_all add: rt_len_def rt_new_def)
  ultimately show ?thesis
    by (simp add: tests test_len_def make_dests make_hops add_line_eval del: One_nat_def)
qed

lemma remove_vni_passes: "passes (test_remove_vni parse_net)"
proof -
  let ?one = "\<lparr>rt_routes = [(Vni 100, [(test_net 1, [test_hop 1])])]\<rparr>"
  let ?two = "\<lparr>rt_routes = [(Vni 100, [(test_net 1, [test_hop 1]), (test_net 2, [test_hop 2])])]\<rparr>"
  let ?three = "\<lparr>rt_routes = [(Vni 100, [(test_net 1, [test_hop 1]), (test_net 2, [test_hop 2])]),
    (Vni 200, [(test_net 3, [test_hop 3])])]\<rparr>"
  have "snd (add_next_hop (Vni 100) (test_net 1) (test_hop 1) rt_new) = ?one" by (simp add: table_eval)
  moreover have "snd (add_next_hop (Vni 100) (test_net 2) (test_hop 2) ?one) = ?two" by (simp add: table_eval)
  moreover have "snd (add_next_hop (Vni 200) (test_net 3) (test_hop 3) ?two) = ?three" by (simp add: table_eval)
  moreover have "remove_vni (Vni 100) ?three =
      ([route_new (test_net 1) (test_hop 1), route_new (test_net 2) (test_hop 2)],
       \<lparr>rt_routes = [(Vni 200, [(test_net 3, [test_hop 3])])]\<rparr>)"
    by (simp add: table_eval)
  ultimately show ?thesis
    by (simp add: tests test_remove_vni_def make_dests make_hops add_line_eval rt_len_def get_vnis_def hm_keys_def)
qed

lemma table_tests_pass: "list_all passes (table_tests parse_net)"
proof -
  note eval = tests make_dests make_hops add_line_eval table_eval
  have "passes test_route_table_new" "passes test_route_table_default" "passes test_get_routes_empty_vni"
    by (simp_all add: eval test_route_table_new_def test_route_table_default_def test_get_routes_empty_vni_def)
  moreover have "passes (test_add_and_check parse_net)"
    "passes (test_remove parse_net)"
    "passes (test_remove_nonexistent parse_net)"
    "passes (test_remove_wrong_vni parse_net)"
    by (simp_all add: eval test_add_and_check_def test_remove_def test_remove_nonexistent_def test_remove_wrong_vni_def)
  moreover have "passes (test_get_routes parse_net)"
    "passes (test_get_destinations_by_vni parse_net)"
    "passes (test_get_all_routes parse_net)"
    by (simp_all add: eval test_get_routes_def test_get_destinations_by_vni_def test_get_all_routes_def)
  moreover have "passes (test_remove_vni_nonexistent parse_net)"
    "passes (test_clear parse_net)"
    by (simp_all add: eval test_remove_vni_nonexistent_def test_clear_def)
  moreover have "passes (test_multiple_next_hops_per_destination parse_net)"
    "passes (test_cleanup_on_removal parse_net)"
    by (simp_all add: eval test_multiple_next_hops_per_destination_def test_cleanup_on_removal_def)
  moreover have "passes (test_next_hop_exists_different_vni parse_net)"
    "passes (test_next_hop_exists_different_dest parse_net)"
    "passes (test_next_hop_exists_different_hop parse_net)"
    by (simp_all add: eval test_next_hop_exists_different_vni_def test_next_hop_exists_different_dest_def test_next_hop_exists_different_hop_def)
  ultimately show ?thesis using three_vnis_pass length_test_passes remove_vni_passes by (simp add: table_tests_def)
qed

end


section \<open>The origin tracker\<close>

definition test_server_id_display :: test where
  "test_server_id_display = do {
     assert_that (server_id_display (ServerId 0) = ''server-0'');
     assert_that (server_id_display (ServerId 5) = ''server-5'') }"

definition test_server_id_equality :: test where
  "test_server_id_equality = do {
     assert_that (ServerId 1 = ServerId 1);
     assert_that (ServerId 1 \<noteq> ServerId 2) }"

definition test_server_id_hash :: test where
  "test_server_id_hash = do {
     let set = [];
     let set = hs_insert (ServerId 1) set;
     let set = hs_insert (ServerId 1) set;
     let set = hs_insert (ServerId 2) set;
     assert_that (length set = 2) }"

definition test_first_add_returns_true :: "parse_net \<Rightarrow> test" where
  "test_first_add_returns_true parse_net = do {
     let tracker = [];
     let vni = Vni 100;
     dest \<leftarrow> make_dest parse_net ''10.0.1.0/24'';
     hop \<leftarrow> make_hop ''2001:db8::1'';
     let (first, _) = add_origin vni dest hop (ServerId 0) tracker;
     assert_that first }"

definition test_second_add_returns_false :: "parse_net \<Rightarrow> test" where
  "test_second_add_returns_false parse_net = do {
     let tracker = [];
     let vni = Vni 100;
     dest \<leftarrow> make_dest parse_net ''10.0.1.0/24'';
     hop \<leftarrow> make_hop ''2001:db8::1'';
     let (first, tracker) = add_origin vni dest hop (ServerId 0) tracker;
     assert_that first;
     let (first, _) = add_origin vni dest hop (ServerId 1) tracker;
     assert_that (\<not> first) }"

definition test_different_hop_is_new_route :: "parse_net \<Rightarrow> test" where
  "test_different_hop_is_new_route parse_net = do {
     let tracker = [];
     let vni = Vni 100;
     dest \<leftarrow> make_dest parse_net ''10.0.1.0/24'';
     hop1 \<leftarrow> make_hop ''2001:db8::1'';
     hop2 \<leftarrow> make_hop ''2001:db8::2'';
     let (first, tracker) = add_origin vni dest hop1 (ServerId 0) tracker;
     assert_that first;
     let (first, _) = add_origin vni dest hop2 (ServerId 0) tracker;
     assert_that first }"

definition test_remove_not_last_returns_false :: "parse_net \<Rightarrow> test" where
  "test_remove_not_last_returns_false parse_net = do {
     let tracker = [];
     let vni = Vni 100;
     dest \<leftarrow> make_dest parse_net ''10.0.1.0/24'';
     hop \<leftarrow> make_hop ''2001:db8::1'';
     let (_, tracker) = add_origin vni dest hop (ServerId 0) tracker;
     let (_, tracker) = add_origin vni dest hop (ServerId 1) tracker;
     let (last, _) = remove_origin vni dest hop (ServerId 0) tracker;
     assert_that (\<not> last) }"

definition test_remove_last_returns_true :: "parse_net \<Rightarrow> test" where
  "test_remove_last_returns_true parse_net = do {
     let tracker = [];
     let vni = Vni 100;
     dest \<leftarrow> make_dest parse_net ''10.0.1.0/24'';
     hop \<leftarrow> make_hop ''2001:db8::1'';
     let (_, tracker) = add_origin vni dest hop (ServerId 0) tracker;
     let (_, tracker) = add_origin vni dest hop (ServerId 1) tracker;
     let (_, tracker) = remove_origin vni dest hop (ServerId 0) tracker;
     let (last, _) = remove_origin vni dest hop (ServerId 1) tracker;
     assert_that last }"

definition test_remove_nonexistent_returns_false :: "parse_net \<Rightarrow> test" where
  "test_remove_nonexistent_returns_false parse_net = do {
     let tracker = [];
     let vni = Vni 100;
     dest \<leftarrow> make_dest parse_net ''10.0.1.0/24'';
     hop \<leftarrow> make_hop ''2001:db8::1'';
     let (last, _) = remove_origin vni dest hop (ServerId 0) tracker;
     assert_that (\<not> last) }"

definition test_remove_server_batch :: "parse_net \<Rightarrow> test" where
  "test_remove_server_batch parse_net = do {
     let tracker = [];
     dest1 \<leftarrow> make_dest parse_net ''10.0.1.0/24'';
     dest2 \<leftarrow> make_dest parse_net ''10.0.2.0/24'';
     hop1 \<leftarrow> make_hop ''2001:db8::1'';
     hop2 \<leftarrow> make_hop ''2001:db8::2'';
     let (_, tracker) = add_origin (Vni 100) dest1 hop1 (ServerId 0) tracker;
     let (_, tracker) = add_origin (Vni 100) dest1 hop1 (ServerId 1) tracker;
     let (_, tracker) = add_origin (Vni 100) dest2 hop2 (ServerId 0) tracker;
     assert_that (origins_len tracker = 2);
     let (removed, tracker) = remove_server (ServerId 0) tracker;
     assert_that (length removed = 1);
     assert_that (removed ! 0 = (Vni 100, dest2, hop2));
     assert_that (origins_len tracker = 1) }"

definition test_get_servers :: "parse_net \<Rightarrow> test" where
  "test_get_servers parse_net = do {
     let tracker = [];
     let vni = Vni 100;
     dest \<leftarrow> make_dest parse_net ''10.0.1.0/24'';
     hop \<leftarrow> make_hop ''2001:db8::1'';
     assert_that (get_servers vni dest hop tracker = None);
     let (_, tracker) = add_origin vni dest hop (ServerId 0) tracker;
     let (_, tracker) = add_origin vni dest hop (ServerId 2) tracker;
     servers \<leftarrow> get_servers vni dest hop tracker;
     assert_that (length servers = 2);
     assert_that (ServerId 0 \<in> set servers);
     assert_that (ServerId 2 \<in> set servers) }"

definition test_len_and_is_empty :: "parse_net \<Rightarrow> test" where
  "test_len_and_is_empty parse_net = do {
     let tracker = [];
     assert_that (origins_is_empty tracker);
     assert_that (origins_len tracker = 0);
     dest \<leftarrow> make_dest parse_net ''10.0.1.0/24'';
     hop \<leftarrow> make_hop ''2001:db8::1'';
     let (_, tracker) = add_origin (Vni 100) dest hop (ServerId 0) tracker;
     assert_that (\<not> origins_is_empty tracker);
     assert_that (origins_len tracker = 1) }"

text \<open>
  The body of thread \<open>i\<close>, and the ten of them in the order in which they take the lock. A
  panic in a thread is one of the test, which unwraps the result of \<open>join\<close>.
\<close>

definition tracker_thread :: "parse_net \<Rightarrow> nat \<Rightarrow> origins \<Rightarrow> origins option" where
  "tracker_thread parse_net i tracker = do {
     dest \<leftarrow> make_dest parse_net (''10.0.'' @ show_nat i @ ''.0/24'');
     hop \<leftarrow> make_hop (''2001:db8::'' @ show_hex i);
     Some (snd (add_origin (Vni 100) dest hop (ServerId i) tracker)) }"

fun run_threads :: "parse_net \<Rightarrow> nat list \<Rightarrow> origins \<Rightarrow> origins option" where
  "run_threads parse_net [] tracker = Some tracker"
| "run_threads parse_net (i # order) tracker = do {
     tracker \<leftarrow> tracker_thread parse_net i tracker;
     run_threads parse_net order tracker }"

definition test_thread_safety :: "parse_net \<Rightarrow> nat list \<Rightarrow> test" where
  "test_thread_safety parse_net order = do {
     tracker \<leftarrow> run_threads parse_net order [];
     assert_that (origins_len tracker = 10) }"

definition tracker_tests :: "parse_net \<Rightarrow> test list" where
  "tracker_tests parse_net =
     [test_server_id_display, test_server_id_equality, test_server_id_hash, test_first_add_returns_true parse_net,
      test_second_add_returns_false parse_net, test_different_hop_is_new_route parse_net,
      test_remove_not_last_returns_false parse_net, test_remove_last_returns_true parse_net,
      test_remove_nonexistent_returns_false parse_net, test_remove_server_batch parse_net,
      test_get_servers parse_net, test_len_and_is_empty parse_net]"

lemmas tracker_eval = add_origin_def remove_origin_def remove_server_def origins_len_def origins_is_empty_def
  get_servers_def hm_or_default_def hm_get_def hm_insert_def hm_remove_def hs_insert_def hs_remove_def

text \<open>A thread whose route is new adds an entry.\<close>

lemma add_origin_keys:
  "set (map fst (snd (add_origin v d h s t))) = insert (v, d, h) (set (map fst t))"
  "length (snd (add_origin v d h s t)) = (if (v, d, h) \<in> set (map fst t) then length t else Suc (length t))"
proof -
  have "(v, d, h) \<in> set (map fst t) \<longleftrightarrow> hm_get t (v, d, h) \<noteq> None" by (simp add: hm_get_def map_of_eq_None_iff)
  then show "length (snd (add_origin v d h s t)) = (if (v, d, h) \<in> set (map fst t) then length t else Suc (length t))"
    by (auto simp: add_origin_def Let_def length_hm_insert split: option.splits)
qed (force simp: add_origin_def Let_def hm_insert_def dom_update)

context ipnet_text
begin

lemma tracker_thread_eval:
  assumes "i < 256"
  shows "tracker_thread parse_net i t =
    Some (snd (add_origin (Vni 100) (test_net (of_nat i)) (test_hop (of_nat i)) (ServerId i) t))"
proof -
  have "unat (of_nat i :: u8) = i" "unat (of_nat i :: u16) = i" using assms by (simp_all add: unat_of_nat)
  then show ?thesis using make_test_net [of "of_nat i"] make_test_hop [of "of_nat i"] by (simp add: tracker_thread_def)
qed

lemma run_threads_length:
  assumes "distinct order" and "\<forall>i \<in> set order. i < 256"
    and "\<forall>i \<in> set order. (Vni 100, test_net (of_nat i), test_hop (of_nat i)) \<notin> set (map fst t)"
  shows "\<exists>t'. run_threads parse_net order t = Some t' \<and> length t' = length t + length order"
  using assms
proof (induction order arbitrary: t)
  case (Cons i order)
  let ?t = "snd (add_origin (Vni 100) (test_net (of_nat i)) (test_hop (of_nat i)) (ServerId i) t)"
  have "(of_nat j :: u8) \<noteq> of_nat i" if "j \<in> set order" for j
    using that Cons.prems(1,2) by (auto simp: word_unat_eq_iff unat_of_nat)
  then have "\<forall>j \<in> set order. (Vni 100, test_net (of_nat j), test_hop (of_nat j)) \<notin> set (map fst ?t)"
    using Cons.prems(3) by (auto simp only: add_origin_keys test_net_inj insert_iff prod.inject list.set_intros)
  with Cons.IH [of ?t] Cons.prems show ?case by (auto simp: tracker_thread_eval add_origin_keys)
qed simp

text \<open>The test of thread safety passes whatever the order.\<close>

lemma thread_safety_passes:
  assumes "distinct order" and "set order = {0..<10}"
  shows "passes (test_thread_safety parse_net order)"
proof -
  have "length order = 10" using assms distinct_card [of order] by simp
  then show ?thesis
    using run_threads_length [of order "[]"] assms by (auto simp: test_thread_safety_def origins_len_def tests)
qed

lemma tracker_tests_pass: "list_all passes (tracker_tests parse_net)"
proof -
  note eval = tests make_dests make_hops tracker_eval
  have "passes test_server_id_display" "passes test_server_id_equality" "passes test_server_id_hash"
    by (simp_all add: eval test_server_id_display_def test_server_id_equality_def test_server_id_hash_def
        server_id_display_def show_nat.simps)
  moreover have "passes (test_first_add_returns_true parse_net)" "passes (test_second_add_returns_false parse_net)"
    "passes (test_different_hop_is_new_route parse_net)" "passes (test_remove_nonexistent_returns_false parse_net)"
    by (simp_all add: eval test_first_add_returns_true_def test_second_add_returns_false_def
        test_different_hop_is_new_route_def test_remove_nonexistent_returns_false_def)
  moreover have "passes (test_remove_not_last_returns_false parse_net)" "passes (test_remove_last_returns_true parse_net)"
    by (simp_all add: eval test_remove_not_last_returns_false_def test_remove_last_returns_true_def)
  moreover have "passes (test_get_servers parse_net)" "passes (test_len_and_is_empty parse_net)"
    by (simp_all add: eval test_get_servers_def test_len_and_is_empty_def)
  moreover have "passes (test_remove_server_batch parse_net)"
    by (simp add: eval hm_map_values_def hm_retain_def test_remove_server_batch_def)
  ultimately show ?thesis by (simp add: tracker_tests_def)
qed

end

end
