(* ===== verification/Test_Suite.thy ===== *)
theory Test_Suite
  imports Wire_Tests Table_Tests
begin

text \<open>
  The whole suite of unit tests of the crate: those of \<open>src/src/types.rs\<close>, \<open>src/src/wire.rs\<close>,
  \<open>src/src/route.rs\<close> and \<open>src/src/client.rs\<close>. The test of thread safety stands apart, since it
  has an outcome for every order of its threads.
\<close>

definition types_tests :: "net_new \<Rightarrow> show_net \<Rightarrow> parse_net \<Rightarrow> test list" where
  "types_tests net_new show_net parse_net = enum_tests @ destination_tests net_new show_net parse_net @ next_hop_tests"

definition unit_tests :: "externals \<Rightarrow> show_net \<Rightarrow> parse_net \<Rightarrow> test list" where
  "unit_tests x show_net parse_net =
     types_tests (ext_net_new x) show_net parse_net @ wire_tests x show_net @
     route_tests parse_net show_net @ table_tests parse_net @ tracker_tests parse_net"



end
