(* ===== verification/Load_Generator.thy ===== *)
theory Load_Generator
  imports Unit_Tests Handler_Calls Client_Program
begin

text \<open>
  The load generator (\<open>src/examples/stress_test.rs\<close>): clients that announce and withdraw routes
  as fast as they can, and counters they all share. A worker is a state machine over the model
  of the client with a phase for each place where other tasks may move in between; the shared
  state is passed from one step to the next. What the program prints is left out: its rates are
  floating point numbers, which the model does not have. The pauses of the rate limit change
  nothing but the time.
\<close>

section \<open>The shared state\<close>

type_synonym usize = "64 word"

record test_state =
  gs_start_signal :: bool
  gs_stop_signal :: bool
  gs_ready_count :: usize
  gs_sent_announces :: usize
  gs_sent_withdraws :: usize
  gs_received_adds :: usize
  gs_received_removes :: usize
  gs_total_errors :: usize

definition test_state_new :: test_state where
  "test_state_new = \<lparr>gs_start_signal = False, gs_stop_signal = False, gs_ready_count = 0, gs_sent_announces = 0,
     gs_sent_withdraws = 0, gs_received_adds = 0, gs_received_removes = 0, gs_total_errors = 0\<rparr>"

definition mark_ready :: "test_state \<Rightarrow> test_state" where
  "mark_ready st = st\<lparr>gs_ready_count := gs_ready_count st + 1\<rparr>"

definition signal_start :: "test_state \<Rightarrow> test_state" where
  "signal_start st = st\<lparr>gs_start_signal := True\<rparr>"

definition signal_stop :: "test_state \<Rightarrow> test_state" where
  "signal_stop st = st\<lparr>gs_stop_signal := True\<rparr>"

definition record_announce :: "test_state \<Rightarrow> test_state" where
  "record_announce st = st\<lparr>gs_sent_announces := gs_sent_announces st + 1\<rparr>"

definition record_withdraw :: "test_state \<Rightarrow> test_state" where
  "record_withdraw st = st\<lparr>gs_sent_withdraws := gs_sent_withdraws st + 1\<rparr>"

definition record_received_add :: "test_state \<Rightarrow> test_state" where
  "record_received_add st = st\<lparr>gs_received_adds := gs_received_adds st + 1\<rparr>"

definition record_received_remove :: "test_state \<Rightarrow> test_state" where
  "record_received_remove st = st\<lparr>gs_received_removes := gs_received_removes st + 1\<rparr>"

definition record_error :: "test_state \<Rightarrow> test_state" where
  "record_error st = st\<lparr>gs_total_errors := gs_total_errors st + 1\<rparr>"

lemmas counter_defs = mark_ready_def signal_start_def signal_stop_def record_announce_def record_withdraw_def
  record_received_add_def record_received_remove_def record_error_def

definition counting_handler :: "test_state route_handler" where
  "counting_handler = \<lparr>rh_add_route = (\<lambda>_ _. record_received_add), rh_remove_route = (\<lambda>_ _. record_received_remove)\<rparr>"

section \<open>The routes of a client\<close>

definition DESTINATIONS_PER_CLIENT :: nat where "DESTINATIONS_PER_CLIENT = 65536"

text \<open>\<open>None\<close> is the panic of the \<open>unwrap\<close>.\<close>

definition make_destination :: "parse_net \<Rightarrow> nat \<Rightarrow> nat \<Rightarrow> destination option" where
  "make_destination parse_net client_id route_idx =
     (let idx = route_idx mod DESTINATIONS_PER_CLIENT;
          b1 = of_nat client_id :: u8;
          b2 = of_nat (drop_bit 8 idx) :: u8;
          b3 = of_nat (idx AND 0xFF) :: u8;
          pfx = ''10.'' @ show_nat (unat b1) @ ''.'' @ show_nat (unat b2) @ ''.'' @ show_nat (unat b3) @ ''/32''
      in map_option destination_new (unwrap (parse_net pfx)))"

definition make_next_hop :: "nat \<Rightarrow> next_hop" where
  "make_next_hop client_id = next_hop_standard (ipv6_new 0x2001 0xdb8 0 0 0 0 0 (of_nat client_id))"

section \<open>Workers\<close>

record load_args =
  la_clients :: nat
  la_batch_size :: nat
  la_port :: u16
  la_vni :: u32

record gen_config =
  gc_server_addr :: string
  gc_vni :: vni
  gc_batch_size :: nat

definition gen_config_of :: "load_args \<Rightarrow> gen_config" where
  "gen_config_of args =
     \<lparr>gc_server_addr = ''[::1]:'' @ show_nat (unat (la_port args)), gc_vni = Vni (la_vni args),
      gc_batch_size = la_batch_size args\<rparr>"

text \<open>
  The places where a worker waits: for the connection, for its subscription, for the start, at
  the head of the outer loop, in the batch with a number of announcements to go, in the loop
  over the drained announcements, in the pause at the end.
\<close>

datatype worker_phase =
  WkConnects | WkSubscribes | WkWaits | WkRound | WkAnnounces nat | WkWithdraws "destination list" | WkLingers
| WkReturned | WkPanicked

record worker =
  wk_client :: "test_state client"
  wk_phase :: worker_phase
  wk_route_idx :: nat
  wk_announced :: "destination list"

definition worker_new :: "gen_config \<Rightarrow> test_state \<Rightarrow> worker option" where
  "worker_new cfg st =
     map_option (\<lambda>c. \<lparr>wk_client = c, wk_phase = WkConnects, wk_route_idx = 0, wk_announced = []\<rparr>)
       (client_connect [gc_server_addr cfg] st)"

text \<open>The outcome of the wait for the connection.\<close>

fun worker_connected :: "error + unit \<Rightarrow> worker \<times> test_state \<Rightarrow> worker \<times> test_state" where
  "worker_connected (Inl e) (w, st) = (w\<lparr>wk_phase := WkReturned\<rparr>, record_error st)"
| "worker_connected (Inr _) (w, st) = (w\<lparr>wk_phase := WkSubscribes\<rparr>, st)"

text \<open>One announcement and one withdrawal, with what is recorded of them.\<close>

definition worker_announce :: "gen_config \<Rightarrow> nat \<Rightarrow> destination \<Rightarrow> worker \<times> test_state \<Rightarrow> worker \<times> test_state" where
  "worker_announce cfg client_id dest ws =
     (let (w, st) = ws in
      case client_announce (gc_vni cfg) dest (make_next_hop client_id) (wk_client w) of
        (Inr _, c) \<Rightarrow> (w\<lparr>wk_client := c, wk_announced := wk_announced w @ [dest]\<rparr>, record_announce st)
      | (Inl e, c) \<Rightarrow> (w\<lparr>wk_client := c\<rparr>, record_error st))"

definition worker_withdraw :: "gen_config \<Rightarrow> nat \<Rightarrow> destination \<Rightarrow> worker \<times> test_state \<Rightarrow> worker \<times> test_state" where
  "worker_withdraw cfg client_id dest ws =
     (let (w, st) = ws in
      case client_withdraw (gc_vni cfg) dest (make_next_hop client_id) (wk_client w) of
        (Inr _, c) \<Rightarrow> (w\<lparr>wk_client := c\<rparr>, record_withdraw st)
      | (Inl e, c) \<Rightarrow> (w\<lparr>wk_client := c\<rparr>, record_error st))"

text \<open>
  The loop over \<open>announced.drain(..)\<close> begins: the vector is empty from then on, and what the
  loop has not taken when it breaks is dropped.
\<close>

definition start_withdrawals :: "worker \<Rightarrow> worker" where
  "start_withdrawals w = w\<lparr>wk_phase := WkWithdraws (wk_announced w), wk_announced := []\<rparr>"

text \<open>One piece of \<open>run_client\<close>, from one phase to the next; \<open>None\<close> while it has to wait.\<close>

fun worker_piece :: "parse_net \<Rightarrow> gen_config \<Rightarrow> nat \<Rightarrow> worker_phase \<Rightarrow> worker \<times> test_state \<Rightarrow> (worker \<times> test_state) option" where
  "worker_piece parse_net cfg client_id WkConnects (w, st) =
     map_option (\<lambda>result. worker_connected result (w, st)) (wait_any_established (observed_states (wk_client w)) [])"
| "worker_piece parse_net cfg client_id WkSubscribes (w, st) =
     (case client_subscribe (gc_vni cfg) (wk_client w) of
        (Inl e, c) \<Rightarrow> Some (w\<lparr>wk_client := c, wk_phase := WkReturned\<rparr>, record_error st)
      | (Inr _, c) \<Rightarrow> Some (w\<lparr>wk_client := c, wk_phase := WkWaits\<rparr>, mark_ready st))"
| "worker_piece parse_net cfg client_id WkWaits (w, st) =
     (if gs_start_signal st then Some (w\<lparr>wk_route_idx := 0, wk_announced := [], wk_phase := WkRound\<rparr>, st) else None)"
| "worker_piece parse_net cfg client_id WkRound (w, st) =
     Some (w\<lparr>wk_phase := if gs_stop_signal st then WkLingers else WkAnnounces (gc_batch_size cfg)\<rparr>, st)"
| "worker_piece parse_net cfg client_id (WkAnnounces 0) (w, st) = Some (start_withdrawals w, st)"
| "worker_piece parse_net cfg client_id (WkAnnounces (Suc n)) (w, st) =
     (if gs_stop_signal st then Some (start_withdrawals w, st)
      else
        case make_destination parse_net client_id (wk_route_idx w) of
          None \<Rightarrow> Some (w\<lparr>wk_phase := WkPanicked\<rparr>, st)
        | Some dest \<Rightarrow>
            Some (worker_announce cfg client_id dest
              (w\<lparr>wk_route_idx := (wk_route_idx w + 1) mod DESTINATIONS_PER_CLIENT, wk_phase := WkAnnounces n\<rparr>, st)))"
| "worker_piece parse_net cfg client_id (WkWithdraws []) (w, st) = Some (w\<lparr>wk_phase := WkRound\<rparr>, st)"
| "worker_piece parse_net cfg client_id (WkWithdraws (dest # dests)) (w, st) =
     (if gs_stop_signal st then Some (w\<lparr>wk_phase := WkRound\<rparr>, st)
      else Some (worker_withdraw cfg client_id dest (w\<lparr>wk_phase := WkWithdraws dests\<rparr>, st)))"
| "worker_piece parse_net cfg client_id WkLingers (w, st) = Some (w\<lparr>wk_phase := WkReturned\<rparr>, st)"
| "worker_piece parse_net cfg client_id WkReturned (w, st) = None"
| "worker_piece parse_net cfg client_id WkPanicked (w, st) = None"

text \<open>A task of the worker's client moves; its handler acts on the shared state.\<close>

definition worker_task :: "externals \<Rightarrow> server_id \<Rightarrow> peer_event \<Rightarrow> worker \<times> test_state \<Rightarrow> (worker \<times> test_state) option" where
  "worker_task x s ev ws =
     (let (w, st) = ws in
      map_option (\<lambda>c. (w\<lparr>wk_client := c\<rparr>, cs_world (cl_shared c)))
        (client_peer_step x counting_handler s ev (client_world (\<lambda>_. st) (wk_client w))))"

section \<open>The program\<close>

datatype load_phase = LgConnects | LgMeasures | LgDrains | LgReturned "string + unit"

record load_test =
  lt_state :: test_state
  lt_workers :: "worker list"
  lt_main :: load_phase

text \<open>\<open>main\<close> up to the wait for the connections, once the server has started.\<close>

definition load_main :: "load_args \<Rightarrow> load_test option" where
  "load_main args =
     map_option (\<lambda>w. \<lparr>lt_state = test_state_new, lt_workers = replicate (la_clients args) w, lt_main = LgConnects\<rparr>)
       (worker_new (gen_config_of args) test_state_new)"

text \<open>
  What may happen: a worker proceeds, its wait for the connection has timed out, a task of its
  client moves; \<open>main\<close> looks at the number of workers that are ready, with the time up or not,
  the measurement is over, the pause after it is over.
\<close>

datatype load_event =
  WorkerMoves nat | WorkerTimeUp nat | WorkerTask nat server_id peer_event | MainPolls bool | MeasureOver | DrainOver

definition on_worker :: "nat \<Rightarrow> (worker \<times> test_state \<Rightarrow> (worker \<times> test_state) option) \<Rightarrow> load_test \<Rightarrow> load_test option" where
  "on_worker i f lt =
     (if i < length (lt_workers lt) then
        map_option (\<lambda>(w, st). lt\<lparr>lt_workers := (lt_workers lt)[i := w], lt_state := st\<rparr>)
          (f (lt_workers lt ! i, lt_state lt))
      else None)"

text \<open>The timeout of a worker's wait.\<close>

definition worker_time_up :: "worker \<times> test_state \<Rightarrow> (worker \<times> test_state) option" where
  "worker_time_up ws =
     (if wk_phase (fst ws) = WkConnects
      then Some (worker_connected (wait_established_timeout (observed_states (wk_client (fst ws))) []) ws) else None)"

fun load_moves :: "externals \<Rightarrow> parse_net \<Rightarrow> gen_config \<Rightarrow> load_event \<Rightarrow> load_test \<Rightarrow> load_test option" where
  "load_moves x parse_net cfg (WorkerMoves i) lt =
     on_worker i (\<lambda>ws. worker_piece parse_net cfg i (wk_phase (fst ws)) ws) lt"
| "load_moves x parse_net cfg (WorkerTimeUp i) lt = on_worker i worker_time_up lt"
| "load_moves x parse_net cfg (WorkerTask i s ev) lt = on_worker i (worker_task x s ev) lt"
| "load_moves x parse_net cfg (MainPolls time_up) lt =
     (if lt_main lt = LgConnects then
        if gs_ready_count (lt_state lt) < of_nat (length (lt_workers lt)) then
          if time_up then Some (lt\<lparr>lt_state := signal_stop (lt_state lt), lt_main := LgReturned (Inl ''Connection timeout'')\<rparr>)
          else Some lt
        else Some (lt\<lparr>lt_state := signal_start (lt_state lt), lt_main := LgMeasures\<rparr>)
      else None)"
| "load_moves x parse_net cfg MeasureOver lt =
     (if lt_main lt = LgMeasures then Some (lt\<lparr>lt_state := signal_stop (lt_state lt), lt_main := LgDrains\<rparr>) else None)"
| "load_moves x parse_net cfg DrainOver lt =
     (if lt_main lt = LgDrains then Some (lt\<lparr>lt_main := LgReturned (Inr ())\<rparr>) else None)"

text \<open>The end of \<open>main\<close> ends the process.\<close>

definition load_step :: "externals \<Rightarrow> parse_net \<Rightarrow> gen_config \<Rightarrow> load_event \<Rightarrow> load_test \<Rightarrow> load_test option" where
  "load_step x parse_net cfg e lt =
     (case lt_main lt of LgReturned _ \<Rightarrow> None | _ \<Rightarrow> load_moves x parse_net cfg e lt)"

fun load_run :: "externals \<Rightarrow> parse_net \<Rightarrow> gen_config \<Rightarrow> load_event list \<Rightarrow> load_test \<Rightarrow> load_test option" where
  "load_run x parse_net cfg [] lt = Some lt"
| "load_run x parse_net cfg (e # es) lt = Option.bind (load_step x parse_net cfg e lt) (load_run x parse_net cfg es)"

end
