(* ===== verification/Load_Properties.thy ===== *)
theory Load_Properties
  imports Load_Generator Program_Properties
begin

text \<open>
  The accounts of the load generator: what its counters say of the routes its clients have
  announced and of those their handlers were told of, and how its workers end.
\<close>

section \<open>What a handler does to its world\<close>

text \<open>A task acts on the world of its handler through calls alone.\<close>

lemma peer_step_world:
  assumes "peer_step x h e t = Some t'"
  shows "\<exists>calls. pt_world t' = fold (called h) calls (pt_world t)"
proof -
  let ?f = "\<lambda>cs. fold (called h) cs (pt_world t)" and ?t = "map_task (\<lambda>_. []) t :: handler_call list peer_task"
  have same: "map_task ?f ?t = t" by (simp add: map_task_def)
  have "map_option (map_task ?f) (peer_step x recording_handler e ?t) = Some t'"
    using replay.map_step [where x = x and h = h and w = "pt_world t" and e = e and t = ?t] assms unfolding same by simp
  then show ?thesis by auto
qed

lemma client_peer_step_world:
  assumes "client_peer_step x h s e c = Some c'"
  shows "cl_announced c' = cl_announced c \<and> (\<exists>calls. cl_shared c' = fold (called (dedup_handler h s)) calls (cl_shared c))"
  using assms by (auto simp: client_peer_step_def split: bind_splits if_splits dest!: peer_step_world)

text \<open>The counters of the handler follow the number of routes the tracker knows; it moves no other.\<close>

definition balance :: "test_state client_shared \<Rightarrow> usize" where
  "balance sh = gs_received_adds (cs_world sh) - gs_received_removes (cs_world sh) - of_nat (origins_len (cs_origins sh))"

definition same_other_counters :: "test_state \<Rightarrow> test_state \<Rightarrow> bool" where
  "same_other_counters st st' \<longleftrightarrow> gs_sent_announces st' = gs_sent_announces st \<and> gs_sent_withdraws st' = gs_sent_withdraws st \<and>
     gs_total_errors st' = gs_total_errors st \<and> gs_start_signal st' = gs_start_signal st \<and> gs_stop_signal st' = gs_stop_signal st \<and>
     gs_ready_count st' = gs_ready_count st"

lemma add_origin_len:
  assumes "origins_wf inner" and "add_origin v d h s inner = (first, inner')"
  shows "origins_wf inner'" and "origins_len inner' = (if first then Suc (origins_len inner) else origins_len inner)"
proof -
  show wf: "origins_wf inner'" using add_origin_wf [OF assms(1), of v d h s] assms(2) by simp
  have "first \<longleftrightarrow> hm_get inner (v, d, h) = None"
    using add_origin_first [OF assms(1), of v d h s] assms known_routes_iff [of inner "(v, d, h)"] by simp
  moreover have "\<exists>ss. inner' = hm_insert (v, d, h) ss inner" using assms(2) by (auto simp: add_origin_def Let_def)
  ultimately show "origins_len inner' = (if first then Suc (origins_len inner) else origins_len inner)"
    by (auto simp: origins_len_def length_hm_insert split: option.splits)
qed

lemma remove_origin_len:
  assumes "origins_wf inner" and "remove_origin v d h s inner = (is_last, inner')"
  shows "origins_wf inner'" and "origins_len inner = (if is_last then Suc (origins_len inner') else origins_len inner')"
proof -
  show wf: "origins_wf inner'" using remove_origin_wf [OF assms(1), of v d h s] unfolding assms(2) snd_conv .
  have known: "known_routes inner' = (if is_last then known_routes inner - {(v, d, h)} else known_routes inner)"
    using known_routes_remove_origin [OF assms(1), of v d h s] unfolding assms(2) fst_conv snd_conv .
  have last: "is_last \<Longrightarrow> (v, d, h) \<in> known_routes inner"
    using remove_origin_last [OF assms(1), of v d h s] unfolding assms(2) fst_conv by blast
  have "known_routes inner \<subseteq> fst ` set inner"
  proof
    fix k assume "k \<in> known_routes inner"
    then obtain ss where "hm_get inner k = Some ss" using known_routes_iff [OF assms(1)] by blast
    then show "k \<in> fst ` set inner" using hm_get_Some_in by force
  qed
  then have fin: "finite (known_routes inner)" by (rule finite_subset) simp
  have "card (known_routes inner) = (if is_last then Suc (card (known_routes inner')) else card (known_routes inner'))"
    using card.remove [OF fin last] unfolding known by (cases is_last) simp_all
  then show "origins_len inner = (if is_last then Suc (origins_len inner') else origins_len inner')"
    unfolding origins_len_card [OF assms(1)] origins_len_card [OF wf] .
qed

lemma counted_call:
  assumes "origins_wf (cs_origins sh)"
  shows "origins_wf (cs_origins (called (dedup_handler counting_handler s) call sh)) \<and>
    balance (called (dedup_handler counting_handler s) call sh) = balance sh \<and>
    same_other_counters (cs_world sh) (cs_world (called (dedup_handler counting_handler s) call sh))"
proof (cases call)
  case (HandlerAdd v r)
  obtain first inner where "add_origin v (route_destination r) (route_next_hop r) s (cs_origins sh) = (first, inner)" by fastforce
  with add_origin_len [OF assms this] show ?thesis
    by (auto simp: HandlerAdd dedup_handler_def dedup_add_route_def counting_handler_def balance_def same_other_counters_def counter_defs)
next
  case (HandlerRemove v r)
  obtain is_last inner where "remove_origin v (route_destination r) (route_next_hop r) s (cs_origins sh) = (is_last, inner)" by fastforce
  with remove_origin_len [OF assms this] show ?thesis
    by (auto simp: HandlerRemove dedup_handler_def dedup_remove_route_def counting_handler_def balance_def same_other_counters_def
        counter_defs)
qed

lemma counted_calls:
  assumes "origins_wf (cs_origins sh)"
  shows "origins_wf (cs_origins (fold (called (dedup_handler counting_handler s)) calls sh)) \<and>
    balance (fold (called (dedup_handler counting_handler s)) calls sh) = balance sh \<and>
    same_other_counters (cs_world sh) (cs_world (fold (called (dedup_handler counting_handler s)) calls sh))"
  using assms
proof (induction calls arbitrary: sh)
  case (Cons call calls)
  from counted_call [OF Cons.prems, of s call] Cons.IH [of "called (dedup_handler counting_handler s) call sh"]
  show ?case by (simp add: same_other_counters_def)
qed (simp add: same_other_counters_def)


section \<open>What one worker does\<close>

definition outstanding :: "worker \<Rightarrow> route_key set" where
  "outstanding w = rt_abs (cl_announced (wk_client w))"

text \<open>
  A worker announces routes of one VNI and one next hop. \<open>n\<close> routes announced and \<open>r\<close> routes told
  sum up with the counters: every route announced is counted as an announcement that was not
  withdrawn, or as an error.
\<close>

definition worker_ok :: "gen_config \<Rightarrow> nat \<Rightarrow> worker \<Rightarrow> bool" where
  "worker_ok cfg i w \<longleftrightarrow> rt_wf (cl_announced (wk_client w)) \<and> origins_wf (cs_origins (cl_shared (wk_client w))) \<and>
     (\<forall>v d h. (v, d, h) \<in> outstanding w \<longrightarrow> v = gc_vni cfg \<and> h = make_next_hop i)"

definition sums_up :: "test_state \<Rightarrow> nat \<Rightarrow> nat \<Rightarrow> nat \<Rightarrow> bool" where
  "sums_up st k n r \<longleftrightarrow>
     (\<exists>a w e. gs_sent_announces st = of_nat a \<and> gs_sent_withdraws st = of_nat w \<and> gs_total_errors st = of_nat e \<and>
        a \<le> w + n \<and> w + n \<le> a + e \<and> a + w + e \<le> k) \<and>
     gs_received_adds st - gs_received_removes st = of_nat r"

lemma sums_upE:
  assumes "sums_up st k n r"
  obtains a w e where "gs_sent_announces st = of_nat a" "gs_sent_withdraws st = of_nat w" "gs_total_errors st = of_nat e"
    "a \<le> w + n" "w + n \<le> a + e" "a + w + e \<le> k" "gs_received_adds st - gs_received_removes st = of_nat r"
  using assms by (auto simp: sums_up_def)

lemma sums_upI:
  "gs_sent_announces st = of_nat a \<Longrightarrow> gs_sent_withdraws st = of_nat w \<Longrightarrow> gs_total_errors st = of_nat e \<Longrightarrow>
   a \<le> w + n \<Longrightarrow> w + n \<le> a + e \<Longrightarrow> a + w + e \<le> k \<Longrightarrow> gs_received_adds st - gs_received_removes st = of_nat r \<Longrightarrow> sums_up st k n r"
  unfolding sums_up_def by blast

lemma sums_up_announce:
  assumes "sums_up st k n r" shows "sums_up (record_announce st) (Suc k) (Suc n) r"
proof (rule sums_upE [OF assms])
  fix a w e
  assume "gs_sent_announces st = of_nat a" "gs_sent_withdraws st = of_nat w" "gs_total_errors st = of_nat e"
    "a \<le> w + n" "w + n \<le> a + e" "a + w + e \<le> k" "gs_received_adds st - gs_received_removes st = of_nat r"
  then show ?thesis by (intro sums_upI [of _ "Suc a" w e]) (simp_all add: counter_defs)
qed

lemma sums_up_withdraw:
  assumes "sums_up st k (Suc n) r" shows "sums_up (record_withdraw st) (Suc k) n r"
proof (rule sums_upE [OF assms])
  fix a w e
  assume "gs_sent_announces st = of_nat a" "gs_sent_withdraws st = of_nat w" "gs_total_errors st = of_nat e"
    "a \<le> w + Suc n" "w + Suc n \<le> a + e" "a + w + e \<le> k" "gs_received_adds st - gs_received_removes st = of_nat r"
  then show ?thesis by (intro sums_upI [of _ a "Suc w" e]) (simp_all add: counter_defs)
qed

lemma sums_up_error:
  assumes "sums_up st k n r" and "m = n \<or> m = Suc n" shows "sums_up (record_error st) (Suc k) m r"
proof (rule sums_upE [OF assms(1)])
  fix a w e
  assume "gs_sent_announces st = of_nat a" "gs_sent_withdraws st = of_nat w" "gs_total_errors st = of_nat e"
    "a \<le> w + n" "w + n \<le> a + e" "a + w + e \<le> k" "gs_received_adds st - gs_received_removes st = of_nat r"
  then show ?thesis using assms(2) by (intro sums_upI [of _ a w "Suc e"]) (auto simp: counter_defs)
qed

lemma sums_up_more: "sums_up st k n r \<Longrightarrow> sums_up st (Suc k) n r"
  unfolding sums_up_def by (meson le_Suc_eq)

lemma sums_up_signals [simp]:
  "sums_up (signal_start st) k n r = sums_up st k n r" "sums_up (signal_stop st) k n r = sums_up st k n r"
  "sums_up (mark_ready st) k n r = sums_up st k n r"
  by (simp_all add: sums_up_def counter_defs)

lemma finite_table: "rt_wf t \<Longrightarrow> finite (rt_abs t)"
  using set_all_keys List.finite_set by metis

lemma announced_route:
  assumes "rt_wf (cl_announced c)" and "client_announce v d h c = (r, c')"
  shows "rt_wf (cl_announced c')" and "cl_shared c' = cl_shared c"
    and "rt_abs (cl_announced c') \<subseteq> insert (v, d, h) (rt_abs (cl_announced c))"
    and "rt_len (cl_announced c') = Suc (rt_len (cl_announced c)) \<or> isl r \<and> rt_len (cl_announced c') = rt_len (cl_announced c)"
proof -
  let ?t = "snd (add_next_hop v d h (cl_announced c))"
  have added: "cl_announced c' = ?t \<and> \<not> next_hop_exists v d h (cl_announced c) \<or> isl r \<and> c' = c"
    and "cl_shared c' = cl_shared c"
    using assms(2) by (auto simp: client_announce_def Let_def split: if_splits prod.splits)
  then show "cl_shared c' = cl_shared c" by blast
  have wf: "rt_wf ?t" and abs: "rt_abs ?t = insert (v, d, h) (rt_abs (cl_announced c))"
    using add_next_hop_wf [OF assms(1)] by (simp_all add: store_simps)
  from wf abs added assms(1) show "rt_wf (cl_announced c')"
    "rt_abs (cl_announced c') \<subseteq> insert (v, d, h) (rt_abs (cl_announced c))" by auto
  have "finite (rt_abs (cl_announced c))" using assms(1) by (rule finite_table)
  then have "rt_len ?t = Suc (rt_len (cl_announced c))" if "\<not> next_hop_exists v d h (cl_announced c)"
    using that by (simp add: rt_len_card [OF wf] rt_len_card [OF assms(1)] abs)
  with added show "rt_len (cl_announced c') = Suc (rt_len (cl_announced c)) \<or> isl r \<and> rt_len (cl_announced c') = rt_len (cl_announced c)"
    by auto
qed

lemma withdrawn_route:
  assumes "rt_wf (cl_announced c)" and "client_withdraw v d h c = (r, c')"
  shows "rt_wf (cl_announced c')" and "cl_shared c' = cl_shared c"
    and "rt_abs (cl_announced c') \<subseteq> rt_abs (cl_announced c)"
    and "if isl r then c' = c else rt_len (cl_announced c) = Suc (rt_len (cl_announced c'))"
proof -
  let ?t = "snd (remove_next_hop v d h (cl_announced c))"
  have removed: "cl_announced c' = ?t \<and> next_hop_exists v d h (cl_announced c) \<and> \<not> isl r \<or> isl r \<and> c' = c"
    and "cl_shared c' = cl_shared c"
    using assms(2) by (auto simp: client_withdraw_def Let_def split: if_splits prod.splits)
  then show "cl_shared c' = cl_shared c" by blast
  have wf: "rt_wf ?t" and abs: "rt_abs ?t = rt_abs (cl_announced c) - {(v, d, h)}"
    using remove_next_hop_wf [OF assms(1)] remove_next_hop_abs [OF assms(1)] by simp_all
  show "rt_wf (cl_announced c')" using removed wf assms(1) by (elim disjE conjE) (simp_all only:)
  show "rt_abs (cl_announced c') \<subseteq> rt_abs (cl_announced c)"
    using removed by (elim disjE conjE) (simp_all only: abs Diff_subset order_refl)
  have "rt_len (cl_announced c) = Suc (rt_len ?t)" if "next_hop_exists v d h (cl_announced c)"
    using that card.remove [OF finite_table [OF assms(1)], of "(v, d, h)"]
    unfolding rt_len_card [OF wf] rt_len_card [OF assms(1)] abs by (simp only: rt_abs_iff)
  then show "if isl r then c' = c else rt_len (cl_announced c) = Suc (rt_len (cl_announced c'))"
    using removed by (elim disjE conjE) (simp_all only: if_True if_False)
qed


text \<open>The part of one worker in the sums; \<open>m\<close> and \<open>q\<close> are those of the others.\<close>

definition announced_count :: "worker \<Rightarrow> nat" where
  "announced_count w = rt_len (cl_announced (wk_client w))"

definition told_count :: "worker \<Rightarrow> nat" where
  "told_count w = route_count (wk_client w)"

definition keeps_sums :: "gen_config \<Rightarrow> nat \<Rightarrow> worker \<times> test_state \<Rightarrow> worker \<times> test_state \<Rightarrow> bool" where
  "keeps_sums cfg i ws ws' \<longleftrightarrow>
     (worker_ok cfg i (fst ws) \<longrightarrow> worker_ok cfg i (fst ws') \<and>
       (\<forall>k m q. sums_up (snd ws) k (m + announced_count (fst ws)) (q + told_count (fst ws)) \<longrightarrow>
          sums_up (snd ws') (Suc k) (m + announced_count (fst ws')) (q + told_count (fst ws'))))"

lemmas worker_counts = worker_ok_def outstanding_def announced_count_def told_count_def route_count_def

lemma worker_other_fields [simp]:
  "worker_ok cfg i (w\<lparr>wk_phase := p\<rparr>) = worker_ok cfg i w" "worker_ok cfg i (w\<lparr>wk_route_idx := n\<rparr>) = worker_ok cfg i w"
  "worker_ok cfg i (w\<lparr>wk_announced := ds\<rparr>) = worker_ok cfg i w"
  "announced_count (w\<lparr>wk_phase := p\<rparr>) = announced_count w" "announced_count (w\<lparr>wk_route_idx := n\<rparr>) = announced_count w"
  "announced_count (w\<lparr>wk_announced := ds\<rparr>) = announced_count w"
  "told_count (w\<lparr>wk_phase := p\<rparr>) = told_count w" "told_count (w\<lparr>wk_route_idx := n\<rparr>) = told_count w"
  "told_count (w\<lparr>wk_announced := ds\<rparr>) = told_count w"
  by (simp_all add: worker_counts)

lemma keeps_sums_same_client:
  "wk_client w' = wk_client w \<Longrightarrow> (\<And>k n r. sums_up st k n r \<Longrightarrow> sums_up st' (Suc k) n r) \<Longrightarrow> keeps_sums cfg i (w, st) (w', st')"
  by (simp add: keeps_sums_def worker_counts)

lemma worker_announce_keeps: "keeps_sums cfg i (w, st) (worker_announce cfg i dest (w, st))"
proof (cases "worker_ok cfg i w")
  case True
  obtain r c where c: "client_announce (gc_vni cfg) dest (make_next_hop i) (wk_client w) = (r, c)" by fastforce
  have wf: "rt_wf (cl_announced (wk_client w))" using True by (simp add: worker_ok_def)
  note after = announced_route [OF wf c]
  have ok: "worker_ok cfg i (w\<lparr>wk_client := c\<rparr>)"
    using True after(1-3) unfolding worker_ok_def outstanding_def by (auto simp del: rt_abs_iff)
  show ?thesis
  proof (cases r)
    case (Inl e)
    with after(2,4) have "m + announced_count (w\<lparr>wk_client := c\<rparr>) = m + announced_count w \<or>
        m + announced_count (w\<lparr>wk_client := c\<rparr>) = Suc (m + announced_count w)"
      "told_count (w\<lparr>wk_client := c\<rparr>) = told_count w" for m
      by (auto simp: announced_count_def told_count_def route_count_def)
    then show ?thesis using ok by (simp add: keeps_sums_def worker_announce_def c Inl sums_up_error)
  next
    case (Inr u)
    with after(2,4) have "announced_count (w\<lparr>wk_client := c, wk_announced := ds\<rparr>) = Suc (announced_count w)"
      "told_count (w\<lparr>wk_client := c, wk_announced := ds\<rparr>) = told_count w" for ds
      by (auto simp: announced_count_def told_count_def route_count_def)
    moreover have "worker_ok cfg i (w\<lparr>wk_client := c, wk_announced := ds\<rparr>)" for ds
      using ok by (simp add: worker_ok_def outstanding_def)
    ultimately show ?thesis by (simp add: keeps_sums_def worker_announce_def c Inr sums_up_announce)
  qed
qed (simp add: keeps_sums_def)

lemma worker_withdraw_keeps: "keeps_sums cfg i (w, st) (worker_withdraw cfg i dest (w, st))"
proof (cases "worker_ok cfg i w")
  case True
  obtain r c where c: "client_withdraw (gc_vni cfg) dest (make_next_hop i) (wk_client w) = (r, c)" by fastforce
  have wf: "rt_wf (cl_announced (wk_client w))" using True by (simp add: worker_ok_def)
  note after = withdrawn_route [OF wf c]
  have ok: "worker_ok cfg i (w\<lparr>wk_client := c\<rparr>)"
    using True after(1-3) unfolding worker_ok_def outstanding_def by (auto simp del: rt_abs_iff)
  show ?thesis
  proof (cases r)
    case (Inl e)
    with after(4) ok show ?thesis
      by (simp add: keeps_sums_def worker_withdraw_def c sums_up_error announced_count_def told_count_def)
  next
    case (Inr u)
    with after(2,4) have "announced_count w = Suc (announced_count (w\<lparr>wk_client := c\<rparr>))"
      "told_count (w\<lparr>wk_client := c\<rparr>) = told_count w"
      by (auto simp: announced_count_def told_count_def route_count_def)
    then show ?thesis using ok by (simp add: keeps_sums_def worker_withdraw_def c Inr sums_up_withdraw)
  qed
qed (simp add: keeps_sums_def)

lemma subscribed_fields:
  "client_subscribe v c = (r, c') \<Longrightarrow> cl_announced c' = cl_announced c \<and> cl_shared c' = cl_shared c"
  by (auto simp: client_subscribe_def Let_def split: prod.splits if_splits)

lemma worker_connected_keeps: "keeps_sums cfg i (w, st) (worker_connected r (w, st))"
  by (cases r) (auto intro!: keeps_sums_same_client intro: sums_up_error sums_up_more)

lemma keeps_sums_trans_phase:
  "keeps_sums cfg i (w\<lparr>wk_phase := p\<rparr>, st) ws = keeps_sums cfg i (w, st) ws"
  "keeps_sums cfg i (w\<lparr>wk_route_idx := n\<rparr>, st) ws = keeps_sums cfg i (w, st) ws"
  by (simp_all add: keeps_sums_def)

lemma worker_piece_keeps:
  assumes "worker_piece parse_net cfg i p (w, st) = Some ws"
  shows "keeps_sums cfg i (w, st) ws"
proof (cases p)
  case WkSubscribes
  obtain r c where c: "client_subscribe (gc_vni cfg) (wk_client w) = (r, c)" by fastforce
  with assms WkSubscribes subscribed_fields [OF c] show ?thesis
    by (cases r) (auto simp: keeps_sums_def worker_counts intro: sums_up_error sums_up_more)
next
  case (WkAnnounces n)
  then show ?thesis
    using assms worker_announce_keeps [of cfg i "w\<lparr>wk_route_idx := (wk_route_idx w + 1) mod DESTINATIONS_PER_CLIENT, wk_phase := WkAnnounces (n - 1)\<rparr>" st]
    by (cases n) (auto simp: start_withdrawals_def keeps_sums_trans_phase intro!: keeps_sums_same_client sums_up_more split: if_splits option.splits)
next
  case (WkWithdraws ds)
  then show ?thesis
    using assms worker_withdraw_keeps [of cfg i "w\<lparr>wk_phase := WkWithdraws (tl ds)\<rparr>" st "hd ds"]
    by (cases ds) (auto simp: keeps_sums_trans_phase intro!: keeps_sums_same_client sums_up_more split: if_splits)
qed (use assms in \<open>auto simp: worker_connected_keeps intro!: keeps_sums_same_client sums_up_more split: if_splits\<close>)

lemma worker_time_up_keeps: "worker_time_up ws = Some ws' \<Longrightarrow> keeps_sums cfg i ws ws'"
  using worker_connected_keeps [of cfg i "fst ws" "snd ws"] by (auto simp: worker_time_up_def split: if_splits)

lemma worker_task_keeps:
  assumes "worker_task x s ev (w, st) = Some ws"
  shows "keeps_sums cfg i (w, st) ws"
proof -
  obtain c where step: "client_peer_step x counting_handler s ev (client_world (\<lambda>_. st) (wk_client w)) = Some c"
    and ws: "ws = (w\<lparr>wk_client := c\<rparr>, cs_world (cl_shared c))"
    using assms by (auto simp: worker_task_def)
  obtain calls where calls: "cl_announced c = cl_announced (wk_client w)"
    "cl_shared c = fold (called (dedup_handler counting_handler s)) calls ((cl_shared (wk_client w))\<lparr>cs_world := st\<rparr>)"
    using client_peer_step_world [OF step] by (auto simp: client_world_def)
  show ?thesis
  proof (cases "worker_ok cfg i w")
    case True
    then have "origins_wf (cs_origins ((cl_shared (wk_client w))\<lparr>cs_world := st\<rparr>))" by (simp add: worker_ok_def)
    from counted_calls [OF this, of s calls] have after: "origins_wf (cs_origins (cl_shared c))"
      "balance (cl_shared c) = balance ((cl_shared (wk_client w))\<lparr>cs_world := st\<rparr>)" "same_other_counters st (cs_world (cl_shared c))"
      by (simp_all add: calls(2))
    have "worker_ok cfg i (w\<lparr>wk_client := c\<rparr>)"
      using True after(1) unfolding worker_ok_def outstanding_def by (simp add: calls(1))
    moreover have "gs_received_adds (cs_world (cl_shared c)) - gs_received_removes (cs_world (cl_shared c)) =
        of_nat (q + told_count (w\<lparr>wk_client := c\<rparr>))"
      if "gs_received_adds st - gs_received_removes st = of_nat (q + told_count w)" for q
      using that after(2) by (simp add: balance_def told_count_def route_count_def algebra_simps)
    ultimately show ?thesis using after(3)
      by (auto simp: keeps_sums_def ws announced_count_def calls(1) same_other_counters_def elim!: sums_upE intro!: sums_upI le_SucI)
  qed (simp add: keeps_sums_def)
qed


section \<open>The whole program\<close>

definition load_inv :: "gen_config \<Rightarrow> nat \<Rightarrow> load_test \<Rightarrow> bool" where
  "load_inv cfg k lt \<longleftrightarrow>
     (\<forall>i < length (lt_workers lt). worker_ok cfg i (lt_workers lt ! i)) \<and>
     sums_up (lt_state lt) k (sum_list (map announced_count (lt_workers lt))) (sum_list (map told_count (lt_workers lt)))"

lemma on_worker_inv:
  assumes "load_inv cfg k lt" and "on_worker i f lt = Some lt'"
    and "\<And>ws. f (lt_workers lt ! i, lt_state lt) = Some ws \<Longrightarrow> keeps_sums cfg i (lt_workers lt ! i, lt_state lt) ws"
  shows "load_inv cfg (Suc k) lt'"
proof -
  obtain w st where i: "i < length (lt_workers lt)" and f: "f (lt_workers lt ! i, lt_state lt) = Some (w, st)"
    and lt': "lt' = lt\<lparr>lt_workers := (lt_workers lt)[i := w], lt_state := st\<rparr>"
    using assms(2) by (auto simp: on_worker_def split: if_splits)
  let ?m = "sum_list (map announced_count (lt_workers lt)) - announced_count (lt_workers lt ! i)"
  let ?q = "sum_list (map told_count (lt_workers lt)) - told_count (lt_workers lt ! i)"
  have le: "g (lt_workers lt ! i) \<le> sum_list (map g (lt_workers lt))" for g :: "worker \<Rightarrow> nat"
    using elem_le_sum_list [of i "map g (lt_workers lt)"] i by simp
  have update: "sum_list (map g ((lt_workers lt)[i := w])) = sum_list (map g (lt_workers lt)) - g (lt_workers lt ! i) + g w"
    for g :: "worker \<Rightarrow> nat"
    using le [of g] i by (simp add: map_update sum_list_update)
  have "sums_up (lt_state lt) k (?m + announced_count (lt_workers lt ! i)) (?q + told_count (lt_workers lt ! i))"
    using assms(1) le [of announced_count] le [of told_count] by (simp add: load_inv_def)
  moreover have "worker_ok cfg i (lt_workers lt ! i)" using assms(1) i by (simp add: load_inv_def)
  ultimately have "worker_ok cfg i w \<and> sums_up st (Suc k) (?m + announced_count w) (?q + told_count w)"
    using assms(3) [OF f] by (simp add: keeps_sums_def)
  then show ?thesis using assms(1) i by (auto simp: load_inv_def lt' update nth_list_update)
qed

lemma load_step_inv:
  assumes "load_inv cfg k lt" and "load_step x parse_net cfg e lt = Some lt'"
  shows "load_inv cfg (Suc k) lt'"
proof -
  have moves: "load_moves x parse_net cfg e lt = Some lt'" using assms(2) by (auto simp: load_step_def split: load_phase.splits)
  show ?thesis
  proof (cases e)
    case (WorkerMoves i)
    then show ?thesis using moves worker_piece_keeps by (auto intro: on_worker_inv [OF assms(1)])
  next
    case (WorkerTimeUp i)
    then show ?thesis using moves worker_time_up_keeps by (auto intro: on_worker_inv [OF assms(1)])
  next
    case (WorkerTask i s ev)
    then show ?thesis using moves worker_task_keeps by (auto intro: on_worker_inv [OF assms(1)])
  qed (use moves assms(1) in \<open>auto simp: load_inv_def sums_up_more split: if_splits\<close>)
qed

lemma load_run_inv:
  "load_inv cfg k lt \<Longrightarrow> load_run x parse_net cfg es lt = Some lt' \<Longrightarrow> load_inv cfg (k + length es) lt'"
proof (induction es arbitrary: k lt)
  case (Cons e es)
  then obtain lt1 where "load_step x parse_net cfg e lt = Some lt1" "load_run x parse_net cfg es lt1 = Some lt'"
    by (auto split: bind_splits)
  with Cons.IH [OF load_step_inv [OF Cons.prems(1)]] show ?case by fastforce
qed simp

lemma load_main_inv:
  assumes "load_main args = Some lt"
  shows "load_inv (gen_config_of args) 0 lt" and "length (lt_workers lt) = la_clients args"
proof -
  obtain c where c: "client_connect [gc_server_addr (gen_config_of args)] test_state_new = Some c"
    and lt: "lt = \<lparr>lt_state = test_state_new, lt_workers = replicate (la_clients args)
      \<lparr>wk_client = c, wk_phase = WkConnects, wk_route_idx = 0, wk_announced = []\<rparr>, lt_main = LgConnects\<rparr>"
    using assms by (auto simp: load_main_def worker_new_def)
  have fresh: "cl_announced c = rt_new" "cs_origins (cl_shared c) = []" using c by (auto simp: client_connect_def Let_def)
  have len: "rt_len \<lparr>rt_routes = []\<rparr> = 0" by (simp add: rt_len_def)
  have "sums_up test_state_new 0 0 0" by (intro sums_upI [of _ 0 0 0]) (simp_all add: test_state_new_def)
  then show "load_inv (gen_config_of args) 0 lt"
    by (auto simp: load_inv_def lt worker_counts fresh len sum_list_replicate origins_len_def
        next_hop_exists_def rt_new_def hm_get_def intro: rt_new_wf [unfolded rt_new_def])
  show "length (lt_workers lt) = la_clients args" by (simp add: lt)
qed

lemma load_run_workers: "load_run x parse_net cfg es lt = Some lt' \<Longrightarrow> length (lt_workers lt') = length (lt_workers lt)"
proof (induction es arbitrary: lt)
  case (Cons e es)
  then obtain lt1 where step: "load_step x parse_net cfg e lt = Some lt1" and rest: "load_run x parse_net cfg es lt1 = Some lt'"
    by (auto split: bind_splits)
  have "length (lt_workers lt1) = length (lt_workers lt)"
    using step by (cases e) (auto simp: load_step_def on_worker_def split: load_phase.splits if_splits)
  with Cons.IH [OF rest] show ?case by simp
qed simp

text \<open>Clients of different numbers announce different routes, up to 65536 of them.\<close>

lemma make_next_hop_inj: "i < 65536 \<Longrightarrow> j < 65536 \<Longrightarrow> make_next_hop i = make_next_hop j \<longleftrightarrow> i = j"
proof
  assume ij: "i < 65536" "j < 65536" and "make_next_hop i = make_next_hop j"
  then have "ipv6_new 0x2001 0xdb8 0 0 0 0 0 (of_nat i) = ipv6_new 0x2001 0xdb8 0 0 0 0 0 (of_nat j)"
    by (simp add: make_next_hop_def next_hop_standard_def)
  then have "map unat [0x2001, 0xdb8, 0, 0, 0, 0, 0, of_nat i :: u16] = map unat [0x2001, 0xdb8, 0, 0, 0, 0, 0, of_nat j :: u16]"
    by (metis ipv6_segments_new)
  with ij show "i = j" by (simp add: unat_of_nat)
qed simp

lemma announced_card:
  assumes "load_inv cfg k lt" and "length (lt_workers lt) \<le> 65536"
  shows "card (\<Union>w \<in> set (lt_workers lt). outstanding w) = sum_list (map announced_count (lt_workers lt))"
proof -
  let ?ws = "lt_workers lt" and ?I = "{0..<length (lt_workers lt)}"
  have ok: "worker_ok cfg i (?ws ! i)" if "i \<in> ?I" for i using assms(1) that by (simp add: load_inv_def)
  have "(\<Union>w \<in> set ?ws. outstanding w) = (\<Union>i \<in> ?I. outstanding (?ws ! i))" by (fastforce simp: in_set_conv_nth)
  moreover have "card (\<Union>i \<in> ?I. outstanding (?ws ! i)) = (\<Sum>i \<in> ?I. card (outstanding (?ws ! i)))"
  proof (rule card_UN_disjoint)
    show "\<forall>i \<in> ?I. finite (outstanding (?ws ! i))"
      using ok finite_table by (auto simp: worker_ok_def outstanding_def)
    have "outstanding (?ws ! i) \<inter> outstanding (?ws ! j) = {}" if "i \<in> ?I" "j \<in> ?I" "i \<noteq> j" for i j
    proof -
      have "make_next_hop i \<noteq> make_next_hop j" using that assms(2) make_next_hop_inj [of i j] by simp
      with ok [OF that(1)] ok [OF that(2)] show ?thesis unfolding worker_ok_def by fast
    qed
    then show "\<forall>i \<in> ?I. \<forall>j \<in> ?I. i \<noteq> j \<longrightarrow> outstanding (?ws ! i) \<inter> outstanding (?ws ! j) = {}" by blast
  qed simp
  moreover have "card (outstanding (?ws ! i)) = announced_count (?ws ! i)" if "i \<in> ?I" for i
    using ok [OF that] rt_len_card by (simp add: worker_ok_def outstanding_def announced_count_def)
  ultimately show ?thesis by (simp add: sum_list_sum_nth)
qed


section \<open>A run of one worker\<close>

text \<open>Its tasks move as those of a client do, when the client sees the shared state.\<close>

lemma tasks_run:
  assumes "client_run x counting_handler (map (PeerEvent s) es) (wk_client w) = Some c"
    and "cs_world (cl_shared (wk_client w)) = st"
  shows "load_run x parse_net cfg (map (WorkerTask 0 s) es) \<lparr>lt_state = st, lt_workers = [w], lt_main = LgConnects\<rparr> =
    Some \<lparr>lt_state = cs_world (cl_shared c), lt_workers = [w\<lparr>wk_client := c\<rparr>], lt_main = LgConnects\<rparr>"
  using assms
proof (induction es arbitrary: w st)
  case (Cons e es)
  have same: "client_world (\<lambda>_. st) (wk_client w) = wk_client w"
    using Cons.prems(2) by (auto simp: client_world_def)
  obtain c1 where c1: "client_peer_step x counting_handler s e (wk_client w) = Some c1"
    "client_run x counting_handler (map (PeerEvent s) es) c1 = Some c"
    using Cons.prems(1) by (auto split: bind_splits)
  then show ?case
    using Cons.IH [of "w\<lparr>wk_client := c1\<rparr>" "cs_world (cl_shared c1)"]
    by (simp add: load_step_def on_worker_def worker_task_def same)
qed simp

lemma load_run_append:
  "load_run x parse_net cfg (es @ fs) lt = Option.bind (load_run x parse_net cfg es lt) (load_run x parse_net cfg fs)"
  by (induction es arbitrary: lt) (simp_all add: Option.bind_assoc [symmetric] del: Option.bind_assoc split: bind_split)

definition example_load :: load_args where
  "example_load = \<lparr>la_clients = 1, la_batch_size = 2, la_port = 14901, la_vni = 100\<rparr>"


context ipnet_text
begin

lemma make_destination_some: "\<exists>d. make_destination parse_net i k = Some d"
proof -
  let ?b2 = "of_nat (drop_bit 8 (k mod DESTINATIONS_PER_CLIENT)) :: u8" and ?b3 = "of_nat (k mod DESTINATIONS_PER_CLIENT AND 0xFF) :: u8"
  have "parse_net (''10.'' @ show_nat (unat (of_nat i :: u8)) @ ''.'' @ show_nat (unat ?b2) @ ''.'' @ show_nat (unat ?b3) @ ''/32'') =
      Inr (NetV4 (ipv4_new 10 (of_nat i) ?b2 ?b3) 32)"
    by (rule parse_ipv4_net) (simp_all add: show_octets_def show_nat.simps [of 10] show_nat.simps [of 32]
        show_nat.simps [of "Suc 0"] show_nat.simps [of 3] del: unsigned_of_nat)
  then show ?thesis by (simp add: make_destination_def Let_def del: unsigned_of_nat)
qed

end


lemma tasks_announced: "client_run x h (map (PeerEvent s) es) c = Some c' \<Longrightarrow> cl_announced c' = cl_announced c"
  by (induction es arbitrary: c) (auto dest: client_peer_step_world split: bind_splits)

lemma example_load_run:
  "\<exists>lt0 es lt. load_main example_load = Some lt0 \<and>
     load_run reference_externals documented_parse_net (gen_config_of example_load) es lt0 = Some lt \<and> length es = 9 \<and>
     gs_sent_announces (lt_state lt) = 1 \<and> gs_sent_withdraws (lt_state lt) = 0 \<and> gs_total_errors (lt_state lt) = 0"
proof -
  let ?x = reference_externals and ?cfg = "gen_config_of example_load" and ?h = "dedup_handler counting_handler (ServerId 0)"
  let ?sh = "\<lparr>cs_origins = [], cs_world = test_state_new\<rparr>"
  let ?run = "load_run ?x documented_parse_net ?cfg"
  define c0 where "c0 = the (client_connect [gc_server_addr ?cfg] test_state_new)"
  have connect: "client_connect [gc_server_addr ?cfg] test_state_new = Some c0"
    and c0: "cl_shared c0 = ?sh" "cl_announced c0 = rt_new"
    and sh: "hm_get (cl_peers c0) (ServerId 0) = Some \<lparr>pc_task = peer_new ?sh, pc_queue = []\<rparr>"
    by (simp_all add: c0_def client_connect_def Let_def hm_get_def)
  define w0 where "w0 = \<lparr>wk_client = c0, wk_phase = WkConnects, wk_route_idx = 0, wk_announced = []\<rparr>"
  have size: "la_clients example_load = 1" "gc_batch_size ?cfg = 2" by (simp_all add: example_load_def gen_config_of_def)
  have start: "load_main example_load = Some \<lparr>lt_state = test_state_new, lt_workers = [w0], lt_main = LgConnects\<rparr>"
    using size(1) by (simp add: load_main_def worker_new_def connect w0_def)
  let ?n = "length (handshake_messages (peer_new ?sh) rt_new)"
  define es where "es = [ConnectOk ?n, HelloRead (Inr (wire_bytes ?x [MsgHello 5 True])),
    KeepaliveRead (Some (Inr (wire_bytes ?x [MsgKeepalive]))) rt_new 0]"
  have fresh: "(peer_new ?sh)\<lparr>pt_world := cl_shared c0\<rparr> = peer_new ?sh" by (simp add: peer_new_def c0)
  have phase: "pt_phase (peer_new ?sh) = AtConnect" by (simp add: peer_new_def)
  have run: "peer_run ?x ?h es ((pc_task \<lparr>pc_task = peer_new ?sh, pc_queue = []\<rparr>)\<lparr>pt_world := cl_shared c0\<rparr>) =
      Some (established ?x 5 rt_new ?n 0 (peer_new ?sh))"
    unfolding es_def peer_conn.simps fresh
    by (rule reference.handshake_run [OF phase reference.receive_hello_bytes reference.receive_keepalive_bytes le_refl])
  have quiet: "list_all (undisturbed (cl_announced c0)) es" by (simp add: es_def undisturbed_def c0)
  obtain c pr where c: "client_run ?x counting_handler (map (PeerEvent (ServerId 0)) es) c0 = Some c"
    "hm_get (cl_peers c) (ServerId 0) = Some pr"
    and pr: "(pc_task pr)\<lparr>pt_world := cl_shared c\<rparr> = established ?x 5 rt_new ?n 0 (peer_new ?sh)"
    using client_task_run [OF run sh quiet] by blast
  have "get_state pr = Established \<and> live pr"
    using arg_cong [where f = pt_state, OF pr] arg_cong [where f = pt_phase, OF pr]
    by (simp add: established_def get_state_def live_def)
  with c(2) have ready: "ready (ServerId 0) c" by (auto simp: ready_def)
  have "cl_shared c = ?sh" using arg_cong [where f = pt_world, OF pr] by (simp add: established_def peer_new_def)
  then have tasks: "?run (map (WorkerTask 0 (ServerId 0)) es) \<lparr>lt_state = test_state_new, lt_workers = [w0], lt_main = LgConnects\<rparr> =
      Some \<lparr>lt_state = test_state_new, lt_workers = [w0\<lparr>wk_client := c\<rparr>], lt_main = LgConnects\<rparr>"
    using tasks_run [of ?x "ServerId 0" es w0 c test_state_new] c(1) c0 by (simp add: w0_def)
  define c1 where "c1 = snd (client_subscribe (gc_vni ?cfg) c)"
  have sub: "client_subscribe (gc_vni ?cfg) c = (Inr (), c1)"
    using ready_subscribes [OF ready, of "gc_vni ?cfg"] by (simp add: c1_def prod_eq_iff)
  have "cl_announced c1 = rt_new"
    using subscribed_fields [OF sub] tasks_announced [OF c(1)] c0 by simp
  moreover have "ready (ServerId 0) c1" using ready by (simp add: c1_def)
  ultimately have "fst (client_announce (gc_vni ?cfg) d h c1) = Inr ()" for d h
    by (intro ready_announces) (simp_all add: next_hop_exists_def rt_new_def hm_get_def)
  then have ann: "\<exists>c2. client_announce (gc_vni ?cfg) d h c1 = (Inr (), c2)" for d h
    by (metis prod.collapse)
  obtain d where d: "make_destination documented_parse_net 0 0 = Some d" using documented_text.make_destination_some by blast
  obtain c2 where c2: "client_announce (gc_vni ?cfg) d (make_next_hop 0) c1 = (Inr (), c2)" using ann by blast
  have "\<exists>lt. ?run [WorkerMoves 0, WorkerMoves 0, MainPolls False, WorkerMoves 0, WorkerMoves 0, WorkerMoves 0]
      \<lparr>lt_state = test_state_new, lt_workers = [w0\<lparr>wk_client := c\<rparr>], lt_main = LgConnects\<rparr> = Some lt \<and>
    gs_sent_announces (lt_state lt) = 1 \<and> gs_sent_withdraws (lt_state lt) = 0 \<and> gs_total_errors (lt_state lt) = 0"
    by (simp add: load_step_def on_worker_def w0_def ready_observed [OF ready] sub test_state_new_def counter_defs
        size(2) worker_announce_def c2 d numeral_2_eq_2)
  then obtain lt where lt: "?run [WorkerMoves 0, WorkerMoves 0, MainPolls False, WorkerMoves 0, WorkerMoves 0, WorkerMoves 0]
      \<lparr>lt_state = test_state_new, lt_workers = [w0\<lparr>wk_client := c\<rparr>], lt_main = LgConnects\<rparr> = Some lt"
    and sums: "gs_sent_announces (lt_state lt) = 1" "gs_sent_withdraws (lt_state lt) = 0" "gs_total_errors (lt_state lt) = 0"
    by blast
  let ?all = "map (WorkerTask 0 (ServerId 0)) es @ [WorkerMoves 0, WorkerMoves 0, MainPolls False, WorkerMoves 0, WorkerMoves 0, WorkerMoves 0]"
  have "?run ?all \<lparr>lt_state = test_state_new, lt_workers = [w0], lt_main = LgConnects\<rparr> = Some lt"
    unfolding load_run_append tasks bind.bind_lunit lt ..
  moreover have "length ?all = 9" by (simp add: es_def)
  ultimately show ?thesis using start sums by blast
qed


section \<open>The end of a worker\<close>

definition returns_within :: "nat \<Rightarrow> externals \<Rightarrow> parse_net \<Rightarrow> gen_config \<Rightarrow> nat \<Rightarrow> load_test \<Rightarrow> worker \<Rightarrow> bool" where
  "returns_within n x parse_net cfg i lt w \<longleftrightarrow>
     (\<exists>k w'. k \<le> n \<and> load_run x parse_net cfg (replicate k (WorkerMoves i)) (lt\<lparr>lt_workers := (lt_workers lt)[i := w]\<rparr>) =
        Some (lt\<lparr>lt_workers := (lt_workers lt)[i := w']\<rparr>) \<and> wk_phase w' = WkReturned \<and> wk_client w' = wk_client w)"

lemma returns_within_more: "returns_within n x parse_net cfg i lt w \<Longrightarrow> n \<le> m \<Longrightarrow> returns_within m x parse_net cfg i lt w"
  unfolding returns_within_def by (meson le_trans)

lemma returns_within_step:
  assumes "i < length (lt_workers lt)" and "\<forall>result. lt_main lt \<noteq> LgReturned result"
    and "worker_piece parse_net cfg i (wk_phase w) (w, lt_state lt) = Some (w', lt_state lt)" and "wk_client w' = wk_client w"
    and "returns_within n x parse_net cfg i lt w'"
  shows "returns_within (Suc n) x parse_net cfg i lt w"
proof -
  obtain k w'' where k: "k \<le> n" "wk_phase w'' = WkReturned" "wk_client w'' = wk_client w'"
    "load_run x parse_net cfg (replicate k (WorkerMoves i)) (lt\<lparr>lt_workers := (lt_workers lt)[i := w']\<rparr>) =
       Some (lt\<lparr>lt_workers := (lt_workers lt)[i := w'']\<rparr>)"
    using assms(5) by (auto simp: returns_within_def)
  have "load_step x parse_net cfg (WorkerMoves i) (lt\<lparr>lt_workers := (lt_workers lt)[i := w]\<rparr>) =
      Some (lt\<lparr>lt_workers := (lt_workers lt)[i := w']\<rparr>)"
    using assms(1-3) by (simp add: load_step_def on_worker_def split: load_phase.splits)
  with k assms(4) show ?thesis unfolding returns_within_def by (intro exI [of _ "Suc k"] exI [of _ w'']) simp
qed

section \<open>Properties\<close>

text \<open>C38: the accounts of the load generator, after any run of fewer than 2 to the 64 steps of up to
  65536 clients. The routes the clients have announced and not withdrawn, of which no two
  clients have the same, are as many as the announcements counted less the withdrawals counted,
  and at most the errors counted more: an announcement that fails can leave its route announced.
  The additions received less the removals are the routes of which the handlers know.\<close>

theorem load_test_accounts:
  assumes "load_main args = Some lt0" and "load_run x parse_net (gen_config_of args) es lt0 = Some lt"
    and "length es < 2 ^ 64" and "la_clients args \<le> 65536"
  shows "unat (gs_sent_announces (lt_state lt)) \<le> unat (gs_sent_withdraws (lt_state lt)) +
      card (\<Union>w \<in> set (lt_workers lt). rt_abs (cl_announced (wk_client w))) \<and>
    unat (gs_sent_withdraws (lt_state lt)) + card (\<Union>w \<in> set (lt_workers lt). rt_abs (cl_announced (wk_client w))) \<le>
      unat (gs_sent_announces (lt_state lt)) + unat (gs_total_errors (lt_state lt)) \<and>
    gs_received_adds (lt_state lt) - gs_received_removes (lt_state lt) =
      of_nat (\<Sum>w \<leftarrow> lt_workers lt. route_count (wk_client w))"
proof -
  have inv: "load_inv (gen_config_of args) (length es) lt"
    using load_run_inv [OF load_main_inv(1) [OF assms(1)] assms(2)] by simp
  have workers: "length (lt_workers lt) \<le> 65536"
    using load_run_workers [OF assms(2)] load_main_inv(2) [OF assms(1)] assms(4) by simp
  obtain a w e where "gs_sent_announces (lt_state lt) = of_nat a" "gs_sent_withdraws (lt_state lt) = of_nat w"
    "gs_total_errors (lt_state lt) = of_nat e" "a + w + e \<le> length es"
    and sums: "a \<le> w + sum_list (map announced_count (lt_workers lt))" "w + sum_list (map announced_count (lt_workers lt)) \<le> a + e"
    "gs_received_adds (lt_state lt) - gs_received_removes (lt_state lt) = of_nat (sum_list (map told_count (lt_workers lt)))"
    using inv by (auto simp: load_inv_def sums_up_def)
  then have "unat (gs_sent_announces (lt_state lt)) = a" "unat (gs_sent_withdraws (lt_state lt)) = w"
    "unat (gs_total_errors (lt_state lt)) = e"
    using assms(3) by (simp_all add: unat_of_nat)
  with sums announced_card [OF inv workers] show ?thesis
    by (simp add: outstanding_def told_count_def [abs_def])
qed

theorem load_test_accounts_witness:
  "\<exists>lt0 es lt. load_main example_load = Some lt0 \<and>
     load_run reference_externals documented_parse_net (gen_config_of example_load) es lt0 = Some lt \<and>
     gs_sent_announces (lt_state lt) = 1 \<and> card (\<Union>w \<in> set (lt_workers lt). rt_abs (cl_announced (wk_client w))) = 1"
proof -
  obtain lt0 es lt where start: "load_main example_load = Some lt0"
    and run: "load_run reference_externals documented_parse_net (gen_config_of example_load) es lt0 = Some lt" "length es = 9"
    and sums: "gs_sent_announces (lt_state lt) = 1" "gs_sent_withdraws (lt_state lt) = 0" "gs_total_errors (lt_state lt) = 0"
    using example_load_run by blast
  have "la_clients example_load \<le> 65536" "length es < 2 ^ 64" by (simp_all add: example_load_def run(2))
  from load_test_accounts [OF start run(1) this(2,1)] start run(1) sums show ?thesis by fastforce
qed

text \<open>When the signal to stop has been given, a worker whose batches have begun returns in at most four
  steps of its own, without another call of its client: what it has announced stays announced.\<close>

definition at_work :: "worker_phase \<Rightarrow> bool" where
  "at_work p \<longleftrightarrow> p = WkRound \<or> p = WkLingers \<or> (\<exists>n. p = WkAnnounces n) \<or> (\<exists>ds. p = WkWithdraws ds)"

theorem stopped_worker_returns:
  assumes "i < length (lt_workers lt)" and "gs_stop_signal (lt_state lt)" and "at_work (wk_phase (lt_workers lt ! i))"
    and "\<forall>result. lt_main lt \<noteq> LgReturned result"
  shows "\<exists>k w. k \<le> 4 \<and> load_run x parse_net cfg (replicate k (WorkerMoves i)) lt = Some (lt\<lparr>lt_workers := (lt_workers lt)[i := w]\<rparr>) \<and>
    wk_phase w = WkReturned \<and> wk_client w = wk_client (lt_workers lt ! i)"
proof -
  have returned: "returns_within 0 x parse_net cfg i lt w" if "wk_phase w = WkReturned" for w
    using that unfolding returns_within_def by (intro exI [of _ 0] exI [of _ w]) simp
  note step = returns_within_step [OF assms(1,4)]
  have lingers: "returns_within 1 x parse_net cfg i lt w" if "wk_phase w = WkLingers" for w
    unfolding One_nat_def
    by (rule step [where w' = "w\<lparr>wk_phase := WkReturned\<rparr>"]) (simp_all add: that returned)
  have round: "returns_within 2 x parse_net cfg i lt w" if "wk_phase w = WkRound" for w
    unfolding numeral_2_eq_2 One_nat_def [symmetric]
    by (rule step [where w' = "w\<lparr>wk_phase := WkLingers\<rparr>"]) (simp_all add: that assms(2) lingers [unfolded One_nat_def])
  have withdraws: "returns_within 3 x parse_net cfg i lt w" if "wk_phase w = WkWithdraws ds" for w ds
    unfolding eval_nat_numeral(3)
    by (rule step [where w' = "w\<lparr>wk_phase := WkRound\<rparr>"]; cases ds) (simp_all add: that assms(2) round)
  have announces: "returns_within 4 x parse_net cfg i lt w" if "wk_phase w = WkAnnounces n" for w n
    unfolding eval_nat_numeral(2)
    by (rule step [where w' = "start_withdrawals w"]; cases n)
      (simp_all add: that assms(2) withdraws [of _ "wk_announced w"] start_withdrawals_def)
  have "returns_within 4 x parse_net cfg i lt (lt_workers lt ! i)"
    using assms(3) unfolding at_work_def
    by (elim disjE exE) (auto intro: returns_within_more [OF round] returns_within_more [OF lingers]
        returns_within_more [OF withdraws] announces)
  then show ?thesis by (simp add: returns_within_def)
qed

end
