(* ===== verification/Spec2Isabelle.thy ===== *)
theory Spec2Isabelle
  imports Wire_Properties Client_Properties Stream_Reads System_Properties Program_Properties Handler_Calls Server_Program Test_Suite Load_Properties
begin

text \<open>
  A verification library for \<open>rustbond\<close>, an implementation of the MetalBond protocol. A
  server distributes routes: clients connect to it over TCP, subscribe to virtual networks
  (VNIs), announce routes, and are told of the routes others announce. A client may be
  connected to several servers and merges what they say.

  \<^bold>\<open>The program and its theories.\<close>

  \<^item> \<open>Prelude\<close>: options, sums as results, logs of additions and removals (\<open>apply_log\<close>) and the
    collections of lemmas the other theories share. \<open>Hash_Collections\<close>: the hash maps and sets
    of the standard library as association lists and lists without duplicates; the order of
    iteration is the order of the list, and no property depends on it. \<open>Route_Store\<close>: the
    interface of a store of routes, with the lemmas on logs of its operations.
  \<^item> \<open>Bond_Types\<close> (\<open>src/src/types.rs\<close>, \<open>src/src/error.rs\<close>, the messages of
    \<open>src/proto/metalbond.proto\<close>): VNIs, destinations, next hops, states, errors and the
    conversions to and from the protocol's messages, with the casts written out on words.
  \<^item> \<open>Route_Table\<close> (\<open>src/src/route.rs\<close>): \<open>RouteTable\<close>, refined to a set of (VNI, destination, next
    hop); it provides the route store.
  \<^item> \<open>Wire\<close> (\<open>src/src/wire.rs\<close>): messages, their encoding and decoding. \<open>Proto3_Reference\<close>: an
    executable proto3 encoding, the instance in which what is assumed of the generated code is
    shown to hold. \<open>Framing\<close>: cutting a stream into messages, for any decoder whose decisions
    are final. \<open>Wire_Properties\<close>: round trips, framing, the texts that ask for more data.
  \<^item> \<open>Route_Handler\<close> (\<open>src/src/lib.rs\<close>): the callbacks, and a handler that records its calls.
    \<open>Origin_Tracker\<close> and \<open>Dedup_Handler\<close> (\<open>src/src/client.rs\<close>): which servers announce which
    route, and the handler that tells the user of each route once.
  \<^item> \<open>Routing_Actor\<close> (\<open>RoutingActor\<close> in \<open>src/src/server.rs\<close>): the server's routes, owners,
    subscriptions and channels, one function for each command. \<open>Actor_Spec\<close>: the specification
    of the commands on owners as a map, subscriptions as a relation and routes as a set.
    \<open>Actor_System\<close>: runs of the actor with peers that come, go and take messages from their
    channels. \<open>Actor_Properties\<close>: refinement, invariants, what subscribers see.
  \<^item> \<open>Transport\<close>: the stream, the reads of the handshake and the keepalive arithmetic, which
    \<open>src/src/peer.rs\<close> and \<open>src/src/server.rs\<close> share.
  \<^item> \<open>Peer\<close>, \<open>Peer_Properties\<close> (\<open>peer_task\<close>, \<open>run_connection\<close> in \<open>src/src/peer.rs\<close>): the client's side
    of a connection, a state machine with a phase for each place where the task waits and an
    event for each thing it waits for.
  \<^item> \<open>Client\<close>, \<open>Client_Properties\<close> (\<open>MetalBondClient\<close> in \<open>src/src/client.rs\<close>): the calls of the user
    and the peer tasks with their command queues, over one shared state. \<open>Handler_Calls\<close>: what is
    shown of the handler that records its calls holds for every handler.
  \<^item> \<open>Server_Conn\<close>, \<open>Server_Properties\<close> (\<open>handle_peer\<close> in \<open>src/src/server.rs\<close>): the server's side of a
    connection, over any routing side; the actor provides the interface it needs.
  \<^item> \<open>Server_System\<close> (\<open>MetalBondServer\<close> in \<open>src/src/server.rs\<close>): the whole server, that is the accept
    loop, a handler for each connection, the actor behind its bounded command queue and the
    shutdown, as tasks that move one at a time in any order. \<open>Server_Runs\<close>: its runs are runs of
    \<open>Actor_System\<close>. \<open>Server_Sessions\<close>: the sessions of the connections seen through the queue,
    what the shutdown leaves to do. \<open>Server_Streams\<close>: what a connection writes.
    \<open>Subscriptions\<close>: which connection a command belongs to, and what a connection writes from
    its handshake through its subscription on. \<open>Conversations\<close>: what the actor hears of a peer
    is what the connection reads. \<open>Route_Ownership\<close>: the routes that only one peer speaks of.
    \<open>Session_Runs\<close>: runs that serve what peers send, and an example
    with two peers.
    \<open>System_Properties\<close>: the properties of the whole server. \<open>Stream_Reads\<close>: what a peer task
    makes of the bytes it reads, however they come.
  \<^item> \<open>Netlink\<close> (\<open>src/src/netlink.rs\<close>): installing, removing and cleaning up kernel routes over a
    kernel that is a parameter.
  \<^item> \<open>Text_Forms\<close>: how the standard library prints and parses numbers and addresses, with the
    round trips. \<open>Display\<close> (\<open>src/src/types.rs\<close>, \<open>src/src/route.rs\<close>, \<open>src/src/error.rs\<close>): the texts of
    destinations, next hops, routes and errors, and the logging handler of \<open>src/src/client.rs\<close>.
  \<^item> \<open>Announcements\<close>, \<open>Client_Program\<close>, \<open>Program_Properties\<close> (\<open>src/examples/client.rs\<close>): the
    languages of the command line, and the example client as a state machine over the client,
    with the handlers that print routes and install them into the kernel by spawned tasks.
  \<^item> \<open>Server_Program\<close> (\<open>src/examples/server.rs\<close>): the example server with its status task, whose
    question goes through the queue of the actor, and what its lines say.
  \<^item> \<open>Load_Generator\<close>, \<open>Load_Properties\<close> (\<open>src/examples/stress_test.rs\<close>): the workers of the load
    generator over the model of the client, the counters they share, and what these account for.
  \<^item> \<open>Unit_Tests\<close> (the tests of \<open>src/src/types.rs\<close>), \<open>Wire_Tests\<close> (of \<open>src/src/wire.rs\<close>),
    \<open>Table_Tests\<close> (of \<open>src/src/route.rs\<close> and \<open>src/src/client.rs\<close>), \<open>Test_Suite\<close>: the unit tests of
    the crate as computations that may panic, run on the model; each definition is a test
    function of the source under its name.

  \<^bold>\<open>How they fit together.\<close> The user's calls put commands into the queues of the peer tasks; a
  task writes messages to its stream, which the server's handler cuts into messages and turns
  into commands of the actor. The actor stores a route, and pushes updates into the channels
  of the subscribers, which their handlers write in batches; the task at the other end stores
  them in its table and tells the deduplicating handler, which tells the user. The interfaces
  are locales: a route store (the table and the tracker provide it), a route sink (the
  recording and the deduplicating handler), the externals of the wire format (the proto3
  reference), a framed stream (the decoder), a routing service (the actor).

  \<^bold>\<open>What the properties say.\<close> This theory joins both ends:
  \<open>client_converges\<close> takes a subscription from a client to the actor of a running
  server, and the routes of the VNI from its table through queue, channel, bytes and framing to
  the table of the client (\<open>client_converges_to_server\<close> is its shape over the actor
  alone), and \<open>peer_routes_stored\<close> takes what a peer announces to the table of the
  server, as \<open>announcements_reach_server\<close> does for one read. Below them stand, for
  the whole server, that its runs are runs of the actor, that ended connections leave nothing
  behind and that the shutdown terminates, above them what the example client has announced and
  installed, and for each component its refinement to an abstract state, the invariant of its
  reachable states and the exact outcome of its operations, errors included. \<open>unit_tests_pass\<close>
  ties the model to the repository's own unit tests, which all pass on it. Where the code does
  not do what it seems to mean, the theorem states what it does.

  \<^bold>\<open>Bounds.\<close> Words have the widths of the source. Loops are total functions: the message loops
  end because a decoded message consumes a byte, the others are structural. The capacity of a
  peer's channel (50000), of the command queue (8192) and the batch limit (1000) are those of
  the source. The number of steps after the shutdown is bounded by the work that is left. How many writes a
  connection takes is a number in the state of the stream, and the theorems hold for every
  number; the waiting methods are functions of the observations made and \<open>None\<close> while they
  wait.

  \<^bold>\<open>What is not modelled.\<close> The generated protocol code is a parameter (\<open>externals\<close>) with its
  documented behaviour as the hypothesis \<open>externals_ok\<close>, the kernel one with \<open>kernel_ok\<close>
  and \<open>kernel_installs\<close>, the texts of \<open>ipnet\<close> with \<open>ipnet_text\<close>. Left out are the \<open>tracing\<close>
  calls other than those of \<open>LoggingHandler\<close>, the status reporter and the report of the load
  generator (rates in floating point), the parsing of arguments by \<open>clap\<close>, the integration
  tests, which drive real sockets with sleeps between the steps, and the capacity of the command
  queues of the client (a full one makes its caller wait). A spawned kernel task runs as a
  whole. A step of a task runs from one waiting point to the next; within it a write is the
  only thing that can fail, and a handler of the server puts a command into the queue together
  with the change of the table of peers beside it. The one place where the grain of the
  interleaving matters, the deduplicating handler that releases its lock before it calls the
  user, is modelled both ways.
\<close>

section \<open>Properties across components\<close>

text \<open>C1: a client and the server converge. A server runs, whatever its connections do, and has
  handled all its commands; one of its connections waits in its main loop. The peer task of a
  client at the other end, which may have had other connections before, connects, reads the
  HELLO and the KEEPALIVE, and goes on to read in any portions, while its user and its timer
  do what they like; of what it has written, one message is about the VNI, and subscribes to
  it. If each has read what the other wrote, the peer is still registered, no
  write of the server failed and its channel is empty, then the client holds of the VNI exactly
  the routes the server stores, and no part of a message is left over. Of a route that
  only one peer speaks of, it holds what that peer last said of it.\<close>

theorem client_converges:
  assumes x: "externals_ok x" and run: "sv_run x (server_init config) es ev s"
    and cid: "cid < length (sv_conns s)" and phase: "hd_phase (sv_conns s ! cid) = HWait (SLoop n last_received round_start rest)"
    and addr: "hd_addr (sv_conns s ! cid) = p" and idle: "sv_queue s = []"
    and left: "0 < ts_budget (hd_stream (sv_conns s ! cid))"
    and drained: "ch_queue (sv_chans s cid) = []" and still: "hm_get (a_peers (sv_actor s)) p = Some cid"
    and client: "peer_run x handler (ces0 @ ConnectOk budget # HelloRead (Inr hello) #
        KeepaliveRead (Some (Inr keepalive)) announced now # ces) (peer_new w) = Some t"
      "pt_phase t = AtLoop n' last_received' buf"
    and ces: "PeerCommand (PeerUnsubscribe v) \<notin> set ces" "\<forall>budget. ConnectOk budget \<notin> set ces"
    and said: "frames (message_decode x) need_more_data (ts_written (pt_stream t)) = (MsgHello k0 False # MsgKeepalive # sent, [], None)"
      "filter (about v) sent = [MsgSubscribe v]"
    and heard: "ts_written (pt_stream t) = wire_bytes x [MsgHello k0 False, MsgKeepalive] @ conn_reads cid es"
    and arrived: "hello = wire_bytes x [MsgHello k True]" "keepalive = wire_bytes x [MsgKeepalive]"
      "ts_written (hd_stream (sv_conns s ! cid)) = hello @ keepalive @ bytes_read ces"
  shows "{b. (v, b) \<in> rt_abs (pt_received t)} = {b. (v, b) \<in> rt_abs (a_routes (sv_actor s))} \<and> buf = [] \<and>
    (\<forall>a b. sole_speaker s ev a (v, b) \<longrightarrow> (v, b) \<in> rt_abs (pt_received t) \<longleftrightarrow> (v, b) \<in> said x a es)"
proof -
  let ?frames = "frames (message_decode x) need_more_data"
  have sound: "?frames (wire_bytes x ms') = (ms', [], None)" if "\<forall>m \<in> set ms'. sound_message m" for ms'
    using externals_ok.frames_sound [OF x that] .
  have shake: "?frames (wire_bytes x [MsgHello k' b, MsgKeepalive]) = ([MsgHello k' b, MsgKeepalive], [], None)" for k' b
    by (rule sound) simp
  have "?frames (conn_reads cid es) = (sent, [], None)"
    using said(1) heard wire_frames.frames_append [OF shake, of k0 False "conn_reads cid es"] by (auto split: prod.splits)
  then obtain ev0 reply0 ev1 reply where ev: "ev = ev0 @ SysCmd (PeerConnected p cid) reply0 # ev1"
    and one: "filter (concerns p v) ev1 = [SysCmd (CmdSubscribe p v) reply]"
    using subscription_heard [OF run cid phase addr idle _ said(2)] by metis
  obtain k' ms where ms: "ts_written (hd_stream (sv_conns s ! cid)) = wire_bytes x (MsgHello k' True # MsgKeepalive # ms)"
    "apply_log (chan_log v ms) {} = {(d, h). (v, d, h) \<in> rt_abs (a_routes (sv_actor s))}" "\<forall>m \<in> set ms. sound_message m"
    using session_mirrors [OF x run ev one phase left drained still] by blast
  have "wire_bytes x [MsgHello k True, MsgKeepalive] @ bytes_read ces = wire_bytes x (MsgHello k' True # MsgKeepalive # ms)"
    using ms(1) arrived wire_bytes_simps(3) [of x "[MsgHello k True]" "[MsgKeepalive]"] by simp
  then have "?frames (wire_bytes x [MsgHello k True, MsgKeepalive] @ bytes_read ces) = (MsgHello k' True # MsgKeepalive # ms, [], None)"
    using sound [of "MsgHello k' True # MsgKeepalive # ms"] ms(3) by simp
  then have "?frames (bytes_read ces) = (ms, [], None)"
    using wire_frames.frames_append [OF shake, of k True "bytes_read ces"] by (auto split: prod.splits)
  moreover have "reads_log x v {} (bytes_read ces) t" by (rule connected_reads [OF client ces])
  ultimately have "{b. (v, b) \<in> rt_abs (pt_received t)} = {b. (v, b) \<in> rt_abs (a_routes (sv_actor s))} \<and> buf = []"
    using ms(2) client(2) by (auto simp: reads_log_def simp del: rt_abs_iff)
  moreover from this have "(v, b) \<in> rt_abs (pt_received t) \<longleftrightarrow> (v, b) \<in> rt_abs (a_routes (sv_actor s))" for b
    by blast
  ultimately show ?thesis using spoken_routes [OF run idle] by (simp del: rt_abs_iff)
qed

theorem client_converges_witness:
  "\<exists>es ev s (t :: handler_call list peer_task).
    sv_run reference_externals (server_init server_config_default) es ev s \<and>
    {b. (vni100, b) \<in> rt_abs (pt_received t)} = {(net24, hop1), (net24, hop2)} \<and>
    {b. (vni100, b) \<in> rt_abs (a_routes (sv_actor s))} = {(net24, hop1), (net24, hop2)} \<and>
    (\<forall>b. sole_speaker s ev 1 (vni100, b)) \<and>
    (\<forall>b. (vni100, b) \<in> rt_abs (pt_received t) \<longleftrightarrow> (vni100, b) \<in> said reference_externals 1 es)"
proof (rule example_mirror)
  let ?x = reference_externals and ?h = recording_handler
  fix es s
  let ?ev = "[SysCmd (PeerConnected peer1 0) NoReply, SysCmd (PeerConnected peer2 1) NoReply,
       SysCmd (CmdUpdate peer2 Add vni100 net24 hop1) NoReply, SysCmd (CmdSubscribe peer1 vni100) (RoutesReply [(net24, hop1)]),
       SysCmd (CmdUpdate peer2 Add vni100 net24 hop2) NoReply, SysTake 0 (MsgUpdate Add vni100 net24 hop2)]"
  let ?ms = "[MsgUpdate Add vni100 net24 hop1, MsgUpdate Add vni100 net24 hop2]"
  assume run: "sv_run ?x (server_init server_config_default) es ?ev s"
    and conn: "0 < length (sv_conns s) \<and> hd_addr (sv_conns s ! 0) = peer1"
    and s: "hd_phase (sv_conns s ! 0) = HWait (SLoop 5 1 3 [])" "sv_queue s = []"
      "0 < ts_budget (hd_stream (sv_conns s ! 0))" "ch_queue (sv_chans s 0) = []" "hm_get (a_peers (sv_actor s)) peer1 = Some 0"
    and routes: "rt_abs (a_routes (sv_actor s)) = {(vni100, net24, hop1), (vni100, net24, hop2)}"
    and reads: "conn_reads 0 es = wire_bytes ?x [MsgSubscribe vni100]"
    and speaker: "1 < length (sv_conns s) \<and> in_main_loop (sv_conns s ! 1) \<and> hd_addr (sv_conns s ! 1) = peer2"
    and written: "ts_written (hd_stream (sv_conns s ! 0)) = wire_bytes ?x (MsgHello 5 True # MsgKeepalive # ?ms)"
  let ?ces = "[PeerCommand (PeerSubscribe vni100), DataRead (Inr (wire_bytes ?x ?ms)) 1]"
  let ?t0 = "peer_new [] :: handler_call list peer_task"
  define t1 where "t1 = established ?x 5 rt_new 9 0 ?t0"
  have shake: "peer_run ?x ?h [ConnectOk 9, HelloRead (Inr (wire_bytes ?x [MsgHello 5 True])),
      KeepaliveRead (Some (Inr (wire_bytes ?x [MsgKeepalive]))) rt_new 0] ?t0 = Some t1"
    unfolding t1_def by (rule reference.handshake_run [OF _ reference.receive_hello_bytes reference.receive_keepalive_bytes])
      (simp_all add: peer_new_def handshake_messages_def rt_new_def get_all_routes_def)
  have t1: "pt_phase t1 = AtLoop 5 0 []" "pt_stream t1 = \<lparr>ts_written = wire_bytes ?x [MsgHello 5 False, MsgKeepalive], ts_budget = 7\<rparr>"
    by (simp_all add: t1_def established_def negotiated_keepalive_def DEFAULT_KEEPALIVE_INTERVAL_def peer_new_def
        handshake_messages_def rt_new_def get_all_routes_def)
  define t2 where "t2 = conn_command ?x ?h (PeerSubscribe vni100) t1"
  have t2: "pt_phase t2 = AtLoop 5 0 []" "peer_step ?x ?h (PeerCommand (PeerSubscribe vni100)) t1 = Some t2"
      "ts_written (pt_stream t2) = wire_bytes ?x [MsgHello 5 False, MsgKeepalive] @ wire_bytes ?x [MsgSubscribe vni100]"
    using t1 by (simp_all add: t2_def reference.conn_send_ok peer_step_def del: wire_bytes_simps)
  define t where "t = conn_data ?x ?h 5 [] (Inr (wire_bytes ?x ?ms)) 1 t2"
  have data: "peer_step ?x ?h (DataRead (Inr (wire_bytes ?x ?ms)) 1) t2 = Some t"
    using t2(1) by (simp add: t_def peer_step_def)
  have client: "peer_run ?x ?h ([] @ ConnectOk 9 # HelloRead (Inr (wire_bytes ?x [MsgHello 5 True])) #
      KeepaliveRead (Some (Inr (wire_bytes ?x [MsgKeepalive]))) rt_new 0 # ?ces) ?t0 = Some t"
    using peer_run_append [of ?x ?h "[ConnectOk 9, HelloRead (Inr (wire_bytes ?x [MsgHello 5 True])),
      KeepaliveRead (Some (Inr (wire_bytes ?x [MsgKeepalive]))) rt_new 0]" ?ces ?t0] shake t2(2) data
    by (simp del: peer_run.simps(2) add: peer_run.simps(2) [of _ _ _ _ t1] peer_run.simps(2) [of _ _ _ _ t2])
  have "rt_wf (pt_received t2)" using held_step [OF held_run [OF shake held_new] t2(2)] by (simp add: held_def)
  moreover have "\<forall>m \<in> set ?ms. message_valid m \<and> message_canon m = m"
    by (simp add: next_hop_canon_def next_hop_standard_def next_hop_nat_def)
  ultimately have phase: "pt_phase t = AtLoop 5 1 []"
    using conn_data_messages [OF reference.externals_ok_axioms, of ?ms t2 ?h 5 1] by (simp only: t_def) simp
  have arrived: "ts_written (hd_stream (sv_conns s ! 0)) =
      wire_bytes ?x [MsgHello 5 True] @ wire_bytes ?x [MsgKeepalive] @ bytes_read ?ces"
    using wire_bytes_simps(3) [of ?x "[MsgHello 5 True]" "[MsgKeepalive] @ ?ms"] wire_bytes_simps(3) [of ?x "[MsgKeepalive]" ?ms]
    by (simp add: written del: wire_bytes_simps)
  have heard: "ts_written (pt_stream t) = wire_bytes ?x [MsgHello 5 False, MsgKeepalive] @ conn_reads 0 es"
    by (simp only: t_def conn_data_stream t2(3) reads)
  then have "ts_written (pt_stream t) = wire_bytes ?x [MsgHello 5 False, MsgKeepalive, MsgSubscribe vni100]"
    using wire_bytes_simps(3) [of ?x "[MsgHello 5 False, MsgKeepalive]" "[MsgSubscribe vni100]"] reads by simp
  then have said: "frames (message_decode ?x) need_more_data (ts_written (pt_stream t)) =
      (MsgHello 5 False # MsgKeepalive # [MsgSubscribe vni100], [], None)"
    using reference.frames_sound [of "[MsgHello 5 False, MsgKeepalive, MsgSubscribe vni100]"] by (simp del: wire_bytes_simps)
  have "{b. (vni100, b) \<in> rt_abs (a_routes (sv_actor s))} = {(net24, hop1), (net24, hop2)}" unfolding routes by auto
  moreover have "{b. (vni100, b) \<in> rt_abs (pt_received t)} = {b. (vni100, b) \<in> rt_abs (a_routes (sv_actor s))} \<and>
      ([] :: u8 list) = [] \<and>
      (\<forall>a b. sole_speaker s ?ev a (vni100, b) \<longrightarrow> (vni100, b) \<in> rt_abs (pt_received t) \<longleftrightarrow> (vni100, b) \<in> said ?x a es)"
    by (rule client_converges [OF reference.externals_ok_axioms run _ s(1) _ s(2-5) client phase _ _ said _ heard refl refl arrived])
      (use conn in simp_all)
  moreover have "sole_speaker s ?ev 1 (vni100, b)" for b using speaker by (simp add: sole_speaker_def)
  ultimately show ?thesis using run by blast
qed

text \<open>From the server's table to the client's. A peer subscribes to a VNI; its connection
  handler writes the answer and then everything its channel holds from then on. When the
  peer sends no updates for the VNI itself and is not evicted, a client that held no route of
  the VNI and reads these bytes holds, for the VNI, exactly the routes the server stores.\<close>

theorem client_converges_to_server:
  assumes "externals_ok x" and "sys_run sys_init es0 (a0, chans0)"
    and "hm_get (a_peers a0) p = Some c" and "ch_open (chans0 c)" and "ch_queue (chans0 c) = []"
    and "actor_handle (CmdSubscribe p v) (a0, chans0) = (RoutesReply rs, s1)"
    and "sys_run s1 es (a, chans)" and "\<forall>e \<in> set es. \<not> leaves_mirror p v c e"
    and "hm_get (a_peers a) p = Some c"
    and "sent = snapshot_messages v (RoutesReply rs) @ drop (length (ch_history (chans0 c))) (ch_history (chans c))"
    and "sent \<noteq> []" and "\<forall>m \<in> set sent. message_valid m \<and> message_canon m = m"
    and "rt_wf (pt_received t)" and "\<forall>d h. (v, d, h) \<notin> rt_abs (pt_received t)"
  shows "{b. (v, b) \<in> rt_abs (pt_received (conn_data x handler n [] (Inr (wire_bytes x sent)) now t))} =
    {b. (v, b) \<in> rt_abs (a_routes a)}"
proof -
  let ?new = "drop (length (ch_history (chans0 c))) (ch_history (chans c))"
  obtain a1 chans1 where s1: "s1 = (a1, chans1)" by (cases s1)
  have inv: "sys_inv (a0, chans0)" by (rule sys_run_inv [OF assms(2) sys_init_inv])
  have r: "actor_handle (CmdSubscribe p v) (a0, chans0) = (RoutesReply rs, a1, chans1)" using assms(6) s1 by simp
  have inv1: "sys_inv s1" by (rule sys_step_inv [OF sys_cmd [OF _ assms(6)] inv]) simp
  have "mirrors p v c (length (ch_history (chans0 c))) (set rs) (sys_abs s1)"
    using subscribe_mirrors [OF inv _ r] assms(4) s1 by simp
  then have "mirrors p v c (length (ch_history (chans0 c))) (set rs) (actor_abs a, chans)"
    using run_mirrors [OF assms(7) inv1 _ assms(8)] by simp
  then have mirror: "apply_log (chan_log v ?new) (set rs) = sp_routes_of v (actor_abs a)"
    using assms(9) by (simp add: mirrors_def actor_abs_def)
  have wf: "actor_wf a" using sys_run_inv [OF assms(7) inv1] by (simp add: sys_inv_def)
  have server: "sp_routes_of v (actor_abs a) = {b. (v, b) \<in> rt_abs (a_routes a)}"
    using actor_wf_routes [OF wf] by (auto simp: sp_routes_of_def dom_def simp del: rt_abs_iff)
  have none: "{b. (v, b) \<in> rt_abs (pt_received t)} = {}" using assms(14) by (auto simp del: rt_abs_iff)
  have "{b. (v, b) \<in> rt_abs (pt_received (conn_data x handler n [] (Inr (wire_bytes x sent)) now t))} =
      {b. (v, b) \<in> apply_log (message_log sent) (rt_abs (pt_received t))}"
    using conn_data_messages [OF assms(1,11,12,13), of handler n now] by simp
  also have "\<dots> = apply_log (chan_log v sent) {}" unfolding log_of_vni none ..
  also have "\<dots> = apply_log (chan_log v ?new) (set rs)"
    by (simp add: assms(10) snapshot_messages_def chan_log_snapshot apply_log_adds)
  finally show ?thesis unfolding mirror server .
qed

theorem client_converges_to_server_witness:
  "\<exists>a chans t. ch_history (chans 0) = [add1] \<and>
     {b. (vni100, b) \<in> rt_abs (pt_received (conn_data reference_externals recording_handler 5 []
        (Inr (wire_bytes reference_externals (ch_history (chans 0)))) 7 t))} =
     {b. (vni100, b) \<in> rt_abs (a_routes (a :: actor))}"
proof -
  obtain s1 a chans where sub: "actor_handle (CmdSubscribe peer1 vni100)
      (actor_new\<lparr>a_peers := [(peer1, 0)]\<rparr>, \<lambda>_. new_channel) = (RoutesReply [], s1)"
    and run: "sys_run s1 [SysCmd (CmdUpdate peer2 Add vni100 net24 hop1) NoReply] (a, chans)"
    and hist: "ch_history (chans 0) = [add1]" and peer: "hm_get (a_peers a) peer1 = Some 0"
    by (rule example_subscription)
  have none: "rt_wf (pt_received (peer_new []))" "\<forall>d h. (vni100, d, h) \<notin> rt_abs (pt_received (peer_new []))"
    using rt_new_wf rt_new_abs by (simp_all add: peer_new_def del: rt_abs_iff)
  have sent: "ch_history (chans 0) = snapshot_messages vni100 (RoutesReply []) @
      drop (length (ch_history new_channel)) (ch_history (chans 0))"
    by (simp add: snapshot_messages_def new_channel_def ch_history_def)
  have "{b. (vni100, b) \<in> rt_abs (pt_received (conn_data reference_externals recording_handler 5 []
      (Inr (wire_bytes reference_externals (ch_history (chans 0)))) 7 (peer_new [])))} =
     {b. (vni100, b) \<in> rt_abs (a_routes a)}"
    by (rule client_converges_to_server [OF reference.externals_ok_axioms run_connect _ _ _ sub run _ peer sent])
      (use none in \<open>simp_all add: hist add1_valid hm_get_def new_channel_def del: message_canon.simps rt_abs_iff\<close>)
  with hist show ?thesis by (intro exI conjI)
qed

text \<open>From the client's table to the server's. The subscriptions and announcements a client
  writes when its connection is established make the server, when it reads them, store every
  route the client announces, besides those it had.\<close>

theorem announcements_reach_server:
  assumes "externals_ok x" and "sys_inv r" and "rt_wf announced"
    and "sent = map MsgSubscribe vs @ map announce_message (get_all_routes announced)" and "sent \<noteq> []"
    and "\<forall>m \<in> set sent. message_valid m \<and> message_canon m = m"
    and "sc_routing c = r" and "server_data x actor_handle addr n [] (Inr (wire_bytes x sent)) now c = c'"
  shows "rt_abs (a_routes (fst (sc_routing c'))) = rt_abs (a_routes (fst r)) \<union> rt_abs announced \<and>
    sys_inv (sc_routing c') \<and> sc_phase c' = SLoop n now now []"
proof -
  have canon: "map message_canon sent = sent" using assms(6) by (simp add: map_idI)
  have f: "frames (message_decode x) need_more_data (wire_bytes x sent) = (sent, [], None)"
    using externals_ok.frames_wire_bytes [OF assms(1), of sent] assms(6) by (simp add: canon)
  have nonempty: "wire_bytes x sent \<noteq> []"
  proof
    assume "wire_bytes x sent = []"
    with f assms(5) show False by (simp add: wire_frames.frames_Nil)
  qed
  let ?handle = "fold (\<lambda>m s. snd (server_handle_message x actor_handle addr m s)) sent (sc_stream c, r)"
  have c': "c' = c\<lparr>sc_stream := fst ?handle, sc_routing := snd ?handle, sc_phase := SLoop n now now []\<rparr>"
    using assms(7,8) nonempty f by (simp add: server_data_def server_process_buffer_frames case_prod_unfold)
  have keys: "map announce_message (get_all_routes announced) = map (\<lambda>k. key_message Add k) (all_keys announced)"
    by (simp add: get_all_routes_keys comp_def case_prod_unfold announce_message_def key_message_def)
  have adds: "message_log (map (\<lambda>k. key_message Add k) ks) = map (Pair Add) ks" for ks
    by (induction ks) (simp_all add: key_message_def)
  have "message_log sent = map (Pair Add) (all_keys announced)"
    by (simp add: assms(4) keys adds)
  with actor_service.handle_messages_stored [of "(sc_stream c, r)" x addr sent] assms(2) show ?thesis
    by (simp add: c' apply_log_adds set_all_keys [OF assms(3)] Un_commute)
qed

theorem announcements_reach_server_witness:
  "\<exists>c' :: (actor \<times> channels) server_conn. rt_abs (a_routes (fst (sc_routing c'))) = {(vni100, net24, hop1)} \<and> sc_phase c' = SLoop 5 7 7 []"
proof -
  let ?rt = "rt_run [(Add, vni100, net24, hop1)]"
  have all: "get_all_routes ?rt = [(vni100, route_new net24 hop1)]"
    by (simp add: rt_run_def rt_new_def add_next_hop_def hm_or_default_def hm_insert_def hs_insert_def
        get_all_routes_def Let_def)
  have wf: "rt_wf ?rt" and abs: "rt_abs ?rt = {(vni100, net24, hop1)}"
    using rt_run_refines [of "[(Add, vni100, net24, hop1)]"] by (simp_all del: rt_abs_iff)
  define c' where "c' = server_data reference_externals actor_handle peer1 5 []
     (Inr (wire_bytes reference_externals (map MsgSubscribe [vni200] @ map announce_message (get_all_routes ?rt)))) 7
     (server_accept sys_init [] 9)"
  have "rt_abs (a_routes (fst (sc_routing c'))) = rt_abs (a_routes (fst sys_init)) \<union> rt_abs ?rt \<and>
      sys_inv (sc_routing c') \<and> sc_phase c' = SLoop 5 7 7 []"
    by (rule announcements_reach_server [OF reference.externals_ok_axioms sys_init_inv wf refl, where vs = "[vni200]"])
      (use add1_valid in \<open>simp_all add: all announce_message_def route_new_def server_accept_def c'_def del: wire_bytes_simps\<close>)
  moreover have "rt_abs (a_routes (fst sys_init)) = {}" by (simp add: sys_init_def actor_new_def del: rt_abs_iff)
  ultimately show ?thesis unfolding abs by (intro exI [of _ c']) auto
qed

end
